(* ===== verification/Xv6_Prelude.thy ===== *)
theory Xv6_Prelude
  imports Main "HOL-Library.Word"
begin

text \<open>
  Shared vocabulary of the development: the outcome type of kernel code, the
  byte-level layout of the structures the kernel overlays on disk blocks, and
  the lemmas on lists, sets and functions that the components use.
\<close>

section \<open>Outcomes of kernel code\<close>

declare One_nat_def [simp del]

text \<open>
  A call into the kernel returns a value, panics with a message
  (\<^verbatim>\<open>panic\<close> in console.c never returns), goes to sleep on a channel that only
  another process can wake, or runs into undefined behaviour of C.
  \<open>NoFuel\<close> is the value of a pointer-chasing loop that used up the fuel its
  model was given; the lemmas on those loops show that it does not occur.
\<close>

datatype 'a outcome = Ok 'a | Panic string | Blocked | Undef | NoFuel

fun andthen :: "'a outcome \<Rightarrow> ('a \<Rightarrow> 'b outcome) \<Rightarrow> 'b outcome" where
  "andthen (Ok x) f = f x"
| "andthen (Panic m) f = Panic m"
| "andthen Blocked f = Blocked"
| "andthen Undef f = Undef"
| "andthen NoFuel f = NoFuel"

lemma andthen_cong [fundef_cong]:
  "m = m' \<Longrightarrow> (\<And>x. m' = Ok x \<Longrightarrow> f x = g x) \<Longrightarrow> andthen m f = andthen m' g"
  by (cases m') auto

lemma andthen_eq_Ok:
  "andthen m f = Ok y \<longleftrightarrow> (\<exists>x. m = Ok x \<and> f x = Ok y)"
  by (cases m) auto

lemma andthen_assoc:
  "andthen (andthen m f) g = andthen m (\<lambda>x. andthen (f x) g)"
  by (cases m) auto

text \<open>A counted loop of C over the given index values, stopping at the first failure.\<close>

fun for_each :: "('i \<Rightarrow> 's \<Rightarrow> 's outcome) \<Rightarrow> 'i list \<Rightarrow> 's \<Rightarrow> 's outcome" where
  "for_each f [] s = Ok s"
| "for_each f (i # is) s = andthen (f i s) (for_each f is)"

lemma for_each_append:
  "for_each f (xs @ ys) s = andthen (for_each f xs s) (for_each f ys)"
  by (induction xs arbitrary: s) (simp_all add: andthen_assoc cong: andthen_cong)

text \<open>A loop over \<open>0, \<dots>, n - 1\<close> that maintains an invariant runs to its end.\<close>

lemma for_each_upt:
  assumes "P 0 s" and "\<And>i s. i < n \<Longrightarrow> P i s \<Longrightarrow> \<exists>s'. f i s = Ok s' \<and> P (Suc i) s'"
  shows "\<exists>s'. for_each f [0..<n] s = Ok s' \<and> P n s'"
  using assms(2)
proof (induction n)
  case 0
  then show ?case using assms(1) by simp
next
  case (Suc n)
  then obtain t where "for_each f [0..<n] s = Ok t" "P n t" by fastforce
  moreover obtain u where "f n t = Ok u" "P (Suc n) u" using Suc.prems [of n t] calculation by auto
  ultimately show ?case by (simp add: for_each_append)
qed

named_theorems xv6_defs \<open>definitions of operations, for unfolding\<close>
named_theorems layout \<open>reading a field of a block after writing one\<close>

section \<open>Bytes and blocks\<close>

type_synonym u8 = "8 word"
type_synonym block = "u8 list"

abbreviation BSIZE :: nat where "BSIZE \<equiv> 512"

definition zero_block :: block where
  "zero_block = replicate BSIZE 0"

text \<open>
  Little-endian integers inside a block. An unsigned integer of C is a natural
  number below its range; storing one keeps its low bytes only.
\<close>

definition get16 :: "block \<Rightarrow> nat \<Rightarrow> nat" where
  "get16 d i = unat (d ! i) + 256 * unat (d ! (i + 1))"

definition get32 :: "block \<Rightarrow> nat \<Rightarrow> nat" where
  "get32 d i = unat (d ! i) + 256 * unat (d ! (i + 1))
     + 65536 * unat (d ! (i + 2)) + 16777216 * unat (d ! (i + 3))"

definition put16 :: "block \<Rightarrow> nat \<Rightarrow> nat \<Rightarrow> block" where
  "put16 d i v = d[i := of_nat v, i + 1 := of_nat (v div 256)]"

definition put32 :: "block \<Rightarrow> nat \<Rightarrow> nat \<Rightarrow> block" where
  "put32 d i v = d[i := of_nat v, i + 1 := of_nat (v div 256),
     i + 2 := of_nat (v div 65536), i + 3 := of_nat (v div 16777216)]"

text \<open>The signed 16-bit reading of C's \<^verbatim>\<open>short\<close>, and its bit pattern.\<close>

definition short_of :: "nat \<Rightarrow> int" where
  "short_of n = (if n < 32768 then int n else int n - 65536)"

definition of_short :: "int \<Rightarrow> nat" where
  "of_short i = nat (i mod 65536)"

text \<open>The same for C's \<^verbatim>\<open>int\<close>, and the wrap-around of \<^verbatim>\<open>uint\<close> arithmetic.\<close>

definition int_of :: "nat \<Rightarrow> int" where
  "int_of n = (if n < 2147483648 then int n else int n - 4294967296)"

definition of_int32 :: "int \<Rightarrow> nat" where
  "of_int32 i = nat (i mod 4294967296)"

abbreviation w32 :: "nat \<Rightarrow> nat" where "w32 n \<equiv> n mod 4294967296"

text \<open>\<^verbatim>\<open>memmove\<close> of a byte string into a block at an offset.\<close>

definition blit :: "block \<Rightarrow> nat \<Rightarrow> u8 list \<Rightarrow> block" where
  "blit d i src = take i d @ src @ drop (i + length src) d"

lemma length_zero_block [simp]: "length zero_block = 512"
  by (simp add: zero_block_def)

lemma nth_zero_block [simp]: "i < 512 \<Longrightarrow> zero_block ! i = 0"
  by (simp add: zero_block_def)

lemma length_put16 [simp]: "length (put16 d i v) = length d"
  by (simp add: put16_def)

lemma length_put32 [simp]: "length (put32 d i v) = length d"
  by (simp add: put32_def)

lemma length_blit [simp]:
  "i + length src \<le> length d \<Longrightarrow> length (blit d i src) = length d"
  by (simp add: blit_def)

lemma unat_u8: "unat (x :: u8) < 256"
proof -
  have "unat x < 2 ^ 8" using unsigned_less [of x] by simp
  then show ?thesis by simp
qed

lemma unat_of_nat8: "unat (of_nat n :: u8) = n mod 256"
  by (simp add: unat_of_nat)

lemma bytes_sum32:
  "n mod 256 + 256 * (n div 256 mod 256) + 65536 * (n div 65536 mod 256)
     + 16777216 * (n div 16777216 mod 256) = n mod 4294967296" for n :: nat
proof -
  have "n mod 4294967296 = n mod (256 * 16777216)" by simp
  also have "\<dots> = 16777216 * (n div 16777216 mod 256) + n mod 16777216"
    using mod_mult2_eq [of n 16777216 256] by simp
  also have "n mod 16777216 = 65536 * (n div 65536 mod 256) + n mod 65536"
    using mod_mult2_eq [of n 65536 256] by simp
  also have "n mod 65536 = 256 * (n div 256 mod 256) + n mod 256"
    using mod_mult2_eq [of n 256 256] by simp
  finally show ?thesis by simp
qed

lemma bytes_sum16:
  "n mod 256 + 256 * (n div 256 mod 256) = n mod 65536" for n :: nat
  using mod_mult2_eq [of n 256 256] by simp

lemma get32_put32 [layout]:
  "i + 4 \<le> length d \<Longrightarrow> get32 (put32 d i v) i = v mod 4294967296"
  using bytes_sum32 [of v]
  by (simp add: get32_def put32_def nth_list_update unat_of_nat8)

lemma get16_put16 [layout]:
  "i + 2 \<le> length d \<Longrightarrow> get16 (put16 d i v) i = v mod 65536"
  using bytes_sum16 [of v]
  by (simp add: get16_def put16_def nth_list_update unat_of_nat8)

lemma nth_put32_other:
  "k < i \<or> i + 4 \<le> k \<Longrightarrow> put32 d i v ! k = d ! k"
  by (auto simp: put32_def nth_list_update)

lemma nth_put16_other:
  "k < i \<or> i + 2 \<le> k \<Longrightarrow> put16 d i v ! k = d ! k"
  by (auto simp: put16_def nth_list_update)

lemma get32_put32_other [layout]:
  "j + 4 \<le> i \<or> i + 4 \<le> j \<Longrightarrow> get32 (put32 d i v) j = get32 d j"
  by (auto simp: get32_def nth_put32_other)

lemma get32_put16_other [layout]:
  "j + 4 \<le> i \<or> i + 2 \<le> j \<Longrightarrow> get32 (put16 d i v) j = get32 d j"
  by (auto simp: get32_def nth_put16_other)

lemma get16_put32_other [layout]:
  "j + 2 \<le> i \<or> i + 4 \<le> j \<Longrightarrow> get16 (put32 d i v) j = get16 d j"
  by (auto simp: get16_def nth_put32_other)

lemma get16_put16_other [layout]:
  "j + 2 \<le> i \<or> i + 2 \<le> j \<Longrightarrow> get16 (put16 d i v) j = get16 d j"
  by (auto simp: get16_def nth_put16_other)

lemma get32_bound: "get32 d i < 4294967296"
  using unat_u8 [of "d ! i"] unat_u8 [of "d ! (i + 1)"]
    unat_u8 [of "d ! (i + 2)"] unat_u8 [of "d ! (i + 3)"]
  unfolding get32_def by linarith

lemma get16_bound: "get16 d i < 65536"
  using unat_u8 [of "d ! i"] unat_u8 [of "d ! (i + 1)"]
  unfolding get16_def by linarith

lemma short_of_of_short:
  "- 32768 \<le> i \<Longrightarrow> i < 32768 \<Longrightarrow> short_of (of_short i) = i"
proof (cases "0 \<le> i")
  case True
  assume "- 32768 \<le> i" and "i < 32768"
  with True have "i mod 65536 = i" by simp
  with True \<open>i < 32768\<close> show ?thesis by (simp add: short_of_def of_short_def)
next
  case False
  assume "- 32768 \<le> i" and "i < 32768"
  with False have "i mod 65536 = i + 65536"
    using mod_add_self2 [of i 65536] mod_pos_pos_trivial [of "i + 65536" 65536] by simp
  with False \<open>- 32768 \<le> i\<close> show ?thesis by (simp add: short_of_def of_short_def)
qed

lemma of_short_bound: "of_short i < 65536"
  by (simp add: of_short_def nat_less_iff)

lemma get32_zero [simp]: "i + 4 \<le> 512 \<Longrightarrow> get32 zero_block i = 0"
  by (simp add: get32_def)

lemma nth_blit:
  "i + length src \<le> length d \<Longrightarrow> k < length d \<Longrightarrow>
   blit d i src ! k = (if i \<le> k \<and> k < i + length src then src ! (k - i) else d ! k)"
  by (auto simp: blit_def nth_append min_def)

lemma take_drop_blit:
  "i + length src \<le> length d \<Longrightarrow> take (length src) (drop i (blit d i src)) = src"
  by (simp add: blit_def)

section \<open>Lists, functions and finite sets\<close>

lemma find_SomeD: "find P xs = Some x \<Longrightarrow> x \<in> set xs \<and> P x"
  by (induction xs) (auto split: if_splits)

lemma comp_fun_upd [simp]:
  "(\<lambda>i. f ((g(a := v)) i)) = (\<lambda>i. f (g i))(a := f v)"
  by auto

lemma card_le_of_inj:
  assumes "finite B" and "inj_on f A" and "f ` A \<subseteq> B"
  shows "card A \<le> card B"
  using assms by (metis card_image card_mono)

end
