(* ===== verification/Xv6_String.thy ===== *)
theory Xv6_String
  imports Xv6_Prelude
begin

text \<open>
  The kernel's memory and string routines (string.c) on a byte memory. An address is
  a natural number; the routines that only read take the memory from their pointer on
  as a function from offsets to bytes.
\<close>

unbundle bit_operations_syntax

type_synonym mem = "nat \<Rightarrow> u8"

section \<open>Operations\<close>

text \<open>The string instructions behind \<^verbatim>\<open>stosb\<close> and \<^verbatim>\<open>stosl\<close> (x86.h).\<close>

definition stosb :: "mem \<Rightarrow> nat \<Rightarrow> u8 \<Rightarrow> nat \<Rightarrow> mem" where
  "stosb m dst c n = (\<lambda>a. if dst \<le> a \<and> a < dst + n then c else m a)"

definition stosl :: "mem \<Rightarrow> nat \<Rightarrow> 32 word \<Rightarrow> nat \<Rightarrow> mem" where
  "stosl m dst w n = (\<lambda>a. if dst \<le> a \<and> a < dst + 4 * n
     then ucast (drop_bit (8 * ((a - dst) mod 4)) w) else m a)"

definition memset :: "mem \<Rightarrow> nat \<Rightarrow> int \<Rightarrow> nat \<Rightarrow> mem" where
  "memset m dst c n =
     (if dst mod 4 = 0 \<and> n mod 4 = 0 then
        let c = (of_int c :: 32 word) AND 0xFF
        in stosl m dst (push_bit 24 c OR push_bit 16 c OR push_bit 8 c OR c) (n div 4)
      else stosb m dst (of_int c) n)"

fun memcmp :: "(nat \<Rightarrow> u8) \<Rightarrow> (nat \<Rightarrow> u8) \<Rightarrow> nat \<Rightarrow> int" where
  "memcmp s1 s2 0 = 0"
| "memcmp s1 s2 (Suc n) =
     (if s1 0 \<noteq> s2 0 then int (unat (s1 0)) - int (unat (s2 0))
      else memcmp (\<lambda>i. s1 (Suc i)) (\<lambda>i. s2 (Suc i)) n)"

text \<open>The two copy loops of \<^verbatim>\<open>memmove\<close>: from the end downwards, from the start upwards.\<close>

fun copy_down :: "mem \<Rightarrow> nat \<Rightarrow> nat \<Rightarrow> nat \<Rightarrow> mem" where
  "copy_down m d s 0 = m"
| "copy_down m d s (Suc n) = copy_down (m(d + n := m (s + n))) d s n"

fun copy_up :: "mem \<Rightarrow> nat \<Rightarrow> nat \<Rightarrow> nat \<Rightarrow> mem" where
  "copy_up m d s 0 = m"
| "copy_up m d s (Suc n) = copy_up (m(d := m s)) (d + 1) (s + 1) n"

definition memmove :: "mem \<Rightarrow> nat \<Rightarrow> nat \<Rightarrow> nat \<Rightarrow> mem" where
  "memmove m dst src n =
     (if src < dst \<and> dst < src + n then copy_down m dst src n else copy_up m dst src n)"

fun strncmp :: "(nat \<Rightarrow> u8) \<Rightarrow> (nat \<Rightarrow> u8) \<Rightarrow> nat \<Rightarrow> int" where
  "strncmp p q 0 = 0"
| "strncmp p q (Suc n) =
     (if p 0 \<noteq> 0 \<and> p 0 = q 0 then strncmp (\<lambda>i. p (Suc i)) (\<lambda>i. q (Suc i)) n
      else int (unat (p 0)) - int (unat (q 0)))"

text \<open>The two loops of \<^verbatim>\<open>strncpy\<close>; the first returns with the rest of \<open>n\<close>.\<close>

fun strncpy_copy :: "mem \<Rightarrow> nat \<Rightarrow> nat \<Rightarrow> nat \<Rightarrow> mem \<times> nat \<times> nat" where
  "strncpy_copy m s t 0 = (m, s, 0)"
| "strncpy_copy m s t (Suc n) =
     (let c = m t; m = m(s := c) in
      if c \<noteq> 0 then strncpy_copy m (s + 1) (t + 1) n else (m, s + 1, n))"

fun strncpy_pad :: "mem \<Rightarrow> nat \<Rightarrow> nat \<Rightarrow> mem" where
  "strncpy_pad m s 0 = m"
| "strncpy_pad m s (Suc n) = strncpy_pad (m(s := 0)) (s + 1) n"

definition strncpy :: "mem \<Rightarrow> nat \<Rightarrow> nat \<Rightarrow> nat \<Rightarrow> mem" where
  "strncpy m s t n = (let (m, s, n) = strncpy_copy m s t n in strncpy_pad m s n)"

fun safestrcpy_copy :: "mem \<Rightarrow> nat \<Rightarrow> nat \<Rightarrow> nat \<Rightarrow> mem \<times> nat" where
  "safestrcpy_copy m s t 0 = (m, s)"
| "safestrcpy_copy m s t (Suc n) =
     (let c = m t; m = m(s := c) in
      if c \<noteq> 0 then safestrcpy_copy m (s + 1) (t + 1) n else (m, s + 1))"

definition safestrcpy :: "mem \<Rightarrow> nat \<Rightarrow> nat \<Rightarrow> int \<Rightarrow> mem" where
  "safestrcpy m s t n =
     (if n \<le> 0 then m
      else let (m, s) = safestrcpy_copy m s t (nat (n - 1)) in m(s := 0))"

text \<open>\<^verbatim>\<open>strlen\<close> does not return on memory without a zero byte.\<close>

partial_function (option) strlen_from :: "(nat \<Rightarrow> u8) \<Rightarrow> nat \<Rightarrow> nat option" where
  "strlen_from s n = (if s n \<noteq> 0 then strlen_from s (n + 1) else Some n)"

definition strlen :: "(nat \<Rightarrow> u8) \<Rightarrow> nat option" where
  "strlen s = strlen_from s 0"

section \<open>Lemmas\<close>

lemma copy_up_eq:
  assumes "d \<le> s \<or> s + n \<le> d"
  shows "copy_up m d s n = (\<lambda>a. if d \<le> a \<and> a < d + n then m (s + (a - d)) else m a)"
  using assms
proof (induction n arbitrary: m d s)
  case (Suc n)
  have "copy_up m d s (Suc n) =
      (\<lambda>a. if d + 1 \<le> a \<and> a < d + 1 + n then (m(d := m s)) (s + 1 + (a - (d + 1))) else (m(d := m s)) a)"
    using Suc.prems by (simp only: copy_up.simps) (rule Suc.IH, auto)
  also have "\<dots> = (\<lambda>a. if d \<le> a \<and> a < d + Suc n then m (s + (a - d)) else m a)"
    using Suc.prems by (intro ext) auto
  finally show ?case .
qed (auto simp: fun_eq_iff)

lemma copy_down_eq:
  assumes "s < d"
  shows "copy_down m d s n = (\<lambda>a. if d \<le> a \<and> a < d + n then m (s + (a - d)) else m a)"
  using assms
proof (induction n arbitrary: m)
  case (Suc n)
  have "copy_down m d s (Suc n) =
      (\<lambda>a. if d \<le> a \<and> a < d + n then (m(d + n := m (s + n))) (s + (a - d)) else (m(d + n := m (s + n))) a)"
    using Suc by simp
  also have "\<dots> = (\<lambda>a. if d \<le> a \<and> a < d + Suc n then m (s + (a - d)) else m a)"
    using Suc.prems by (intro ext) auto
  finally show ?case .
qed (auto simp: fun_eq_iff)

text \<open>A C string in memory: \<open>cstr xs\<close> reads as the bytes \<open>xs\<close> followed by zeros.\<close>

definition cstr :: "u8 list \<Rightarrow> nat \<Rightarrow> u8" where
  "cstr xs = (\<lambda>i. if i < length xs then xs ! i else 0)"

lemma cstr_Nil [simp]: "cstr [] i = 0"
  by (simp add: cstr_def)

lemma cstr_Cons [simp]: "cstr (x # xs) 0 = x" "(\<lambda>i. cstr (x # xs) (Suc i)) = cstr xs"
  by (auto simp: cstr_def)

lemma cstr_Nil_shift [simp]: "(\<lambda>i. cstr [] (Suc i)) = cstr []"
  by (auto simp: cstr_def)

lemma unat_diff_0: "int (unat (x :: u8)) - int (unat y) = 0 \<longleftrightarrow> x = y"
  using word_uint_eq_iff [of x y] by auto

lemma strncmp_eq_0:
  assumes "0 \<notin> set xs" and "0 \<notin> set ys"
  shows "strncmp (cstr xs) (cstr ys) n = 0 \<longleftrightarrow> take n xs = take n ys"
  using assms
proof (induction n arbitrary: xs ys)
  case (Suc n)
  show ?case
  proof (cases xs; cases ys)
    fix x xs' y ys'
    assume "xs = x # xs'" "ys = y # ys'"
    then show ?thesis using Suc.IH [of xs' ys'] Suc.prems unat_diff_0 [of x y] by auto
  qed (use Suc.prems in \<open>auto simp: uint_0_iff\<close>)
qed simp

lemma memcmp_eq_0: "memcmp s1 s2 n = 0 \<longleftrightarrow> (\<forall>i<n. s1 i = s2 i)"
proof (induction n arbitrary: s1 s2)
  case (Suc n)
  then show ?case
    using unat_diff_0 [of "s1 0" "s2 0"] by (auto simp: less_Suc_eq_0_disj)
qed simp

lemma strlen_from_eq:
  assumes "s k = 0" and "\<And>i. i < k \<Longrightarrow> s i \<noteq> 0" and "n \<le> k"
  shows "strlen_from s n = Some k"
  using assms(3)
proof (induction "k - n" arbitrary: n)
  case 0
  then show ?case using assms(1) by (subst strlen_from.simps) simp
next
  case (Suc j)
  then have "s n \<noteq> 0" "strlen_from s (n + 1) = Some k" using assms(2) [of n] by auto
  then show ?case by (subst strlen_from.simps) simp
qed


text \<open>Each of the four bytes of the word that \<^verbatim>\<open>memset\<close> stores is the byte \<open>c\<close>.\<close>

lemma memset_word:
  fixes c :: "32 word"
  assumes "k < 4" and w: "w = c AND 0xFF"
  shows "ucast (drop_bit (8 * k) (push_bit 24 w OR push_bit 16 w OR push_bit 8 w OR w)) = (ucast c :: u8)"
proof (rule bit_word_eqI)
  fix n
  assume n: "n < LENGTH(8)"
  have mask: "bit (0xFF :: 32 word) j \<longleftrightarrow> j < 8" for j
  proof -
    have "(0xFF :: 32 word) = mask 8" by (simp add: mask_eq_exp_minus_1)
    then show ?thesis by (simp only: bit_mask_iff) (auto simp: possible_bit_word)
  qed
  have wb: "bit w j \<longleftrightarrow> j < 8 \<and> bit c j" for j
    unfolding w by (simp only: bit_and_iff mask) auto
  have n8: "n < 8" using n by simp
  have "k = 0 \<or> k = 1 \<or> k = 2 \<or> k = 3" using assms(1) by auto
  then show "bit (ucast (drop_bit (8 * k) (push_bit 24 w OR push_bit 16 w OR push_bit 8 w OR w)) :: u8) n =
      bit (ucast c :: u8) n"
    using n8 by (elim disjE) (simp_all add: bit_ucast_iff bit_drop_bit_eq bit_or_iff bit_push_bit_iff wb)
qed

lemma memset_eq:
  "memset m dst c n = (\<lambda>a. if dst \<le> a \<and> a < dst + n then of_int c else m a)"
proof (cases "dst mod 4 = 0 \<and> n mod 4 = 0")
  case True
  let ?w = "(of_int c :: 32 word) AND 0xFF"
  let ?v = "push_bit 24 ?w OR push_bit 16 ?w OR push_bit 8 ?w OR ?w"
  have n: "4 * (n div 4) = n" using True by auto
  have "ucast (of_int c :: 32 word) = (of_int c :: u8)"
    by (rule bit_word_eqI) (simp add: bit_ucast_iff bit_word_of_int_iff)
  then have b: "ucast (drop_bit (8 * (k mod 4)) ?v) = (of_int c :: u8)" for k
    using memset_word [of "k mod 4" ?w "of_int c", OF _ refl] by (metis mod_less_divisor zero_less_numeral)
  show ?thesis
    using True by (simp only: memset_def Let_def stosl_def n b if_True simp_thms)
next
  case False
  then show ?thesis unfolding memset_def stosb_def by auto
qed

lemma memmove_eq:
  "memmove m dst src n = (\<lambda>a. if dst \<le> a \<and> a < dst + n then m (src + (a - dst)) else m a)"
proof (cases "src < dst \<and> dst < src + n")
  case True
  then show ?thesis using copy_down_eq [of src dst m n] by (simp only: memmove_def if_True simp_thms)
next
  case False
  then have "dst \<le> src \<or> src + n \<le> dst" by linarith
  then show ?thesis using False copy_up_eq [of dst src n m] by (simp only: memmove_def if_False)
qed

section \<open>Properties\<close>

text \<open>
  The word-wise fast path of \<^verbatim>\<open>memset\<close> agrees with the byte-wise one: whatever the
  alignment, exactly the \<open>n\<close> bytes from \<open>dst\<close> get the low byte of \<open>c\<close>.
\<close>

theorem memset_correct:
  "memset m dst c n = (\<lambda>a. if dst \<le> a \<and> a < dst + n then of_int c else m a)"
  by (rule memset_eq)

text \<open>
  C15: \<^verbatim>\<open>memmove\<close> copies correctly for every overlap of the two areas: each of the \<open>n\<close>
  target bytes gets what its source byte held before the call, all other bytes stay.
\<close>

theorem memmove_correct:
  "memmove m dst src n = (\<lambda>a. if dst \<le> a \<and> a < dst + n then m (src + (a - dst)) else m a)"
  by (rule memmove_eq)

end
