(* ===== verification/Xv6_Page_Spec.thy ===== *)
theory Xv6_Page_Spec
  imports Xv6_String
begin

text \<open>
  The contract of the physical page allocator, as its clients (page tables, pipes, kernel
  stacks) rely on it: a pool of free pages, \<open>alloc\<close> takes one out or returns 0, \<open>free\<close>
  puts one back, and neither touches a byte outside the page. The client may write any
  byte that is not in a free page.
\<close>

abbreviation PGSIZE :: nat where "PGSIZE \<equiv> 4096"

definition page_range :: "nat \<Rightarrow> nat set" where
  "page_range p = {p..<p + PGSIZE}"

lemma page_range_iff [simp]: "a \<in> page_range p \<longleftrightarrow> p \<le> a \<and> a < p + PGSIZE"
  by (simp add: page_range_def)

locale page_pool =
  fixes pool :: "'s \<Rightarrow> nat set \<Rightarrow> bool"
    and page_ok :: "nat \<Rightarrow> bool"
    and alloc :: "'s \<Rightarrow> nat \<times> 's"
    and free :: "nat \<Rightarrow> 's \<Rightarrow> 's outcome"
    and bytes :: "'s \<Rightarrow> mem"
  assumes pool_pages: "pool s F \<Longrightarrow> p \<in> F \<Longrightarrow> page_ok p \<and> p \<noteq> 0"
    and alloc_empty: "pool s {} \<Longrightarrow> alloc s = (0, s)"
    and alloc_page: "pool s F \<Longrightarrow> F \<noteq> {} \<Longrightarrow> \<exists>p s'. alloc s = (p, s') \<and> p \<in> F \<and> pool s' (F - {p}) \<and> bytes s' = bytes s"
    and free_page: "pool s F \<Longrightarrow> page_ok p \<Longrightarrow> p \<notin> F \<Longrightarrow>
      \<exists>s'. free p s = Ok s' \<and> pool s' (insert p F) \<and> (\<forall>a. a \<notin> page_range p \<longrightarrow> bytes s' a = bytes s a)"
begin

text \<open>
  One call by the clients, who together own the pages \<open>A\<close>. A client gives back only pages it
  owns; other calls do not happen.
\<close>

inductive use :: "'s \<times> nat set \<Rightarrow> 's \<times> nat set \<Rightarrow> bool" where
  take_none: "alloc s = (0, s') \<Longrightarrow> use (s, A) (s', A)"
| take_page: "alloc s = (p, s') \<Longrightarrow> p \<noteq> 0 \<Longrightarrow> use (s, A) (s', insert p A)"
| give: "p \<in> A \<Longrightarrow> free p s = Ok s' \<Longrightarrow> use (s, A) (s', A - {p})"

definition owned :: "nat set \<Rightarrow> 's \<times> nat set \<Rightarrow> bool" where
  "owned P = (\<lambda>(s, A). \<exists>F. pool s F \<and> F \<inter> A = {} \<and> F \<union> A = P \<and> (\<forall>p\<in>A. page_ok p))"

lemma use_owned:
  assumes "use x y" and "owned P x"
  shows "owned P y"
  using assms
proof (induction rule: use.induct)
  case (take_none s s' A)
  then obtain F where F: "pool s F" "F \<inter> A = {}" "F \<union> A = P" "\<forall>p\<in>A. page_ok p"
    by (auto simp: owned_def)
  have "F = {}"
    using alloc_page [OF F(1)] pool_pages [OF F(1), of 0] take_none.hyps by fastforce
  then show ?case using F alloc_empty take_none.hyps by (auto simp: owned_def)
next
  case (take_page s p s' A)
  then obtain F where F: "pool s F" "F \<inter> A = {}" "F \<union> A = P" "\<forall>p\<in>A. page_ok p"
    by (auto simp: owned_def)
  have "F \<noteq> {}" using alloc_empty F(1) take_page.hyps by fastforce
  then have "p \<in> F" "pool s' (F - {p})" using alloc_page [OF F(1)] take_page.hyps by auto
  then show ?case
    using F pool_pages [OF F(1), of p] by (auto simp: owned_def intro!: exI [of _ "F - {p}"])
next
  case (give p A s s')
  then obtain F where F: "pool s F" "F \<inter> A = {}" "F \<union> A = P" "\<forall>p\<in>A. page_ok p"
    by (auto simp: owned_def)
  then have "pool s' (insert p F)" using free_page [OF F(1), of p] give.hyps by auto
  then show ?case using F give.hyps by (auto simp: owned_def intro!: exI [of _ "insert p F"])
qed

text \<open>However the calls interleave, a page that is handed out was not owned by anyone.\<close>

lemma never_shared:
  assumes "use\<^sup>*\<^sup>* x (s, A)" and "owned P x" and "alloc s = (p, s')" and "p \<noteq> 0"
  shows "p \<notin> A \<and> p \<in> P"
proof -
  have "owned P (s, A)" using assms(1,2) by (induction rule: rtranclp_induct) (auto intro: use_owned)
  then obtain F where F: "pool s F" "F \<inter> A = {}" "F \<union> A = P" by (auto simp: owned_def)
  have "F \<noteq> {}" using alloc_empty F(1) assms(3,4) by fastforce
  then show ?thesis using alloc_page [OF F(1)] assms(3) F by auto
qed

end

end
