(* ===== verification/Xv6_Kalloc.thy ===== *)
theory Xv6_Kalloc
  imports Xv6_Page_Spec
begin

text \<open>
  The physical page allocator (kalloc.c). Memory is a map from kernel addresses to bytes;
  the free list runs through the free pages themselves, as in the code. The argument
  \<open>kend\<close> stands for the linker symbol \<^verbatim>\<open>end\<close>, the first address after the kernel.
  A call runs under \<^verbatim>\<open>kmem.lock\<close> (or before the other processors start), so it is one step.
\<close>

abbreviation PHYSTOP :: nat where "PHYSTOP \<equiv> 0xE000000"
abbreviation KERNBASE :: nat where "KERNBASE \<equiv> 0x80000000"

section \<open>Words in memory, addresses\<close>

definition ld32 :: "mem \<Rightarrow> nat \<Rightarrow> nat" where
  "ld32 m a = unat (m a) + 256 * unat (m (a + 1)) + 65536 * unat (m (a + 2)) + 16777216 * unat (m (a + 3))"

definition st32 :: "mem \<Rightarrow> nat \<Rightarrow> nat \<Rightarrow> mem" where
  "st32 m a v = m(a := of_nat v, a + 1 := of_nat (v div 256), a + 2 := of_nat (v div 65536),
     a + 3 := of_nat (v div 16777216))"

definition v2p :: "nat \<Rightarrow> nat" where
  "v2p a = w32 (a + 4294967296 - KERNBASE)"

definition p2v :: "nat \<Rightarrow> nat" where
  "p2v a = w32 (a + KERNBASE)"

definition PGROUNDUP :: "nat \<Rightarrow> nat" where
  "PGROUNDUP sz = w32 (sz + PGSIZE - 1) AND 0xFFFFF000"

definition PGROUNDDOWN :: "nat \<Rightarrow> nat" where
  "PGROUNDDOWN a = a AND 0xFFFFF000"

section \<open>The allocator\<close>

record kmem_state =
  k_mem :: mem
  k_use_lock :: bool
  k_freelist :: nat

definition kfree :: "nat \<Rightarrow> nat \<Rightarrow> 'a kmem_state_scheme \<Rightarrow> 'a kmem_state_scheme outcome" where
  "kfree kend v s =
     (if v mod PGSIZE \<noteq> 0 \<or> v < kend \<or> PHYSTOP \<le> v2p v then Panic ''kfree''
      else let m = memset (k_mem s) v 1 PGSIZE
           in Ok (s\<lparr>k_mem := st32 m v (k_freelist s), k_freelist := v\<rparr>))"

definition kalloc :: "'a kmem_state_scheme \<Rightarrow> nat \<times> 'a kmem_state_scheme" where
  "kalloc s =
     (let r = k_freelist s
      in (r, if r \<noteq> 0 then s\<lparr>k_freelist := ld32 (k_mem s) r\<rparr> else s))"

function freerange_from :: "nat \<Rightarrow> nat \<Rightarrow> nat \<Rightarrow> 'a kmem_state_scheme \<Rightarrow> 'a kmem_state_scheme outcome" where
  "freerange_from kend p vend s =
     (if p + PGSIZE \<le> vend
      then andthen (kfree kend p s) (freerange_from kend (p + PGSIZE) vend) else Ok s)"
  by pat_completeness auto

termination
  by (relation "measure (\<lambda>(kend, p, vend, s). vend - p)") auto

definition freerange :: "nat \<Rightarrow> nat \<Rightarrow> nat \<Rightarrow> 'a kmem_state_scheme \<Rightarrow> 'a kmem_state_scheme outcome" where
  "freerange kend vstart vend s = freerange_from kend (PGROUNDUP vstart) vend s"

definition kinit1 :: "nat \<Rightarrow> nat \<Rightarrow> nat \<Rightarrow> 'a kmem_state_scheme \<Rightarrow> 'a kmem_state_scheme outcome" where
  "kinit1 kend vstart vend s = freerange kend vstart vend (s\<lparr>k_use_lock := False\<rparr>)"

definition kinit2 :: "nat \<Rightarrow> nat \<Rightarrow> nat \<Rightarrow> 'a kmem_state_scheme \<Rightarrow> 'a kmem_state_scheme outcome" where
  "kinit2 kend vstart vend s =
     andthen (freerange kend vstart vend s) (\<lambda>s. Ok (s\<lparr>k_use_lock := True\<rparr>))"

declare freerange_from.simps [simp del]

section \<open>Lemmas on words and rounding\<close>

lemma bit_page_mask: "bit (0xFFFFF000 :: nat) n \<longleftrightarrow> 12 \<le> n \<and> n < 32"
proof -
  have "(0xFFFFF000 :: nat) = push_bit 12 (mask 20)" by (simp add: push_bit_eq_mult mask_eq_exp_minus_1)
  then show ?thesis by (simp only: bit_push_bit_iff_nat bit_mask_iff) auto
qed

lemma and_page_mask: "n < 4294967296 \<Longrightarrow> n AND 0xFFFFF000 = n - n mod PGSIZE"
proof -
  assume n: "n < 4294967296"
  have "n AND 0xFFFFF000 = push_bit 12 (drop_bit 12 n)"
  proof (rule bit_eqI)
    fix i
    have "take_bit 32 n = n" using n by (simp add: take_bit_nat_eq_self_iff)
    then have "bit n i \<Longrightarrow> i < 32" using bit_take_bit_iff [of 32 n i] by simp
    then show "bit (n AND 0xFFFFF000) i = bit (push_bit 12 (drop_bit 12 n)) i"
      by (auto simp: bit_and_iff bit_page_mask bit_push_bit_iff_nat bit_drop_bit_eq)
  qed
  also have "\<dots> = n div PGSIZE * PGSIZE" by (simp add: push_bit_eq_mult drop_bit_eq_div)
  finally show ?thesis by (simp add: minus_mod_eq_div_mult)
qed

lemma PGROUNDUP_eq: "sz + PGSIZE - 1 < 4294967296 \<Longrightarrow> PGROUNDUP sz = (sz + PGSIZE - 1) div PGSIZE * PGSIZE"
  using and_page_mask [of "sz + PGSIZE - 1"] by (simp add: PGROUNDUP_def minus_mod_eq_div_mult)

lemma PGROUNDDOWN_eq: "a < 4294967296 \<Longrightarrow> PGROUNDDOWN a = a div PGSIZE * PGSIZE"
  using and_page_mask [of a] by (simp add: PGROUNDDOWN_def minus_mod_eq_div_mult)

lemma ld32_st32 [simp]: "ld32 (st32 m a v) a = w32 v"
  unfolding bytes_sum32 [of v, symmetric] by (simp add: ld32_def st32_def unat_of_nat8)

lemma ld32_cong: "(\<And>i. i < 4 \<Longrightarrow> m' (a + i) = m (a + i)) \<Longrightarrow> ld32 m' a = ld32 m a"
proof -
  assume "\<And>i. i < 4 \<Longrightarrow> m' (a + i) = m (a + i)"
  from this [of 0] this [of 1] this [of 2] this [of 3] show ?thesis by (simp add: ld32_def)
qed

lemma st32_other: "b < a \<or> a + 4 \<le> b \<Longrightarrow> st32 m a v b = m b"
  by (auto simp: st32_def)

lemma ld32_less: "ld32 m a < 4294967296"
  using unat_u8 [of "m a"] unat_u8 [of "m (a + 1)"] unat_u8 [of "m (a + 2)"] unat_u8 [of "m (a + 3)"]
  unfolding ld32_def by linarith

section \<open>The free list\<close>

definition kpage_ok :: "nat \<Rightarrow> nat \<Rightarrow> bool" where
  "kpage_ok kend p \<longleftrightarrow> p mod PGSIZE = 0 \<and> kend \<le> p \<and> KERNBASE \<le> p \<and> p < KERNBASE + PHYSTOP"

fun free_chain :: "mem \<Rightarrow> nat \<Rightarrow> nat list \<Rightarrow> bool" where
  "free_chain m r [] \<longleftrightarrow> r = 0"
| "free_chain m r (p # ps) \<longleftrightarrow> r = p \<and> r \<noteq> 0 \<and> free_chain m (ld32 m r) ps"

definition kmem_list :: "nat \<Rightarrow> 'a kmem_state_scheme \<Rightarrow> nat list \<Rightarrow> bool" where
  "kmem_list kend s ps \<longleftrightarrow>
     free_chain (k_mem s) (k_freelist s) ps \<and> distinct ps \<and> (\<forall>p\<in>set ps. kpage_ok kend p)"

definition kmem_pool :: "nat \<Rightarrow> 'a kmem_state_scheme \<Rightarrow> nat set \<Rightarrow> bool" where
  "kmem_pool kend s F \<longleftrightarrow> (\<exists>ps. kmem_list kend s ps \<and> set ps = F)"

lemma v2p_kernel:
  assumes "KERNBASE \<le> p" and "p < 4294967296"
  shows "v2p p = p - KERNBASE"
proof -
  have "p + 4294967296 - KERNBASE = (p - KERNBASE) + 4294967296" using assms(1) by linarith
  then have "v2p p = w32 (p - KERNBASE)" unfolding v2p_def by (simp only: mod_add_self2)
  then show ?thesis using assms(2) by simp
qed

lemma kpage_ok_kfree:
  "p < 4294967296 \<Longrightarrow> kpage_ok kend p \<longleftrightarrow> \<not> (p mod PGSIZE \<noteq> 0 \<or> p < kend \<or> PHYSTOP \<le> v2p p)"
proof -
  assume p: "p < 4294967296"
  show ?thesis
  proof (cases "KERNBASE \<le> p")
    case True
    then show ?thesis using v2p_kernel [OF True p] by (auto simp: kpage_ok_def)
  next
    case False
    then have "v2p p = p + 4294967296 - KERNBASE" using p by (simp add: v2p_def)
    then show ?thesis using False by (auto simp: kpage_ok_def)
  qed
qed

lemma kpage_ok_bound: "kpage_ok kend p \<Longrightarrow> p \<noteq> 0 \<and> p < 4294967296"
  by (auto simp: kpage_ok_def)

text \<open>Distinct pages do not overlap.\<close>

lemma pages_disjoint:
  assumes "p mod PGSIZE = 0" and "q mod PGSIZE = 0" and "p \<noteq> q"
  shows "p + PGSIZE \<le> q \<or> q + PGSIZE \<le> p"
proof -
  obtain i j where ij: "p = PGSIZE * i" "q = PGSIZE * j" using assms(1,2) by (auto elim!: dvdE simp: mod_eq_0_iff_dvd)
  then have "i < j \<or> j < i" using assms(3) by (simp add: linorder_neq_iff)
  then have "i + 1 \<le> j \<or> j + 1 \<le> i" by auto
  then show ?thesis unfolding ij by auto
qed

lemma free_chain_cong:
  assumes "free_chain m r ps" and "\<And>p i. p \<in> set ps \<Longrightarrow> i < 4 \<Longrightarrow> m' (p + i) = m (p + i)"
  shows "free_chain m' r ps"
  using assms
proof (induction ps arbitrary: r)
  case (Cons p ps)
  then have "ld32 m' p = ld32 m p" by (intro ld32_cong) auto
  then show ?case using Cons by auto
qed simp

text \<open>Writes outside the free pages do not disturb the pool.\<close>

lemma kmem_pool_write:
  assumes "kmem_pool kend s F" and "\<And>p a. p \<in> F \<Longrightarrow> a \<in> page_range p \<Longrightarrow> m a = k_mem s a"
  shows "kmem_pool kend (s\<lparr>k_mem := m\<rparr>) F"
proof -
  obtain ps where ps: "kmem_list kend s ps" "set ps = F" using assms(1) by (auto simp: kmem_pool_def)
  have "free_chain m (k_freelist s) ps"
  proof (rule free_chain_cong)
    show "free_chain (k_mem s) (k_freelist s) ps" using ps(1) by (simp add: kmem_list_def)
    show "m (p + i) = k_mem s (p + i)" if "p \<in> set ps" "i < 4" for p i
      by (rule assms(2) [of p]) (use that ps(2) in auto)
  qed
  then show ?thesis using ps by (auto simp: kmem_pool_def kmem_list_def intro!: exI [of _ ps])
qed

lemma kalloc_list:
  assumes "kmem_list kend s ps"
  shows "kalloc s = (case ps of [] \<Rightarrow> (0, s) | p # qs \<Rightarrow> (p, s\<lparr>k_freelist := ld32 (k_mem s) p\<rparr>))"
    and "ps = p # qs \<Longrightarrow> kmem_list kend (snd (kalloc s)) qs"
  using assms by (cases ps; auto simp: kmem_list_def kalloc_def)+

lemma kfree_list:
  assumes "kmem_list kend s ps" and ok: "kpage_ok kend p" and "p \<notin> set ps"
  shows "kfree kend p s = Ok (s\<lparr>k_mem := st32 (memset (k_mem s) p 1 PGSIZE) p (k_freelist s), k_freelist := p\<rparr>)"
    and "kmem_list kend (s\<lparr>k_mem := st32 (memset (k_mem s) p 1 PGSIZE) p (k_freelist s), k_freelist := p\<rparr>) (p # ps)"
proof -
  let ?m = "st32 (memset (k_mem s) p 1 PGSIZE) p (k_freelist s)"
  show "kfree kend p s = Ok (s\<lparr>k_mem := ?m, k_freelist := p\<rparr>)"
    using ok kpage_ok_kfree [of p kend] kpage_ok_bound [OF ok] by (simp add: kfree_def)
  have "k_freelist s < 4294967296"
    using assms(1) kpage_ok_bound by (cases ps) (auto simp: kmem_list_def)
  moreover have "free_chain ?m (k_freelist s) ps"
  proof (rule free_chain_cong [of "k_mem s"])
    fix q i :: nat
    assume q: "q \<in> set ps" "i < 4"
    then have "p + PGSIZE \<le> q \<or> q + PGSIZE \<le> p"
      using assms by (intro pages_disjoint) (auto simp: kmem_list_def kpage_ok_def)
    then show "?m (q + i) = k_mem s (q + i)"
      using q(2) by (auto simp: st32_other memset_eq)
  qed (use assms(1) in \<open>simp add: kmem_list_def\<close>)
  ultimately show "kmem_list kend (s\<lparr>k_mem := ?m, k_freelist := p\<rparr>) (p # ps)"
    using assms kpage_ok_bound [OF ok] by (simp add: kmem_list_def)
qed

lemma kfree_other:
  assumes "kfree kend p s = Ok s'" and "a \<notin> page_range p"
  shows "k_mem s' a = k_mem s a"
  using assms by (auto simp: kfree_def Let_def st32_other memset_eq split: if_splits)

text \<open>The allocator keeps the contract of a page pool.\<close>

interpretation kp: page_pool "kmem_pool kend" "kpage_ok kend" kalloc "kfree kend" k_mem for kend
proof (unfold_locales, goal_cases)
  case (1 s F p)
  then show ?case using kpage_ok_bound by (auto simp: kmem_pool_def kmem_list_def)
next
  case (2 s)
  then show ?case using kalloc_list(1) by (fastforce simp: kmem_pool_def)
next
  case (3 s F)
  then obtain p qs where l: "kmem_list kend s (p # qs)" "set (p # qs) = F"
    unfolding kmem_pool_def by (metis neq_Nil_conv set_empty)
  then have "set qs = F - {p}" by (auto simp: kmem_list_def)
  then show ?case
    using l kalloc_list(1) [OF l(1)] kalloc_list(2) [OF l(1) refl] by (auto simp: kmem_pool_def)
next
  case (4 s F p)
  then obtain ps where l: "kmem_list kend s ps" "set ps = F" by (auto simp: kmem_pool_def)
  let ?s = "s\<lparr>k_mem := st32 (memset (k_mem s) p 1 PGSIZE) p (k_freelist s), k_freelist := p\<rparr>"
  have "kfree kend p s = Ok ?s" "kmem_list kend ?s (p # ps)" using kfree_list [OF l(1), of p] 4 l(2) by auto
  then show ?case using l(2) kfree_other [of kend p s ?s] by (auto simp: kmem_pool_def intro!: exI [of _ "p # ps"])
qed

section \<open>Filling the pool\<close>

definition whole_pages :: "nat \<Rightarrow> nat \<Rightarrow> nat set" where
  "whole_pages a b = {p. p mod PGSIZE = 0 \<and> a \<le> p \<and> p + PGSIZE \<le> b}"

lemma whole_pages_step:
  "p mod PGSIZE = 0 \<Longrightarrow> p + PGSIZE \<le> b \<Longrightarrow> whole_pages p b = insert p (whole_pages (p + PGSIZE) b)"
  using pages_disjoint [of p] by (fastforce simp: whole_pages_def)

lemma whole_pages_PGROUNDUP:
  assumes "a + PGSIZE - 1 < 4294967296"
  shows "whole_pages (PGROUNDUP a) b = whole_pages a b"
proof -
  have "PGROUNDUP a \<le> p \<longleftrightarrow> a \<le> p" if "p mod PGSIZE = 0" for p
  proof -
    from that have "PGSIZE dvd p" by (simp only: mod_eq_0_iff_dvd)
    then obtain k where k: "p = PGSIZE * k" by (rule dvdE)
    show ?thesis unfolding PGROUNDUP_eq [OF assms] k by auto
  qed
  then show ?thesis by (auto simp: whole_pages_def)
qed

lemma freerange_from_law:
  assumes "kmem_pool kend s F" and "p mod PGSIZE = 0" and "kend \<le> p" and "KERNBASE \<le> p"
    and "vend \<le> KERNBASE + PHYSTOP" and "F \<inter> whole_pages p vend = {}"
  shows "\<exists>s'. freerange_from kend p vend s = Ok s' \<and> kmem_pool kend s' (F \<union> whole_pages p vend)"
  using assms
proof (induction "vend - p" arbitrary: p F s rule: less_induct)
  case less
  show ?case
  proof (cases "p + PGSIZE \<le> vend")
    case True
    have w: "whole_pages p vend = insert p (whole_pages (p + PGSIZE) vend)"
      by (rule whole_pages_step [OF less.prems(2) True])
    have "kpage_ok kend p" "p \<notin> F" using less.prems True w by (auto simp: kpage_ok_def)
    with kp.free_page [OF less.prems(1)] obtain s1 where s1:
      "kfree kend p s = Ok s1" "kmem_pool kend s1 (insert p F)" by blast
    have "insert p F \<inter> whole_pages (p + PGSIZE) vend = {}"
      using less.prems(6) w by (auto simp: whole_pages_def)
    moreover have "vend - (p + PGSIZE) < vend - p" using True by linarith
    ultimately obtain s' where "freerange_from kend (p + PGSIZE) vend s1 = Ok s'"
      "kmem_pool kend s' (insert p F \<union> whole_pages (p + PGSIZE) vend)"
      using less.hyps [OF _ s1(2), of "p + PGSIZE"] less.prems True by auto
    then show ?thesis using True s1(1) w by (subst freerange_from.simps) simp
  next
    case False
    then have "whole_pages p vend = {}" by (auto simp: whole_pages_def)
    then show ?thesis using less.prems(1) False by (subst freerange_from.simps) simp
  qed
qed

lemma freerange_law:
  assumes "kmem_pool kend s F" and "kend \<le> vstart" and "KERNBASE \<le> vstart"
    and "vstart \<le> KERNBASE + PHYSTOP"
    and "vend \<le> KERNBASE + PHYSTOP" and "F \<inter> whole_pages vstart vend = {}"
  shows "\<exists>s'. freerange kend vstart vend s = Ok s' \<and> kmem_pool kend s' (F \<union> whole_pages vstart vend)"
proof -
  have b: "vstart + PGSIZE - 1 < 4294967296" using assms(4) by simp
  have up: "PGROUNDUP vstart mod PGSIZE = 0" "vstart \<le> PGROUNDUP vstart"
    unfolding PGROUNDUP_eq [OF b] by auto
  show ?thesis
    using freerange_from_law [OF assms(1) up(1), of vend] assms up(2) whole_pages_PGROUNDUP [OF b, of vend]
    by (simp add: freerange_def)
qed

lemma kmem_pool_use_lock [simp]: "kmem_pool kend (s\<lparr>k_use_lock := b\<rparr>) = kmem_pool kend s"
  by (auto simp: kmem_pool_def kmem_list_def fun_eq_iff)

section \<open>Correctness of the allocator\<close>

text \<open>
  C19: However calls of \<^verbatim>\<open>kalloc\<close> and of \<^verbatim>\<open>kfree\<close> on owned pages interleave, starting from a
  pool \<open>F\<close> with nothing handed out, a page that \<^verbatim>\<open>kalloc\<close> returns is a page of the pool that
  nobody owns.
\<close>

theorem kalloc_never_shares:
  assumes "kmem_pool kend s0 F" and "(kp.use kend)\<^sup>*\<^sup>* (s0, {}) (s, A)"
    and "kalloc s = (p, s')" and "p \<noteq> 0"
  shows "p \<notin> A \<and> p \<in> F \<and> kpage_ok kend p"
proof -
  have "kp.owned kend F (s0, {})" using assms(1) by (simp add: kp.owned_def)
  then have "p \<notin> A" "p \<in> F" using kp.never_shared [OF assms(2) _ assms(3,4)] by auto
  then show ?thesis using kp.pool_pages [OF assms(1)] by auto
qed

text \<open>
  The two phases of initialisation put exactly the whole pages between the end of the
  kernel and the top of physical memory on the free list, whatever the memory held before.
\<close>

theorem kinit_fills_pool:
  assumes "KERNBASE \<le> kend" and "kend \<le> mid" and "mid \<le> KERNBASE + PHYSTOP" and "mid mod PGSIZE = 0"
    and "k_freelist s = 0"
  shows "\<exists>s1 s2. kinit1 kend kend mid s = Ok s1 \<and> kinit2 kend mid (KERNBASE + PHYSTOP) s1 = Ok s2 \<and>
    k_use_lock s2 \<and> kmem_pool kend s2 (whole_pages kend (KERNBASE + PHYSTOP))"
proof -
  have "kmem_pool kend (s\<lparr>k_use_lock := False\<rparr>) {}"
    using assms(5) by (simp add: kmem_pool_def kmem_list_def)
  then obtain s1 where s1: "kinit1 kend kend mid s = Ok s1" "kmem_pool kend s1 (whole_pages kend mid)"
    using freerange_law [of kend "s\<lparr>k_use_lock := False\<rparr>" "{}" kend mid] assms by (auto simp: kinit1_def)
  have "whole_pages kend mid \<inter> whole_pages mid (KERNBASE + PHYSTOP) = {}" by (auto simp: whole_pages_def)
  with freerange_law [OF s1(2), of mid "KERNBASE + PHYSTOP"] assms obtain s2 where
    "freerange kend mid (KERNBASE + PHYSTOP) s1 = Ok s2"
    "kmem_pool kend s2 (whole_pages kend mid \<union> whole_pages mid (KERNBASE + PHYSTOP))" by auto
  moreover have "whole_pages kend mid \<union> whole_pages mid (KERNBASE + PHYSTOP) =
      whole_pages kend (KERNBASE + PHYSTOP)"
    using assms(2,3,4) pages_disjoint [OF _ assms(4)] by (fastforce simp: whole_pages_def)
  ultimately show ?thesis using s1(1) by (intro exI [of _ s1] exI [of _ "s2\<lparr>k_use_lock := True\<rparr>"]) (simp add: kinit2_def)
qed

theorem kinit_fills_pool_witness:
  "\<exists>s1 s2. kinit1 0x80110000 0x80110000 0x80400000 \<lparr>k_mem = \<lambda>a. 0, k_use_lock = True, k_freelist = 0\<rparr> = Ok s1 \<and>
     kinit2 0x80110000 0x80400000 (KERNBASE + PHYSTOP) s1 = Ok s2 \<and> k_use_lock s2 \<and>
     kmem_pool 0x80110000 s2 (whole_pages 0x80110000 (KERNBASE + PHYSTOP))"
  by (rule kinit_fills_pool) simp_all

definition two_pages :: kmem_state where
  "two_pages = \<lparr>k_mem = st32 (\<lambda>a. 0) 0x80200000 0x80201000, k_use_lock = True, k_freelist = 0x80200000\<rparr>"

theorem kalloc_never_shares_witness:
  "kmem_pool 0x80110000 two_pages {0x80200000, 0x80201000} \<and>
   (kp.use 0x80110000)\<^sup>*\<^sup>* (two_pages, {}) (two_pages\<lparr>k_freelist := 0x80201000\<rparr>, {0x80200000}) \<and>
   kalloc (two_pages\<lparr>k_freelist := 0x80201000\<rparr>) = (0x80201000, two_pages\<lparr>k_freelist := 0\<rparr>) \<and>
   (0x80201000 :: nat) \<notin> {0x80200000} \<and> kpage_ok 0x80110000 0x80201000"
proof -
  let ?s = "two_pages\<lparr>k_freelist := 0x80201000\<rparr>"
  have "ld32 (k_mem two_pages) 0x80201000 = 0" by (simp add: two_pages_def st32_def ld32_def)
  moreover have k: "ld32 (k_mem two_pages) 0x80200000 = 0x80201000" by (simp add: two_pages_def)
  ultimately have l: "kmem_list 0x80110000 two_pages [0x80200000, 0x80201000]"
    and a: "kalloc ?s = (0x80201000, two_pages\<lparr>k_freelist := 0\<rparr>)"
    by (simp_all add: kmem_list_def kpage_ok_def kalloc_def) (simp_all add: two_pages_def)
  have p: "kmem_pool 0x80110000 two_pages {0x80200000, 0x80201000}"
    using l unfolding kmem_pool_def by (intro exI [of _ "[0x80200000, 0x80201000]"]) simp
  have "kalloc two_pages = (0x80200000, ?s)" using k by (simp add: kalloc_def two_pages_def)
  then have u: "(kp.use 0x80110000)\<^sup>*\<^sup>* (two_pages, {}) (?s, {0x80200000})"
    by (intro r_into_rtranclp kp.take_page) simp_all
  show ?thesis using kalloc_never_shares [OF p u a] p u a by simp
qed

end
