(* ===== verification/Xv6_Vm.thy ===== *)
theory Xv6_Vm
  imports Xv6_Kalloc
begin

text \<open>
  Page tables (vm.c): a two-level table in allocated pages, read and written as 32-bit
  words of the byte memory, at the addresses the code computes. \<open>kdata\<close> stands for the
  linker symbol \<^verbatim>\<open>data\<close>. A pointer result 0 is the null pointer; reading through a null
  pointer is \<^term>\<open>Undef\<close>.
\<close>

unbundle bit_operations_syntax

abbreviation PTE_P :: nat where "PTE_P \<equiv> 1"
abbreviation PTE_W :: nat where "PTE_W \<equiv> 2"
abbreviation PTE_U :: nat where "PTE_U \<equiv> 4"
abbreviation NPDENTRIES :: nat where "NPDENTRIES \<equiv> 1024"
abbreviation NPTENTRIES :: nat where "NPTENTRIES \<equiv> 1024"
abbreviation EXTMEM :: nat where "EXTMEM \<equiv> 0x100000"
abbreviation KERNLINK :: nat where "KERNLINK \<equiv> KERNBASE + EXTMEM"
abbreviation DEVSPACE :: nat where "DEVSPACE \<equiv> 0xFE000000"

section \<open>Addresses (mmu.h)\<close>

definition PDX :: "nat \<Rightarrow> nat" where
  "PDX va = drop_bit 22 va AND 0x3FF"

definition PTX :: "nat \<Rightarrow> nat" where
  "PTX va = drop_bit 12 va AND 0x3FF"

definition PTE_ADDR :: "nat \<Rightarrow> nat" where
  "PTE_ADDR pte = pte AND 0xFFFFF000"

section \<open>Operations\<close>

record vm_state = kmem_state +
  v_kpgdir :: nat
  v_cr3 :: nat

definition walkpgdir :: "nat \<Rightarrow> nat \<Rightarrow> bool \<Rightarrow> 'a kmem_state_scheme \<Rightarrow> nat \<times> 'a kmem_state_scheme" where
  "walkpgdir pgdir va alloc s =
     (let pde = pgdir + 4 * PDX va in
      if ld32 (k_mem s) pde AND PTE_P \<noteq> 0
      then (p2v (PTE_ADDR (ld32 (k_mem s) pde)) + 4 * PTX va, s)
      else if \<not> alloc then (0, s)
      else let (pgtab, s) = kalloc s in
        if pgtab = 0 then (0, s)
        else let m = memset (k_mem s) pgtab 0 PGSIZE;
                 m = st32 m pde (v2p pgtab OR PTE_P OR PTE_W OR PTE_U)
             in (pgtab + 4 * PTX va, s\<lparr>k_mem := m\<rparr>))"

text \<open>
  The loop of \<^verbatim>\<open>mappages\<close>. The first argument bounds the iterations; \<^verbatim>\<open>mappages\<close> passes the
  number of pages from \<open>a\<close> to \<open>lst\<close>, so it does not run out.
\<close>

fun mappages_loop :: "nat \<Rightarrow> nat \<Rightarrow> nat \<Rightarrow> nat \<Rightarrow> nat \<Rightarrow> nat \<Rightarrow> 'a kmem_state_scheme \<Rightarrow>
    (int \<times> 'a kmem_state_scheme) outcome" where
  "mappages_loop 0 pgdir a lst pa perm s = NoFuel"
| "mappages_loop (Suc n) pgdir a lst pa perm s =
     (let (pte, s) = walkpgdir pgdir a True s in
      if pte = 0 then Ok (-1, s)
      else if ld32 (k_mem s) pte AND PTE_P \<noteq> 0 then Panic ''remap''
      else let s = s\<lparr>k_mem := st32 (k_mem s) pte (pa OR perm OR PTE_P)\<rparr> in
        if a = lst then Ok (0, s)
        else mappages_loop n pgdir (w32 (a + PGSIZE)) lst (w32 (pa + PGSIZE)) perm s)"

definition mappages :: "nat \<Rightarrow> nat \<Rightarrow> nat \<Rightarrow> nat \<Rightarrow> nat \<Rightarrow> 'a kmem_state_scheme \<Rightarrow>
    (int \<times> 'a kmem_state_scheme) outcome" where
  "mappages pgdir va sz pa perm s =
     (let a = PGROUNDDOWN va; lst = PGROUNDDOWN (w32 (va + sz + 4294967295))
      in mappages_loop (w32 (lst + 4294967296 - a) div PGSIZE + 1) pgdir a lst pa perm s)"

definition kmap :: "nat \<Rightarrow> (nat \<times> nat \<times> nat \<times> nat) list" where
  "kmap kdata =
     [(KERNBASE, 0, EXTMEM, PTE_W),
      (KERNLINK, v2p KERNLINK, v2p kdata, 0),
      (kdata, v2p kdata, PHYSTOP, PTE_W),
      (DEVSPACE, DEVSPACE, 0, PTE_W)]"

fun map_kernel :: "nat \<Rightarrow> (nat \<times> nat \<times> nat \<times> nat) list \<Rightarrow> 'a kmem_state_scheme \<Rightarrow>
    (nat \<times> 'a kmem_state_scheme) outcome" where
  "map_kernel pgdir [] s = Ok (pgdir, s)"
| "map_kernel pgdir ((virt, phys_start, phys_end, perm) # ks) s =
     andthen (mappages pgdir virt (w32 (phys_end + 4294967296 - phys_start)) phys_start perm s)
       (\<lambda>(r, s). if r < 0 then Ok (0, s) else map_kernel pgdir ks s)"

definition setupkvm :: "nat \<Rightarrow> 'a kmem_state_scheme \<Rightarrow> (nat \<times> 'a kmem_state_scheme) outcome" where
  "setupkvm kdata s =
     (let (pgdir, s) = kalloc s in
      if pgdir = 0 then Ok (0, s)
      else let s = s\<lparr>k_mem := memset (k_mem s) pgdir 0 PGSIZE\<rparr> in
        if p2v PHYSTOP > DEVSPACE then Panic ''PHYSTOP too high''
        else map_kernel pgdir (kmap kdata) s)"

definition switchkvm :: "'a vm_state_scheme \<Rightarrow> 'a vm_state_scheme" where
  "switchkvm s = s\<lparr>v_cr3 := v2p (v_kpgdir s)\<rparr>"

definition kvmalloc :: "nat \<Rightarrow> 'a vm_state_scheme \<Rightarrow> 'a vm_state_scheme outcome" where
  "kvmalloc kdata s =
     andthen (setupkvm kdata s) (\<lambda>(pgdir, s). Ok (switchkvm (s\<lparr>v_kpgdir := pgdir\<rparr>)))"

definition inituvm :: "nat \<Rightarrow> nat \<Rightarrow> nat \<Rightarrow> 'a kmem_state_scheme \<Rightarrow> 'a kmem_state_scheme outcome" where
  "inituvm pgdir init sz s =
     (if PGSIZE \<le> sz then Panic ''inituvm: more than a page''
      else let (mem, s) = kalloc s; s = s\<lparr>k_mem := memset (k_mem s) mem 0 PGSIZE\<rparr>
        in andthen (mappages pgdir 0 PGSIZE (v2p mem) (PTE_W OR PTE_U) s)
             (\<lambda>(r, s). Ok (s\<lparr>k_mem := memmove (k_mem s) mem init sz\<rparr>)))"

text \<open>
  The loop of \<^verbatim>\<open>deallocuvm\<close>, with a bound on its iterations. When \<^verbatim>\<open>oldsz\<close> is within 4 MB of
  \<open>2 ^ 32\<close> the sum can wrap around and the code loops for ever; \<^verbatim>\<open>deallocuvm\<close> passes a
  bound that is enough for every other \<^verbatim>\<open>oldsz\<close>.
\<close>

fun dealloc_loop :: "nat \<Rightarrow> nat \<Rightarrow> nat \<Rightarrow> nat \<Rightarrow> nat \<Rightarrow> 'a kmem_state_scheme \<Rightarrow> 'a kmem_state_scheme outcome" where
  "dealloc_loop 0 kend pgdir a oldsz s = (if a < oldsz then NoFuel else Ok s)"
| "dealloc_loop (Suc n) kend pgdir a oldsz s =
     (if a < oldsz then
        let (pte, s) = walkpgdir pgdir a False s in
        if pte = 0 then dealloc_loop n kend pgdir (w32 (a + (NPTENTRIES - 1) * PGSIZE + PGSIZE)) oldsz s
        else if ld32 (k_mem s) pte AND PTE_P \<noteq> 0 then
          let pa = PTE_ADDR (ld32 (k_mem s) pte) in
          if pa = 0 then Panic ''kfree''
          else andthen (kfree kend (p2v pa) s) (\<lambda>s.
            dealloc_loop n kend pgdir (w32 (a + PGSIZE)) oldsz (s\<lparr>k_mem := st32 (k_mem s) pte 0\<rparr>))
        else dealloc_loop n kend pgdir (w32 (a + PGSIZE)) oldsz s
      else Ok s)"

definition deallocuvm :: "nat \<Rightarrow> nat \<Rightarrow> nat \<Rightarrow> nat \<Rightarrow> 'a kmem_state_scheme \<Rightarrow>
    (nat \<times> 'a kmem_state_scheme) outcome" where
  "deallocuvm kend pgdir oldsz newsz s =
     (if oldsz \<le> newsz then Ok (oldsz, s)
      else andthen (dealloc_loop (oldsz div PGSIZE + 1) kend pgdir (PGROUNDUP newsz) oldsz s)
             (\<lambda>s. Ok (newsz, s)))"

function alloc_loop :: "nat \<Rightarrow> nat \<Rightarrow> nat \<Rightarrow> nat \<Rightarrow> nat \<Rightarrow> 'a kmem_state_scheme \<Rightarrow>
    (nat \<times> 'a kmem_state_scheme) outcome" where
  "alloc_loop kend pgdir a oldsz newsz s =
     (if a < newsz then
        let (mem, s) = kalloc s in
        if mem = 0 then andthen (deallocuvm kend pgdir newsz oldsz s) (\<lambda>(r, s). Ok (0, s))
        else andthen (mappages pgdir a PGSIZE (v2p mem) (PTE_W OR PTE_U)
                        (s\<lparr>k_mem := memset (k_mem s) mem 0 PGSIZE\<rparr>))
               (\<lambda>(r, s). alloc_loop kend pgdir (a + PGSIZE) oldsz newsz s)
      else Ok (newsz, s))"
  by pat_completeness auto

termination
  by (relation "measure (\<lambda>(kend, pgdir, a, oldsz, newsz, s). newsz - a)") auto

definition allocuvm :: "nat \<Rightarrow> nat \<Rightarrow> nat \<Rightarrow> nat \<Rightarrow> 'a kmem_state_scheme \<Rightarrow>
    (nat \<times> 'a kmem_state_scheme) outcome" where
  "allocuvm kend pgdir oldsz newsz s =
     (if KERNBASE \<le> newsz then Ok (0, s)
      else if newsz < oldsz then Ok (oldsz, s)
      else alloc_loop kend pgdir (PGROUNDUP oldsz) oldsz newsz s)"

definition freevm :: "nat \<Rightarrow> nat \<Rightarrow> 'a kmem_state_scheme \<Rightarrow> 'a kmem_state_scheme outcome" where
  "freevm kend pgdir s =
     (if pgdir = 0 then Panic ''freevm: no pgdir''
      else andthen (deallocuvm kend pgdir KERNBASE 0 s) (\<lambda>(r, s).
        andthen (for_each (\<lambda>i s. let pde = ld32 (k_mem s) (pgdir + 4 * i) in
                     if pde AND PTE_P \<noteq> 0 then kfree kend (p2v (PTE_ADDR pde)) s else Ok s)
                   [0..<NPDENTRIES] s)
          (kfree kend pgdir)))"

definition clearpteu :: "nat \<Rightarrow> nat \<Rightarrow> 'a kmem_state_scheme \<Rightarrow> 'a kmem_state_scheme outcome" where
  "clearpteu pgdir uva s =
     (let (pte, s) = walkpgdir pgdir uva False s in
      if pte = 0 then Panic ''clearpteu''
      else Ok (s\<lparr>k_mem := st32 (k_mem s) pte (ld32 (k_mem s) pte AND 0xFFFFFFFB)\<rparr>))"

text \<open>\<^verbatim>\<open>copyuvm\<close> copies page by page; on failure it frees the new table and returns 0.\<close>

function copy_loop :: "nat \<Rightarrow> nat \<Rightarrow> nat \<Rightarrow> nat \<Rightarrow> nat \<Rightarrow> 'a kmem_state_scheme \<Rightarrow>
    (nat \<times> 'a kmem_state_scheme) outcome" where
  "copy_loop kend d pgdir i sz s =
     (if i < sz then
        let (pte, s) = walkpgdir pgdir i False s in
        if pte = 0 then Panic ''copyuvm: pte should exist''
        else if ld32 (k_mem s) pte AND PTE_P = 0 then Panic ''copyuvm: page not present''
        else let pa = PTE_ADDR (ld32 (k_mem s) pte); (mem, s) = kalloc s in
          if mem = 0 then andthen (freevm kend d s) (\<lambda>s. Ok (0, s))
          else andthen (mappages d i PGSIZE (v2p mem) (PTE_W OR PTE_U)
                          (s\<lparr>k_mem := memmove (k_mem s) mem (p2v pa) PGSIZE\<rparr>))
            (\<lambda>(r, s). if r < 0 then andthen (freevm kend d s) (\<lambda>s. Ok (0, s))
                      else copy_loop kend d pgdir (i + PGSIZE) sz s)
      else Ok (d, s))"
  by pat_completeness auto

termination
  by (relation "measure (\<lambda>(kend, d, pgdir, i, sz, s). sz - i)") auto

definition copyuvm :: "nat \<Rightarrow> nat \<Rightarrow> nat \<Rightarrow> nat \<Rightarrow> 'a kmem_state_scheme \<Rightarrow>
    (nat \<times> 'a kmem_state_scheme) outcome" where
  "copyuvm kend kdata pgdir sz s =
     andthen (setupkvm kdata s) (\<lambda>(d, s).
       if d = 0 then Ok (0, s) else copy_loop kend d pgdir 0 sz s)"

definition uva2ka :: "nat \<Rightarrow> nat \<Rightarrow> 'a kmem_state_scheme \<Rightarrow> nat outcome" where
  "uva2ka pgdir uva s =
     (let pte = fst (walkpgdir pgdir uva False s) in
      if pte = 0 then Undef
      else if ld32 (k_mem s) pte AND PTE_P = 0 then Ok 0
      else if ld32 (k_mem s) pte AND PTE_U = 0 then Ok 0
      else Ok (p2v (PTE_ADDR (ld32 (k_mem s) pte))))"

lemma PGROUNDDOWN_gap: "va - PGROUNDDOWN va < PGSIZE" if "va < 4294967296"
  unfolding PGROUNDDOWN_eq [OF that] by (simp add: minus_div_mult_eq_mod)

text \<open>A user address is a uint; the guard on \<open>va\<close> says so.\<close>

function copyout :: "nat \<Rightarrow> nat \<Rightarrow> nat \<Rightarrow> nat \<Rightarrow> 'a kmem_state_scheme \<Rightarrow>
    (int \<times> 'a kmem_state_scheme) outcome" where
  "copyout pgdir va p len s =
     (if 0 < len \<and> va < 4294967296 then
        let va0 = PGROUNDDOWN va in
        andthen (uva2ka pgdir va0 s) (\<lambda>pa0.
          if pa0 = 0 then Ok (-1, s)
          else let n = (if PGSIZE - (va - va0) > len then len else PGSIZE - (va - va0))
            in copyout pgdir (w32 (va0 + PGSIZE)) (p + n) (len - n)
                 (s\<lparr>k_mem := memmove (k_mem s) (pa0 + (va - va0)) p n\<rparr>))
      else Ok (0, s))"
  by pat_completeness auto

termination
  by (relation "measure (\<lambda>(pgdir, va, p, len, s). len)") (auto dest: PGROUNDDOWN_gap)

declare alloc_loop.simps [simp del]
declare copy_loop.simps [simp del]
declare copyout.simps [simp del]

end
