(* ===== verification/Xv6_Vm_Props.thy ===== *)
theory Xv6_Vm_Props
  imports Xv6_Vm
begin

text \<open>
  What page tables promise: \<open>mapping\<close> is the walk the processor does, \<open>pt_ok\<close> says that
  the table pages are allocated and not shared. Mapping pages changes the translation of
  exactly those pages, and copying out to user memory writes only pages the user may access.
\<close>

unbundle bit_operations_syntax

section \<open>Bits of addresses and entries\<close>

lemma PDX_eq: "va < 4294967296 \<Longrightarrow> PDX va = va div 4194304"
proof -
  assume "va < 4294967296"
  then have "va div 4194304 < 1024" by (simp add: less_mult_imp_div_less)
  moreover have "PDX va = take_bit 10 (drop_bit 22 va)"
    unfolding PDX_def take_bit_eq_mask by (simp add: mask_eq_exp_minus_1)
  ultimately show ?thesis by (simp add: drop_bit_eq_div take_bit_eq_mod)
qed

lemma PTX_eq: "PTX va = va div PGSIZE mod 1024"
proof -
  have "PTX va = take_bit 10 (drop_bit 12 va)"
    unfolding PTX_def take_bit_eq_mask by (simp add: mask_eq_exp_minus_1)
  then show ?thesis by (simp add: drop_bit_eq_div take_bit_eq_mod)
qed

lemma PDX_less: "va < 4294967296 \<Longrightarrow> PDX va < NPDENTRIES"
  by (simp add: PDX_eq less_mult_imp_div_less)

lemma PTX_less [simp]: "PTX va < NPTENTRIES"
  by (simp add: PTX_eq)

lemma PDX_PTX_page:
  assumes "v < 4294967296" and "a < 4294967296"
  shows "PDX v = PDX a \<and> PTX v = PTX a \<longleftrightarrow> v div PGSIZE = a div PGSIZE"
proof -
  have d: "x div 4194304 = x div PGSIZE div 1024" for x :: nat by (simp add: div_mult2_eq [symmetric])
  have "x = 1024 * (x div 1024) + x mod 1024" for x :: nat by simp
  then show ?thesis unfolding PDX_eq [OF assms(1)] PDX_eq [OF assms(2)] PTX_eq d by metis
qed

lemma bit_aligned: "q mod PGSIZE = 0 \<Longrightarrow> bit q i \<Longrightarrow> 12 \<le> i" for q :: nat
proof (rule ccontr)
  assume q: "q mod PGSIZE = 0" "bit q i" "\<not> 12 \<le> i"
  then have "bit (take_bit 12 q) i" by (simp add: bit_take_bit_iff)
  then show False using q(1) by (simp add: take_bit_eq_mod)
qed

lemma bit_small: "f < PGSIZE \<Longrightarrow> bit f i \<Longrightarrow> i < 12" for f :: nat
proof -
  assume f: "f < PGSIZE" "bit f i"
  then have "take_bit 12 f = f" by (simp add: take_bit_nat_eq_self_iff)
  then show ?thesis using f(2) bit_take_bit_iff [of 12 f i] by simp
qed

lemma bit_word32: "n < 4294967296 \<Longrightarrow> bit n i \<Longrightarrow> i < 32" for n :: nat
proof -
  assume n: "n < 4294967296" "bit n i"
  then have "take_bit 32 n = n" by (simp add: take_bit_nat_eq_self_iff)
  then show ?thesis using n(2) bit_take_bit_iff [of 32 n i] by simp
qed

lemma PTE_ADDR_entry:
  assumes "q mod PGSIZE = 0" and "q < 4294967296" and "f < PGSIZE"
  shows "PTE_ADDR (q OR f) = q"
proof (rule bit_eqI)
  fix i
  show "bit (PTE_ADDR (q OR f)) i = bit q i"
    using bit_aligned [OF assms(1), of i] bit_word32 [OF assms(2), of i] bit_small [OF assms(3), of i]
    by (auto simp: PTE_ADDR_def bit_and_iff bit_or_iff bit_page_mask)
qed

lemma flag_entry:
  assumes "q mod PGSIZE = 0" and "f < PGSIZE" and "g < PGSIZE"
  shows "(q OR f) AND g = f AND g"
proof (rule bit_eqI)
  fix i
  show "bit ((q OR f) AND g) i = bit (f AND g) i"
    using bit_aligned [OF assms(1), of i] bit_small [OF assms(3), of i]
    by (auto simp: bit_and_iff bit_or_iff)
qed

lemma entry_less:
  assumes "q < 4294967296" and "f < 4294967296"
  shows "q OR f < (4294967296 :: nat)"
proof -
  have "take_bit 32 q = q" "take_bit 32 f = f" using assms by (simp_all add: take_bit_nat_eq_self_iff)
  then have "take_bit 32 (q OR f) = q OR f" by (simp only: take_bit_or)
  then have "q OR f < 2 ^ 32" by (simp only: take_bit_nat_eq_self_iff)
  then show ?thesis by simp
qed

section \<open>The translation and the shape of a table\<close>

definition pde_at :: "mem \<Rightarrow> nat \<Rightarrow> nat \<Rightarrow> nat" where
  "pde_at m pgdir i = ld32 m (pgdir + 4 * i)"

definition has_table :: "mem \<Rightarrow> nat \<Rightarrow> nat \<Rightarrow> bool" where
  "has_table m pgdir i \<longleftrightarrow> pde_at m pgdir i AND PTE_P \<noteq> 0"

definition table :: "mem \<Rightarrow> nat \<Rightarrow> nat \<Rightarrow> nat" where
  "table m pgdir i = p2v (PTE_ADDR (pde_at m pgdir i))"

text \<open>The entry that translates \<open>va\<close>, if it is present.\<close>

definition mapping :: "mem \<Rightarrow> nat \<Rightarrow> nat \<Rightarrow> nat option" where
  "mapping m pgdir va =
     (if has_table m pgdir (PDX va) then
        let pte = ld32 m (table m pgdir (PDX va) + 4 * PTX va)
        in if pte AND PTE_P \<noteq> 0 then Some pte else None
      else None)"

definition pt_ok :: "nat \<Rightarrow> 'a kmem_state_scheme \<Rightarrow> nat set \<Rightarrow> nat \<Rightarrow> bool" where
  "pt_ok kend s F pgdir \<longleftrightarrow> kmem_pool kend s F \<and> kpage_ok kend pgdir \<and> pgdir \<notin> F \<and>
     (\<forall>i<NPDENTRIES. has_table (k_mem s) pgdir i \<longrightarrow>
        kpage_ok kend (table (k_mem s) pgdir i) \<and> table (k_mem s) pgdir i \<notin> F \<and>
        table (k_mem s) pgdir i \<noteq> pgdir) \<and>
     inj_on (table (k_mem s) pgdir) {i. i < NPDENTRIES \<and> has_table (k_mem s) pgdir i}"

text \<open>Words of distinct pages, and distinct words of one page, do not overlap.\<close>

lemma page_words:
  assumes "kpage_ok kend p" and "kpage_ok kend q" and "i < 1024" and "j < 1024" and "p \<noteq> q \<or> i \<noteq> j"
  shows "p + 4 * i + 4 \<le> q + 4 * j \<or> q + 4 * j + 4 \<le> p + 4 * i"
proof (cases "p = q")
  case True
  then show ?thesis using assms(5) by auto
next
  case False
  then have "p + PGSIZE \<le> q \<or> q + PGSIZE \<le> p"
    using assms(1,2) by (intro pages_disjoint) (auto simp: kpage_ok_def)
  then show ?thesis using assms(3,4) by auto
qed

lemma ld32_st32_other: "a + 4 \<le> b \<or> b + 4 \<le> a \<Longrightarrow> ld32 (st32 m a v) b = ld32 m b"
  by (rule ld32_cong) (auto simp: st32_other)

lemma word_in_page: "i < 1024 \<Longrightarrow> k < 4 \<Longrightarrow> p + 4 * i + k \<in> page_range p"
  by simp

lemma p2v_v2p: "kpage_ok kend p \<Longrightarrow> p2v (v2p p) = p"
  using v2p_kernel [of p] by (auto simp: kpage_ok_def p2v_def)

lemma v2p_page: "kpage_ok kend p \<Longrightarrow> v2p p mod PGSIZE = 0 \<and> v2p p < PHYSTOP"
proof -
  assume p: "kpage_ok kend p"
  then have "v2p p = p - KERNBASE" by (intro v2p_kernel) (auto simp: kpage_ok_def)
  moreover have "(p - KERNBASE) mod PGSIZE = 0"
    using p by (auto simp: kpage_ok_def mod_eq_0_iff_dvd intro!: dvd_diff_nat)
  ultimately show ?thesis using p by (auto simp: kpage_ok_def)
qed

text \<open>The entry for a new table page.\<close>

lemma table_entry:
  assumes "kpage_ok kend p"
  shows "(v2p p OR PTE_P OR PTE_W OR PTE_U) AND PTE_P \<noteq> 0"
    and "p2v (PTE_ADDR (v2p p OR PTE_P OR PTE_W OR PTE_U)) = p"
    and "v2p p OR PTE_P OR PTE_W OR PTE_U < 4294967296"
proof -
  have f: "PTE_P OR PTE_W OR PTE_U = 7" by (simp add: or_nat_unfold)
  show "(v2p p OR PTE_P OR PTE_W OR PTE_U) AND PTE_P \<noteq> 0"
    using v2p_page [OF assms] flag_entry [of "v2p p" 7 1] unfolding f by (simp add: and_nat_unfold)
  show "p2v (PTE_ADDR (v2p p OR PTE_P OR PTE_W OR PTE_U)) = p"
    using v2p_page [OF assms] PTE_ADDR_entry [of "v2p p" 7] p2v_v2p [OF assms] unfolding f by simp
  show "v2p p OR PTE_P OR PTE_W OR PTE_U < 4294967296"
    using v2p_page [OF assms] unfolding f by (intro entry_less) auto
qed

section \<open>Writing table pages\<close>

lemma ld32_outside:
  assumes "\<And>a. a \<notin> page_range p \<Longrightarrow> m' a = m a" and "kpage_ok kend p" and "kpage_ok kend q" and "q \<noteq> p"
    and "j < 1024"
  shows "ld32 m' (q + 4 * j) = ld32 m (q + 4 * j)"
proof (rule ld32_cong)
  fix i :: nat
  assume "i < 4"
  moreover have "p + PGSIZE \<le> q \<or> q + PGSIZE \<le> p"
    using assms(2-4) by (intro pages_disjoint) (auto simp: kpage_ok_def)
  ultimately show "m' (q + 4 * j + i) = m (q + 4 * j + i)" using assms(5) by (intro assms(1)) auto
qed

lemma ld32_memset: "j < 1024 \<Longrightarrow> ld32 (memset m p 0 PGSIZE) (p + 4 * j) = 0"
  by (simp add: ld32_def memset_eq)

text \<open>A table is well formed with respect to its directory entries and the pool only.\<close>

lemma pt_ok_cong:
  assumes "pt_ok kend s F pgdir" and "kmem_pool kend s' F"
    and "\<And>i. i < NPDENTRIES \<Longrightarrow> pde_at (k_mem s') pgdir i = pde_at (k_mem s) pgdir i"
  shows "pt_ok kend s' F pgdir"
proof -
  have h: "has_table (k_mem s') pgdir i = has_table (k_mem s) pgdir i"
    and t: "table (k_mem s') pgdir i = table (k_mem s) pgdir i" if "i < NPDENTRIES" for i
    using assms(3) [OF that] by (simp_all add: has_table_def table_def)
  have "{i. i < NPDENTRIES \<and> has_table (k_mem s') pgdir i} = {i. i < NPDENTRIES \<and> has_table (k_mem s) pgdir i}"
    using h by auto
  moreover have "inj_on (table (k_mem s') pgdir) {i. i < NPDENTRIES \<and> has_table (k_mem s) pgdir i} =
      inj_on (table (k_mem s) pgdir) {i. i < NPDENTRIES \<and> has_table (k_mem s) pgdir i}"
    using t by (intro inj_on_cong) auto
  ultimately show ?thesis
    using assms(1,2) h t by (simp add: pt_ok_def)
qed

lemma pt_okD:
  assumes "pt_ok kend s F pgdir"
  shows "kmem_pool kend s F" "kpage_ok kend pgdir" "pgdir \<notin> F"
    and "i < NPDENTRIES \<Longrightarrow> has_table (k_mem s) pgdir i \<Longrightarrow>
      kpage_ok kend (table (k_mem s) pgdir i) \<and> table (k_mem s) pgdir i \<notin> F \<and> table (k_mem s) pgdir i \<noteq> pgdir"
  using assms by (auto simp: pt_ok_def)

lemma table_inj:
  "pt_ok kend s F pgdir \<Longrightarrow> i < NPDENTRIES \<Longrightarrow> j < NPDENTRIES \<Longrightarrow> has_table (k_mem s) pgdir i \<Longrightarrow>
   has_table (k_mem s) pgdir j \<Longrightarrow> table (k_mem s) pgdir i = table (k_mem s) pgdir j \<Longrightarrow> i = j"
  by (auto simp: pt_ok_def inj_on_def)

text \<open>Changing one entry changes the translation of one page.\<close>

lemma write_entry:
  assumes ok: "pt_ok kend s F pgdir" and va: "va < 4294967296"
    and tab: "has_table (k_mem s) pgdir (PDX va)" and e: "e < 4294967296"
  defines "s' \<equiv> s\<lparr>k_mem := st32 (k_mem s) (table (k_mem s) pgdir (PDX va) + 4 * PTX va) e\<rparr>"
  shows "pt_ok kend s' F pgdir"
    and "v < 4294967296 \<Longrightarrow> mapping (k_mem s') pgdir v =
      (if v div PGSIZE = va div PGSIZE then (if e AND PTE_P \<noteq> 0 then Some e else None)
       else mapping (k_mem s) pgdir v)"
proof -
  let ?t = "table (k_mem s) pgdir (PDX va)"
  note t = pt_okD(4) [OF ok PDX_less [OF va] tab]
  have pde: "pde_at (k_mem s') pgdir i = pde_at (k_mem s) pgdir i" if "i < NPDENTRIES" for i
    using page_words [of kend ?t pgdir "PTX va" i] t pt_okD(2) [OF ok] that
    by (simp add: s'_def pde_at_def ld32_st32_other)
  have "kmem_pool kend s' F"
    unfolding s'_def
  proof (rule kmem_pool_write [OF pt_okD(1) [OF ok]])
    fix p a
    assume p: "p \<in> F" "a \<in> page_range p"
    have "?t + PGSIZE \<le> p \<or> p + PGSIZE \<le> ?t"
      using t p(1) kp.pool_pages [OF pt_okD(1) [OF ok] p(1)] by (intro pages_disjoint) (auto simp: kpage_ok_def)
    moreover have "PTX va < 1024" "p \<le> a" "a < p + PGSIZE" using p(2) by auto
    ultimately have "a < ?t + 4 * PTX va \<or> ?t + 4 * PTX va + 4 \<le> a" by linarith
    then show "st32 (k_mem s) (?t + 4 * PTX va) e a = k_mem s a" by (rule st32_other)
  qed
  then show "pt_ok kend s' F pgdir" by (rule pt_ok_cong [OF ok _ pde])
  assume v: "v < 4294967296"
  have same: "has_table (k_mem s') pgdir (PDX v) = has_table (k_mem s) pgdir (PDX v)"
    "table (k_mem s') pgdir (PDX v) = table (k_mem s) pgdir (PDX v)"
    using pde [OF PDX_less [OF v]] by (simp_all add: has_table_def table_def)
  show "mapping (k_mem s') pgdir v = (if v div PGSIZE = va div PGSIZE
      then (if e AND PTE_P \<noteq> 0 then Some e else None) else mapping (k_mem s) pgdir v)"
  proof (cases "v div PGSIZE = va div PGSIZE")
    case True
    then have "PDX v = PDX va" "PTX v = PTX va" using PDX_PTX_page [OF v va] by auto
    then show ?thesis using True same tab e by (simp add: mapping_def) (simp add: s'_def)
  next
    case False
    show ?thesis
    proof (cases "has_table (k_mem s) pgdir (PDX v)")
      case True
      have "table (k_mem s) pgdir (PDX v) \<noteq> ?t \<or> PTX v \<noteq> PTX va"
        using table_inj [OF ok PDX_less [OF v] PDX_less [OF va] True tab] False PDX_PTX_page [OF v va] by auto
      then have "ld32 (k_mem s') (table (k_mem s) pgdir (PDX v) + 4 * PTX v) =
          ld32 (k_mem s) (table (k_mem s) pgdir (PDX v) + 4 * PTX v)"
        using page_words [of kend ?t "table (k_mem s) pgdir (PDX v)" "PTX va" "PTX v"] t
          pt_okD(4) [OF ok PDX_less [OF v] True]
        by (auto simp: s'_def intro!: ld32_st32_other)
      then show ?thesis using False same by (simp add: mapping_def)
    qed (use False same in \<open>simp add: mapping_def\<close>)
  qed
qed

section \<open>Walking and mapping\<close>

lemma walk_present:
  "has_table (k_mem s) pgdir (PDX va) \<Longrightarrow>
   walkpgdir pgdir va alloc s = (table (k_mem s) pgdir (PDX va) + 4 * PTX va, s)"
  by (simp add: walkpgdir_def has_table_def table_def pde_at_def)

lemma walk_absent:
  "\<not> has_table (k_mem s) pgdir (PDX va) \<Longrightarrow> walkpgdir pgdir va False s = (0, s)"
  by (simp add: walkpgdir_def has_table_def pde_at_def)

text \<open>A fresh page, zeroed and entered into the directory: an empty table.\<close>

lemma enter_table:
  assumes ok: "pt_ok kend s F pgdir" and i: "i < NPDENTRIES" and no: "\<not> has_table (k_mem s) pgdir i"
    and p: "p \<in> F" and s1: "kmem_pool kend s1 (F - {p})" "k_mem s1 = k_mem s"
  defines "m \<equiv> st32 (memset (k_mem s) p 0 PGSIZE) (pgdir + 4 * i) (v2p p OR PTE_P OR PTE_W OR PTE_U)"
  shows "pt_ok kend (s1\<lparr>k_mem := m\<rparr>) (F - {p}) pgdir"
    and "has_table m pgdir i" "table m pgdir i = p"
    and "v < 4294967296 \<Longrightarrow> mapping m pgdir v = mapping (k_mem s) pgdir v"
proof -
  have pp: "kpage_ok kend p" "p \<noteq> pgdir"
    using kp.pool_pages [OF pt_okD(1) [OF ok] p] pt_okD(3) [OF ok] p by auto
  have mset: "memset (k_mem s) p 0 PGSIZE a = k_mem s a" if "a \<notin> page_range p" for a
    using that by (auto simp: memset_eq)
  have out: "ld32 m (q + 4 * j) = ld32 (memset (k_mem s) p 0 PGSIZE) (q + 4 * j)"
    if "kpage_ok kend q" "j < 1024" "q \<noteq> pgdir \<or> j \<noteq> i" for q j
    unfolding m_def
    by (rule ld32_st32_other, rule page_words [OF pt_okD(2) [OF ok] that(1) i that(2)]) (use that(3) in auto)
  have other: "ld32 m (q + 4 * j) = ld32 (k_mem s) (q + 4 * j)"
    if "kpage_ok kend q" "q \<noteq> p" "j < 1024" "q \<noteq> pgdir \<or> j \<noteq> i" for q j
    using out [OF that(1,3,4)] ld32_outside [OF mset pp(1) that(1,2,3)] by simp
  have pde: "pde_at m pgdir j = (if j = i then v2p p OR PTE_P OR PTE_W OR PTE_U else pde_at (k_mem s) pgdir j)"
    if "j < NPDENTRIES" for j
    using other [of pgdir j] pt_okD(2) [OF ok] pp that table_entry(3) [OF pp(1)]
    by (auto simp: pde_at_def m_def)
  then show h: "has_table m pgdir i" and t: "table m pgdir i = p"
    using i table_entry [OF pp(1)] by (simp_all add: has_table_def table_def)
  have eq: "has_table m pgdir j = has_table (k_mem s) pgdir j" "table m pgdir j = table (k_mem s) pgdir j"
    if "j < NPDENTRIES" "j \<noteq> i" for j
    using pde [OF that(1)] that(2) by (simp_all add: has_table_def table_def)
  have pool: "kmem_pool kend (s1\<lparr>k_mem := m\<rparr>) (F - {p})"
  proof (rule kmem_pool_write [OF s1(1)])
    fix q a
    assume q: "q \<in> F - {p}" "a \<in> page_range q"
    have qk: "kpage_ok kend q" "q \<noteq> pgdir"
      using kp.pool_pages [OF pt_okD(1) [OF ok], of q] q pt_okD(3) [OF ok] by auto
    have "q + PGSIZE \<le> pgdir \<or> pgdir + PGSIZE \<le> q" "q + PGSIZE \<le> p \<or> p + PGSIZE \<le> q"
      using pages_disjoint [of q pgdir] pages_disjoint [of q p] qk pp pt_okD(2) [OF ok] q(1)
      by (auto simp: kpage_ok_def)
    then have "a \<notin> page_range p" "a < pgdir + 4 * i \<or> pgdir + 4 * i + 4 \<le> a" using q(2) i by auto
    then show "m a = k_mem s1 a" by (simp add: m_def st32_other mset s1(2) del: page_range_iff)
  qed
  have "inj_on (table m pgdir) {j. j < NPDENTRIES \<and> has_table m pgdir j}"
  proof (rule inj_onI)
    fix j k
    assume j: "j \<in> {j. j < NPDENTRIES \<and> has_table m pgdir j}" and k: "k \<in> {j. j < NPDENTRIES \<and> has_table m pgdir j}"
      and jk: "table m pgdir j = table m pgdir k"
    have "table (k_mem s) pgdir x \<noteq> p" if "x < NPDENTRIES" "has_table m pgdir x" "x \<noteq> i" for x
      using pt_okD(4) [OF ok that(1)] eq that p by auto
    then show "j = k" using j k jk t eq table_inj [OF ok, of j k] by (metis mem_Collect_eq)
  qed
  then show "pt_ok kend (s1\<lparr>k_mem := m\<rparr>) (F - {p}) pgdir"
    unfolding pt_ok_def using pool pt_okD(2,3) [OF ok] pt_okD(4) [OF ok] eq t pp by (auto; metis)
  assume v: "v < 4294967296"
  show "mapping m pgdir v = mapping (k_mem s) pgdir v"
  proof (cases "PDX v = i")
    case True
    have "ld32 m (p + 4 * PTX v) = 0" using out [OF pp(1), of "PTX v"] pp(2) by (simp add: ld32_memset)
    then show ?thesis using True h t no by (simp add: mapping_def)
  next
    case False
    show ?thesis
    proof (cases "has_table (k_mem s) pgdir (PDX v)")
      case True
      note t' = pt_okD(4) [OF ok PDX_less [OF v] True]
      have "ld32 m (table (k_mem s) pgdir (PDX v) + 4 * PTX v) = ld32 (k_mem s) (table (k_mem s) pgdir (PDX v) + 4 * PTX v)"
        using t' p by (intro other) auto
      then show ?thesis using eq [OF PDX_less [OF v] False] by (simp add: mapping_def)
    qed (use eq [OF PDX_less [OF v] False] in \<open>simp add: mapping_def\<close>)
  qed
qed

lemma walk_alloc:
  assumes ok: "pt_ok kend s F pgdir" and va: "va < 4294967296"
  shows "\<exists>s' F'. F' \<subseteq> F \<and> pt_ok kend s' F' pgdir \<and>
    (\<forall>v<4294967296. mapping (k_mem s') pgdir v = mapping (k_mem s) pgdir v) \<and>
    (walkpgdir pgdir va True s = (0, s') \<and> F = {} \<or>
     walkpgdir pgdir va True s = (table (k_mem s') pgdir (PDX va) + 4 * PTX va, s') \<and>
     has_table (k_mem s') pgdir (PDX va))"
proof (cases "has_table (k_mem s) pgdir (PDX va)")
  case True
  then show ?thesis using ok walk_present [OF True] by blast
next
  case no: False
  show ?thesis
  proof (cases "F = {}")
    case True
    then have "kalloc s = (0, s)" using kp.alloc_empty pt_okD(1) [OF ok] by blast
    then have "walkpgdir pgdir va True s = (0, s)"
      using no by (simp add: walkpgdir_def has_table_def pde_at_def)
    then show ?thesis using ok True by blast
  next
    case False
    obtain p s1 where a: "kalloc s = (p, s1)" "p \<in> F" "kmem_pool kend s1 (F - {p})" "k_mem s1 = k_mem s"
      using kp.alloc_page [OF pt_okD(1) [OF ok] False] by blast
    note e = enter_table [OF ok PDX_less [OF va] no a(2,3,4)]
    let ?m = "st32 (memset (k_mem s) p 0 PGSIZE) (pgdir + 4 * PDX va) (v2p p OR PTE_P OR PTE_W OR PTE_U)"
    have "p \<noteq> 0" using kp.pool_pages [OF pt_okD(1) [OF ok] a(2)] by blast
    then have "walkpgdir pgdir va True s = (p + 4 * PTX va, s1\<lparr>k_mem := ?m\<rparr>)"
      using no a(1,4) by (simp add: walkpgdir_def has_table_def pde_at_def Let_def)
    then show ?thesis
      using e by (intro exI [of _ "s1\<lparr>k_mem := ?m\<rparr>"] exI [of _ "F - {p}"]) simp
  qed
qed

lemma present_entry: "(x OR PTE_P) AND PTE_P \<noteq> 0" for x :: nat
proof -
  have "bit ((x OR PTE_P) AND PTE_P) 0" by (simp add: bit_and_iff bit_or_iff bit_1_iff)
  then show ?thesis by (metis bit_0_eq bot_apply bot_bool_def)
qed

text \<open>What mapping the pages from \<open>a\<close> to \<open>lst\<close> makes of the translation.\<close>

definition mapped :: "nat \<Rightarrow> nat \<Rightarrow> nat \<Rightarrow> nat \<Rightarrow> (nat \<Rightarrow> nat option) \<Rightarrow> nat \<Rightarrow> nat option" where
  "mapped a lst pa perm t v =
     (if a div PGSIZE \<le> v div PGSIZE \<and> v div PGSIZE \<le> lst div PGSIZE
      then Some ((pa + PGSIZE * (v div PGSIZE - a div PGSIZE)) OR perm OR PTE_P) else t v)"

lemma mapped_step:
  assumes "\<And>v. v < 4294967296 \<Longrightarrow> t' v =
      (if v div PGSIZE = a div PGSIZE then Some (pa OR perm OR PTE_P) else t v)"
    and "v < 4294967296" and "a \<le> lst"
  shows "mapped (a + PGSIZE) lst (pa + PGSIZE) perm t' v = mapped a lst pa perm t v"
proof -
  have "(a + PGSIZE) div PGSIZE = a div PGSIZE + 1" by (simp add: One_nat_def)
  moreover have "a div PGSIZE \<le> lst div PGSIZE" using assms(3) by (rule div_le_mono)
  ultimately show ?thesis
    using assms(1) [OF assms(2)] by (auto simp: mapped_def Suc_diff_Suc algebra_simps dest!: le_neq_implies_less)
qed

lemma mappages_loop_law:
  assumes "pt_ok kend s F pgdir" and "a mod PGSIZE = 0" and "a + PGSIZE * k < 4294967296"
    and "pa + PGSIZE * k < 4294967296" and "perm < PGSIZE" and "k < n"
    and "\<And>v. v < 4294967296 \<Longrightarrow> a div PGSIZE \<le> v div PGSIZE \<Longrightarrow> v div PGSIZE \<le> a div PGSIZE + k \<Longrightarrow>
      mapping (k_mem s) pgdir v = None"
  shows "\<exists>r s' F'. mappages_loop n pgdir a (a + PGSIZE * k) pa perm s = Ok (r, s') \<and> F' \<subseteq> F \<and>
    pt_ok kend s' F' pgdir \<and>
    (r = 0 \<and> (\<forall>v<4294967296. mapping (k_mem s') pgdir v =
       mapped a (a + PGSIZE * k) pa perm (mapping (k_mem s) pgdir) v) \<or> r = -1 \<and> F' = {})"
  using assms
proof (induction n arbitrary: a k pa s F)
  case (Suc n)
  have a: "a < 4294967296" using Suc.prems(3) by simp
  obtain s1 F1 where w: "F1 \<subseteq> F" "pt_ok kend s1 F1 pgdir"
    "\<And>v. v < 4294967296 \<Longrightarrow> mapping (k_mem s1) pgdir v = mapping (k_mem s) pgdir v"
    and c: "walkpgdir pgdir a True s = (0, s1) \<and> F = {} \<or>
     walkpgdir pgdir a True s = (table (k_mem s1) pgdir (PDX a) + 4 * PTX a, s1) \<and>
     has_table (k_mem s1) pgdir (PDX a)"
    using walk_alloc [OF Suc.prems(1) a] by blast
  from c show ?case
  proof
    assume "walkpgdir pgdir a True s = (0, s1) \<and> F = {}"
    then show ?thesis using w by auto
  next
    let ?pte = "table (k_mem s1) pgdir (PDX a) + 4 * PTX a" and ?e = "pa OR perm OR PTE_P"
    assume h: "walkpgdir pgdir a True s = (?pte, s1) \<and> has_table (k_mem s1) pgdir (PDX a)"
    define s2 where "s2 = s1\<lparr>k_mem := st32 (k_mem s1) ?pte ?e\<rparr>"
    have e: "?e < 4294967296" using Suc.prems(4,5) by (intro entry_less) auto
    have p: "?e AND PTE_P \<noteq> 0" using present_entry [of "pa OR perm"] unfolding or.assoc .
    have ok2: "pt_ok kend s2 F1 pgdir"
      unfolding s2_def by (rule write_entry(1) [OF w(2) a conjunct2 [OF h] e])
    have m2: "mapping (k_mem s2) pgdir v =
        (if v div PGSIZE = a div PGSIZE then Some ?e else mapping (k_mem s) pgdir v)" if "v < 4294967296" for v
      using write_entry(2) [OF w(2) a conjunct2 [OF h] e that] w(3) p that by (simp add: s2_def)
    have "mapping (k_mem s1) pgdir a = None" using w(3) [OF a] Suc.prems(7) [OF a] by simp
    then have np: "ld32 (k_mem s1) ?pte AND PTE_P = 0"
      using h by (simp add: mapping_def Let_def split: if_splits)
    have nz: "?pte \<noteq> 0"
      using pt_okD(4) [OF w(2) PDX_less [OF a]] h kpage_ok_bound by fastforce
    show ?thesis
    proof (cases k)
      case 0
      then have "mappages_loop (Suc n) pgdir a (a + PGSIZE * k) pa perm s = Ok (0, s2)"
        using h np nz by (simp add: s2_def)
      moreover have "mapping (k_mem s2) pgdir v = mapped a a pa perm (mapping (k_mem s) pgdir) v"
        if "v < 4294967296" for v using m2 [OF that] by (auto simp: mapped_def)
      ultimately show ?thesis using ok2 w(1) 0 a by auto
    next
      case (Suc k')
      have l: "a + PGSIZE * k = (a + PGSIZE) + PGSIZE * k'" using Suc by simp
      have st: "mappages_loop (Suc n) pgdir a (a + PGSIZE * k) pa perm s =
          mappages_loop n pgdir (a + PGSIZE) (a + PGSIZE + PGSIZE * k') (pa + PGSIZE) perm s2"
        using h np nz Suc Suc.prems(3,4) by (auto simp: s2_def add.assoc)
      have d: "(a + PGSIZE) div PGSIZE = a div PGSIZE + 1" by (simp add: One_nat_def)
      have none: "mapping (k_mem s2) pgdir v = None" if "v < 4294967296"
        "(a + PGSIZE) div PGSIZE \<le> v div PGSIZE" "v div PGSIZE \<le> (a + PGSIZE) div PGSIZE + k'" for v
        using m2 [OF that(1)] Suc.prems(7) [OF that(1)] that(2,3) Suc unfolding d by simp
      have pre: "(a + PGSIZE) mod PGSIZE = 0" "a + PGSIZE + PGSIZE * k' < 4294967296"
        "pa + PGSIZE + PGSIZE * k' < 4294967296" "k' < n"
        using Suc.prems(2,3,4,6) Suc by auto
      from Suc.IH [OF ok2 pre(1-3) Suc.prems(5) pre(4) none] obtain r s' F' where r:
        "mappages_loop n pgdir (a + PGSIZE) (a + PGSIZE + PGSIZE * k') (pa + PGSIZE) perm s2 = Ok (r, s')"
        "F' \<subseteq> F1" "pt_ok kend s' F' pgdir"
        "r = 0 \<and> (\<forall>v<4294967296. mapping (k_mem s') pgdir v =
           mapped (a + PGSIZE) (a + PGSIZE + PGSIZE * k') (pa + PGSIZE) perm (mapping (k_mem s2) pgdir) v) \<or>
         r = -1 \<and> F' = {}"
        by blast
      have "mapped (a + PGSIZE) (a + PGSIZE + PGSIZE * k') (pa + PGSIZE) perm (mapping (k_mem s2) pgdir) v =
          mapped a (a + PGSIZE * k) pa perm (mapping (k_mem s) pgdir) v" if "v < 4294967296" for v
        unfolding l by (rule mapped_step [OF m2 that]) auto
      then show ?thesis
        unfolding st using r w(1) by (intro exI [of _ r] exI [of _ s'] exI [of _ F']) auto
    qed
  qed
qed simp

end
