(* ===== verification/Xv6_Vm_Correct.thy ===== *)
theory Xv6_Vm_Correct
  imports Xv6_Vm_Props
begin

text \<open>The properties of page tables: mapping pages and copying out to user memory.\<close>

unbundle bit_operations_syntax

section \<open>Reaching user memory\<close>

text \<open>The kernel address of the page behind a user address, if the user may access it.\<close>

definition user_frame :: "mem \<Rightarrow> nat \<Rightarrow> nat \<Rightarrow> nat option" where
  "user_frame m pgdir v =
     (case mapping m pgdir v of None \<Rightarrow> None
      | Some pte \<Rightarrow> if pte AND PTE_U \<noteq> 0 then Some (p2v (PTE_ADDR pte)) else None)"

text \<open>A user page that is none of the table pages and not free.\<close>

definition plain_frame :: "nat \<Rightarrow> 'a kmem_state_scheme \<Rightarrow> nat set \<Rightarrow> nat \<Rightarrow> nat \<Rightarrow> bool" where
  "plain_frame kend s F pgdir f \<longleftrightarrow> kpage_ok kend f \<and> f \<noteq> pgdir \<and> f \<notin> F \<and>
     (\<forall>i<NPDENTRIES. has_table (k_mem s) pgdir i \<longrightarrow> table (k_mem s) pgdir i \<noteq> f)"

lemma uva2ka_frame:
  assumes ok: "pt_ok kend s F pgdir" and v: "v < 4294967296" and f: "user_frame (k_mem s) pgdir v = Some f"
  shows "uva2ka pgdir v s = Ok f"
proof -
  have h: "has_table (k_mem s) pgdir (PDX v)"
    using f by (auto simp: user_frame_def mapping_def split: option.splits if_splits)
  have "table (k_mem s) pgdir (PDX v) + 4 * PTX v \<noteq> 0"
    using pt_okD(4) [OF ok PDX_less [OF v] h] kpage_ok_bound by fastforce
  then show ?thesis
    using f h by (auto simp: uva2ka_def walk_present [OF h] user_frame_def mapping_def Let_def split: if_splits)
qed

text \<open>Writing a plain page leaves the table and the pool as they are.\<close>

lemma write_frame:
  assumes ok: "pt_ok kend s F pgdir" and f: "plain_frame kend s F pgdir f"
    and m: "\<And>a. a \<notin> page_range f \<Longrightarrow> m a = k_mem s a"
  shows "pt_ok kend (s\<lparr>k_mem := m\<rparr>) F pgdir"
    and "i < NPDENTRIES \<Longrightarrow> pde_at m pgdir i = pde_at (k_mem s) pgdir i"
    and "v < 4294967296 \<Longrightarrow> mapping m pgdir v = mapping (k_mem s) pgdir v"
proof -
  have fk: "kpage_ok kend f" "pgdir \<noteq> f" using f by (auto simp: plain_frame_def)
  have pde: "pde_at m pgdir i = pde_at (k_mem s) pgdir i" if "i < NPDENTRIES" for i
    unfolding pde_at_def by (rule ld32_outside [OF m fk(1) pt_okD(2) [OF ok] fk(2) that])
  then show "i < NPDENTRIES \<Longrightarrow> pde_at m pgdir i = pde_at (k_mem s) pgdir i" .
  have "kmem_pool kend (s\<lparr>k_mem := m\<rparr>) F"
  proof (rule kmem_pool_write [OF pt_okD(1) [OF ok]])
    fix p a
    assume p: "p \<in> F" "a \<in> page_range p"
    have "p + PGSIZE \<le> f \<or> f + PGSIZE \<le> p"
      using kp.pool_pages [OF pt_okD(1) [OF ok] p(1)] f p(1)
      by (intro pages_disjoint) (auto simp: plain_frame_def kpage_ok_def)
    then show "m a = k_mem s a" using p(2) by (intro m) auto
  qed
  then show "pt_ok kend (s\<lparr>k_mem := m\<rparr>) F pgdir" by (rule pt_ok_cong [OF ok]) (simp add: pde)
  assume v: "v < 4294967296"
  have same: "has_table m pgdir (PDX v) = has_table (k_mem s) pgdir (PDX v)"
    "table m pgdir (PDX v) = table (k_mem s) pgdir (PDX v)"
    using pde [OF PDX_less [OF v]] by (simp_all add: has_table_def table_def)
  show "mapping m pgdir v = mapping (k_mem s) pgdir v"
  proof (cases "has_table (k_mem s) pgdir (PDX v)")
    case True
    have "ld32 m (table (k_mem s) pgdir (PDX v) + 4 * PTX v) =
        ld32 (k_mem s) (table (k_mem s) pgdir (PDX v) + 4 * PTX v)"
      using pt_okD(4) [OF ok PDX_less [OF v] True] f PDX_less [OF v] True
      by (intro ld32_outside [OF m fk(1)]) (auto simp: plain_frame_def)
    then show ?thesis using same by (simp add: mapping_def)
  qed (use same in \<open>simp add: mapping_def\<close>)
qed

lemma user_frame_page:
  assumes "v < 4294967296" and "w < 4294967296" and "v div PGSIZE = w div PGSIZE"
  shows "user_frame m pgdir v = user_frame m pgdir w"
  using PDX_PTX_page [OF assms(1,2)] assms(3) by (simp add: user_frame_def mapping_def)

definition user_addr :: "mem \<Rightarrow> nat \<Rightarrow> nat \<Rightarrow> nat" where
  "user_addr m pgdir v = the (user_frame m pgdir v) + v mod PGSIZE"

text \<open>
  The user may access all of \<open>va ..< va + len\<close>, different pages there are different frames, and the
  frames are neither table pages nor hold the source buffer at \<open>p\<close>.
\<close>

definition copy_ready :: "nat \<Rightarrow> 'a kmem_state_scheme \<Rightarrow> nat set \<Rightarrow> nat \<Rightarrow> nat \<Rightarrow> nat \<Rightarrow> nat \<Rightarrow> bool" where
  "copy_ready kend s F pgdir va p len \<longleftrightarrow> va + len \<le> 4294967296 \<and>
     (\<forall>v\<in>{va..<va + len}. \<exists>f. user_frame (k_mem s) pgdir v = Some f \<and> plain_frame kend s F pgdir f \<and>
        page_range f \<inter> {p..<p + len} = {}) \<and>
     (\<forall>v\<in>{va..<va + len}. \<forall>w\<in>{va..<va + len}.
        user_frame (k_mem s) pgdir v = user_frame (k_mem s) pgdir w \<longrightarrow> v div PGSIZE = w div PGSIZE)"

lemma copy_readyD:
  assumes "copy_ready kend s F pgdir va p len" and "va \<le> v" and "v < va + len"
  shows "v < 4294967296"
    and "\<exists>f. user_frame (k_mem s) pgdir v = Some f \<and> plain_frame kend s F pgdir f \<and>
        page_range f \<inter> {p..<p + len} = {}"
  using assms by (auto simp: copy_ready_def)

lemma page_div:
  assumes "(va :: nat) mod PGSIZE + i < PGSIZE"
  shows "(va + i) div PGSIZE = va div PGSIZE" and "(va + i) mod PGSIZE = va mod PGSIZE + i"
proof -
  have "va + i = PGSIZE * (va div PGSIZE) + (va mod PGSIZE + i)" by simp
  then show "(va + i) div PGSIZE = va div PGSIZE" "(va + i) mod PGSIZE = va mod PGSIZE + i"
    using assms by (metis div_mult_self4 div_less add.commute add_0 zero_neq_numeral,
      metis mod_mult_self4 mod_less)
qed

text \<open>One page of the copy.\<close>

lemma copy_page:
  assumes ok: "pt_ok kend s F pgdir" and rdy: "copy_ready kend s F pgdir va p len"
    and n: "0 < n" "n \<le> len" "va mod PGSIZE + n \<le> PGSIZE" and f: "user_frame (k_mem s) pgdir va = Some f"
  defines "m \<equiv> memmove (k_mem s) (f + va mod PGSIZE) p n"
  shows "pt_ok kend (s\<lparr>k_mem := m\<rparr>) F pgdir"
    and "v < 4294967296 \<Longrightarrow> user_frame m pgdir v = user_frame (k_mem s) pgdir v"
    and "v < 4294967296 \<Longrightarrow> mapping m pgdir v = mapping (k_mem s) pgdir v"
    and "copy_ready kend (s\<lparr>k_mem := m\<rparr>) F pgdir (va + n) (p + n) (len - n)"
    and "i < n \<Longrightarrow> user_addr (k_mem s) pgdir (va + i) = f + va mod PGSIZE + i"
    and "a \<notin> page_range f \<Longrightarrow> m a = k_mem s a"
    and "plain_frame kend s F pgdir f" and "page_range f \<inter> {p..<p + len} = {}"
proof -
  have pf: "plain_frame kend s F pgdir f" "page_range f \<inter> {p..<p + len} = {}"
    using copy_readyD(2) [OF rdy, of va] f n(1,2) by auto
  then show "plain_frame kend s F pgdir f" "page_range f \<inter> {p..<p + len} = {}" by auto
  have m: "m a = k_mem s a" if "a \<notin> page_range f" for a
    using that n(3) by (auto simp: m_def memmove_eq)
  then show "a \<notin> page_range f \<Longrightarrow> m a = k_mem s a" .
  have w2: "pde_at m pgdir j = pde_at (k_mem s) pgdir j" if "j < NPDENTRIES" for j
    by (rule write_frame(2) [OF ok pf(1) _ that]) (rule m)
  have w3: "mapping m pgdir v = mapping (k_mem s) pgdir v" if "v < 4294967296" for v
    by (rule write_frame(3) [OF ok pf(1) _ that]) (rule m)
  show "pt_ok kend (s\<lparr>k_mem := m\<rparr>) F pgdir" by (rule write_frame(1) [OF ok pf(1)]) (rule m)
  show "v < 4294967296 \<Longrightarrow> mapping m pgdir v = mapping (k_mem s) pgdir v" by (rule w3)
  have uf: "user_frame m pgdir v = user_frame (k_mem s) pgdir v" if "v < 4294967296" for v
    using w3 [OF that] by (simp add: user_frame_def)
  then show "v < 4294967296 \<Longrightarrow> user_frame m pgdir v = user_frame (k_mem s) pgdir v" .
  have pl: "plain_frame kend (s\<lparr>k_mem := m\<rparr>) F pgdir g = plain_frame kend s F pgdir g" for g
    using w2 by (simp add: plain_frame_def has_table_def table_def)
  show "copy_ready kend (s\<lparr>k_mem := m\<rparr>) F pgdir (va + n) (p + n) (len - n)"
    using rdy n(2) by (fastforce simp: copy_ready_def uf pl)
  assume i: "i < n"
  then have "user_frame (k_mem s) pgdir (va + i) = Some f"
    using f user_frame_page [of "va + i" va] page_div(1) [of va i] n copy_readyD(1) [OF rdy, of "va + i"]
      copy_readyD(1) [OF rdy, of va] by simp
  then show "user_addr (k_mem s) pgdir (va + i) = f + va mod PGSIZE + i"
    using page_div(2) [of va i] i n(3) by (simp add: user_addr_def)
qed

definition copied :: "mem \<Rightarrow> mem \<Rightarrow> nat \<Rightarrow> nat \<Rightarrow> nat \<Rightarrow> nat \<Rightarrow> bool" where
  "copied m m' pgdir va p len \<longleftrightarrow>
     (\<forall>i<len. m' (user_addr m pgdir (va + i)) = m (p + i)) \<and>
     (\<forall>a. (\<forall>i<len. a \<noteq> user_addr m pgdir (va + i)) \<longrightarrow> m' a = m a)"

text \<open>The copy of one page and the copy of the rest make the whole copy.\<close>

lemma copied_step:
  assumes ok: "pt_ok kend s F pgdir" and rdy: "copy_ready kend s F pgdir va p len"
    and n: "0 < n" "n \<le> len" "va mod PGSIZE + n \<le> PGSIZE" "n = len \<or> va mod PGSIZE + n = PGSIZE"
    and f: "user_frame (k_mem s) pgdir va = Some f"
    and c: "copied (memmove (k_mem s) (f + va mod PGSIZE) p n) m' pgdir (va + n) (p + n) (len - n)"
  shows "copied (k_mem s) m' pgdir va p len"
proof -
  let ?m = "memmove (k_mem s) (f + va mod PGSIZE) p n"
  note cp = copy_page [OF ok rdy n(1-3) f]
  have ua: "user_addr ?m pgdir (va + i) = user_addr (k_mem s) pgdir (va + i)" if "i < len" for i
    using cp(2) [of "va + i"] copy_readyD(1) [OF rdy, of "va + i"] that by (simp add: user_addr_def)
  have far: "user_addr (k_mem s) pgdir (va + j) \<notin> page_range f" if j: "n \<le> j" "j < len" for j
  proof -
    obtain g where g: "user_frame (k_mem s) pgdir (va + j) = Some g" "plain_frame kend s F pgdir g"
      using copy_readyD(2) [OF rdy, of "va + j"] j by auto
    have "va mod PGSIZE + n = PGSIZE" using n(4) j by auto
    then have "va + n = PGSIZE * (va div PGSIZE + 1)"
      using div_mult_mod_eq [of va PGSIZE] by (simp only: distrib_left mult.commute)
    then have "(va + n) div PGSIZE = va div PGSIZE + 1" by simp
    then have "va div PGSIZE < (va + j) div PGSIZE" using div_le_mono [of "va + n" "va + j" PGSIZE] j(1) by simp
    moreover have "user_frame (k_mem s) pgdir va = user_frame (k_mem s) pgdir (va + j) \<Longrightarrow>
        va div PGSIZE = (va + j) div PGSIZE"
      using rdy j unfolding copy_ready_def by simp
    ultimately have "f \<noteq> g" using f g(1) by auto
    then have "f + PGSIZE \<le> g \<or> g + PGSIZE \<le> f"
      using cp(7) g(2) by (intro pages_disjoint) (auto simp: plain_frame_def kpage_ok_def)
    moreover have "(va + j) mod PGSIZE < PGSIZE" by simp
    ultimately show ?thesis by (auto simp: user_addr_def g(1))
  qed
  have near: "?m (f + va mod PGSIZE + i) = k_mem s (p + i)" if "i < n" for i
    using that by (simp add: memmove_eq)
  show ?thesis
    unfolding copied_def
  proof (intro conjI allI impI)
    fix i
    assume i: "i < len"
    show "m' (user_addr (k_mem s) pgdir (va + i)) = k_mem s (p + i)"
    proof (cases "i < n")
      case True
      have "user_addr (k_mem s) pgdir (va + i) = f + va mod PGSIZE + i" by (rule cp(5) [OF True])
      moreover have "f + va mod PGSIZE + i \<in> page_range f" using True n(3) by simp
      then have "f + va mod PGSIZE + i \<noteq> user_addr ?m pgdir (va + n + j)" if "j < len - n" for j
      proof -
        have "n + j < len" using that by simp
        then show ?thesis
          using far [of "n + j"] ua [of "n + j"] \<open>f + va mod PGSIZE + i \<in> page_range f\<close>
          by (auto simp: add.assoc)
      qed
      then have "m' (f + va mod PGSIZE + i) = ?m (f + va mod PGSIZE + i)"
        using c by (auto simp: copied_def)
      ultimately show ?thesis using near [OF True] by simp
    next
      case False
      then have "m' (user_addr ?m pgdir (va + n + (i - n))) = ?m (p + n + (i - n))"
        using c i by (simp only: copied_def)
      moreover have "p + i \<notin> page_range f" using cp(8) i by auto
      ultimately show ?thesis using False ua [OF i] cp(6) [of "p + i"] by (simp del: page_range_iff)
    qed
  next
    fix a
    assume a: "\<forall>i<len. a \<noteq> user_addr (k_mem s) pgdir (va + i)"
    then have "a \<noteq> user_addr ?m pgdir (va + n + j)" if "j < len - n" for j
      using ua [of "n + j"] that by (auto simp: add.assoc)
    then have "m' a = ?m a" using c by (auto simp: copied_def)
    moreover have "\<not> (f + va mod PGSIZE \<le> a \<and> a < f + va mod PGSIZE + n)"
    proof
      assume r: "f + va mod PGSIZE \<le> a \<and> a < f + va mod PGSIZE + n"
      define k where "k = a - (f + va mod PGSIZE)"
      have "k < n" "f + va mod PGSIZE + k = a" using r by (auto simp: k_def)
      moreover have "a \<noteq> user_addr (k_mem s) pgdir (va + k)" using a \<open>k < n\<close> n(2) by simp
      ultimately show False using cp(5) [of k] by simp
    qed
    ultimately show "m' a = k_mem s a" by (auto simp: memmove_eq)
  qed
qed

lemma copyout_law:
  assumes "pt_ok kend s F pgdir" and "copy_ready kend s F pgdir va p len"
  shows "\<exists>s'. copyout pgdir va p len s = Ok (0, s') \<and> pt_ok kend s' F pgdir \<and>
    copied (k_mem s) (k_mem s') pgdir va p len \<and>
    (\<forall>v<4294967296. mapping (k_mem s') pgdir v = mapping (k_mem s) pgdir v)"
  using assms
proof (induction len arbitrary: va p s rule: less_induct)
  case (less len)
  show ?case
  proof (cases "len = 0")
    case True
    then show ?thesis using less.prems(1) by (subst copyout.simps) (simp add: copied_def)
  next
    case False
    have va: "va < 4294967296" using copy_readyD(1) [OF less.prems(2), of va] False by simp
    obtain f where f: "user_frame (k_mem s) pgdir va = Some f"
      and pf: "plain_frame kend s F pgdir f" using copy_readyD(2) [OF less.prems(2), of va] False by auto
    define va0 where "va0 = va div PGSIZE * PGSIZE"
    have va0: "PGROUNDDOWN va = va0" "va - va0 = va mod PGSIZE" "va0 < 4294967296" "va0 div PGSIZE = va div PGSIZE"
      using PGROUNDDOWN_eq [OF va] va div_mult_mod_eq [of va PGSIZE]
      by (simp_all add: va0_def minus_div_mult_eq_mod)
    define n where "n = (if PGSIZE - va mod PGSIZE > len then len else PGSIZE - va mod PGSIZE)"
    have vm: "va mod PGSIZE < PGSIZE" by simp
    have n: "0 < n" "n \<le> len" "va mod PGSIZE + n \<le> PGSIZE" "n = len \<or> va mod PGSIZE + n = PGSIZE"
      unfolding n_def using False vm by auto
    let ?m = "memmove (k_mem s) (f + va mod PGSIZE) p n" and ?va = "w32 (va0 + PGSIZE)"
    note cp = copy_page [OF less.prems n(1-3) f]
    have "uva2ka pgdir va0 s = Ok f"
      using uva2ka_frame [OF less.prems(1) va0(3)] user_frame_page [OF va0(3) va va0(4)] f by simp
    moreover have "f \<noteq> 0" using pf kpage_ok_bound by (auto simp: plain_frame_def)
    ultimately have st: "copyout pgdir va p len s = copyout pgdir ?va (p + n) (len - n) (s\<lparr>k_mem := ?m\<rparr>)"
      using False va by (subst copyout.simps) (simp add: va0(1,2) n_def Let_def)
    show ?thesis
    proof (cases "n = len")
      case True
      have "copyout pgdir ?va (p + n) (len - n) (s\<lparr>k_mem := ?m\<rparr>) = Ok (0, s\<lparr>k_mem := ?m\<rparr>)"
        using True by (subst copyout.simps) simp
      moreover have "copied (k_mem s) ?m pgdir va p len"
        by (rule copied_step [OF less.prems n f]) (simp add: True copied_def)
      ultimately show ?thesis using st cp(1,3) by simp
    next
      case False
      then have "va mod PGSIZE + n = PGSIZE" using n(4) by simp
      then have vn: "va0 + PGSIZE = va + n" using div_mult_mod_eq [of va PGSIZE] unfolding va0_def by linarith
      moreover have "va + n < 4294967296"
        using copy_readyD(1) [OF less.prems(2), of "va + n"] False n(2) by simp
      ultimately have w: "?va = va + n" by simp
      have "len - n < len" using n(1,2) by simp
      from less.IH [OF this cp(1,4)] obtain s' where s':
        "copyout pgdir (va + n) (p + n) (len - n) (s\<lparr>k_mem := ?m\<rparr>) = Ok (0, s')" "pt_ok kend s' F pgdir"
        "copied ?m (k_mem s') pgdir (va + n) (p + n) (len - n)"
        "\<forall>v<4294967296. mapping (k_mem s') pgdir v = mapping ?m pgdir v" by auto
      have "copied (k_mem s) (k_mem s') pgdir va p len" by (rule copied_step [OF less.prems n f s'(3)])
      then show ?thesis using s'(1,2,4) cp(3) unfolding st w by auto
    qed
  qed
qed

section \<open>Mapping a range\<close>

lemma mappages_unfold:
  assumes sz: "0 < sz" "va + sz \<le> 4294967296"
  defines "a \<equiv> va div PGSIZE * PGSIZE" and "k \<equiv> (va + sz - 1) div PGSIZE - va div PGSIZE"
  shows "mappages pgdir va sz pa perm s = mappages_loop (k + 1) pgdir a (a + PGSIZE * k) pa perm s"
    and "va div PGSIZE + k = (va + sz - 1) div PGSIZE" and "a + PGSIZE * k \<le> va + sz - 1"
    and "a div PGSIZE = va div PGSIZE" and "a mod PGSIZE = 0" and "a \<le> va" and "va < a + PGSIZE"
proof -
  have va: "va < 4294967296" and lst: "va + sz - 1 < 4294967296" using sz by auto
  have "va div PGSIZE \<le> (va + sz - 1) div PGSIZE" using sz(1) by (intro div_le_mono) simp
  then show kd: "va div PGSIZE + k = (va + sz - 1) div PGSIZE" by (simp add: k_def)
  have l: "(va + sz - 1) div PGSIZE * PGSIZE = a + PGSIZE * k"
    unfolding kd [symmetric] a_def by (simp add: add_mult_distrib mult.commute)
  show ll: "a + PGSIZE * k \<le> va + sz - 1" unfolding l [symmetric] by simp
  show "a div PGSIZE = va div PGSIZE" "a mod PGSIZE = 0" "a \<le> va" "va < a + PGSIZE"
    using div_mult_mod_eq [of va PGSIZE] mod_less_divisor [of PGSIZE va] by (simp_all add: a_def)
  have "va + sz + 4294967295 = (va + sz - 1) + 4294967296" using sz(1) by simp
  then have wl: "w32 (va + sz + 4294967295) = va + sz - 1" using lst by (simp only: mod_add_self2 mod_less)
  have fuel: "w32 (a + PGSIZE * k + 4294967296 - a) div PGSIZE = k" using ll lst by simp
  show "mappages pgdir va sz pa perm s = mappages_loop (k + 1) pgdir a (a + PGSIZE * k) pa perm s"
    unfolding mappages_def Let_def wl PGROUNDDOWN_eq [OF va] PGROUNDDOWN_eq [OF lst] l a_def [symmetric] fuel ..
qed

lemma mappages_law:
  assumes ok: "pt_ok kend s F pgdir" and sz: "0 < sz" "va + sz \<le> 4294967296"
    and pa: "pa + sz + PGSIZE \<le> 4294967296" and perm: "perm < PGSIZE"
    and none: "\<And>v. v < 4294967296 \<Longrightarrow> va div PGSIZE \<le> v div PGSIZE \<Longrightarrow> v div PGSIZE \<le> (va + sz - 1) div PGSIZE \<Longrightarrow>
        mapping (k_mem s) pgdir v = None"
  shows "\<exists>r s' F'. mappages pgdir va sz pa perm s = Ok (r, s') \<and> F' \<subseteq> F \<and> pt_ok kend s' F' pgdir \<and>
    (r = 0 \<and> (\<forall>v<4294967296. mapping (k_mem s') pgdir v =
       mapped va (va + sz - 1) pa perm (mapping (k_mem s) pgdir) v) \<or> r = -1 \<and> F' = {})"
proof -
  define a k where "a = va div PGSIZE * PGSIZE" and "k = (va + sz - 1) div PGSIZE - va div PGSIZE"
  note u = mappages_unfold [OF sz, folded a_def k_def]
  have md: "mapped a (a + PGSIZE * k) pa perm t v = mapped va (va + sz - 1) pa perm t v" for t v
    using u(2,4) by (simp add: mapped_def)
  have un: "mapping (k_mem s) pgdir v = None" if "v < 4294967296" "a div PGSIZE \<le> v div PGSIZE"
    "v div PGSIZE \<le> a div PGSIZE + k" for v
    using none [OF that(1)] that(2,3) unfolding u(4) u(2) [symmetric] by blast
  have ak: "a + PGSIZE * k < 4294967296" using u(3) sz by linarith
  have "PGSIZE * k \<le> sz + (PGSIZE - 1)" using u(3,7) by linarith
  then have pk: "pa + PGSIZE * k < 4294967296" using pa by linarith
  show ?thesis
    unfolding u(1) md [symmetric] by (rule mappages_loop_law [OF ok u(5) ak pk perm]) (simp, rule un)
qed

lemma mappages_remap:
  assumes ok: "pt_ok kend s F pgdir" and sz: "0 < sz" "va + sz \<le> 4294967296"
    and some: "mapping (k_mem s) pgdir va \<noteq> None"
  shows "mappages pgdir va sz pa perm s = Panic ''remap''"
proof -
  define a where "a = va div PGSIZE * PGSIZE"
  note u = mappages_unfold [OF sz, folded a_def]
  have va: "va < 4294967296" and a: "a < 4294967296" using sz u(6) by linarith+
  have x: "PDX a = PDX va" "PTX a = PTX va" using PDX_PTX_page [OF a va] u(4) by auto
  have h: "has_table (k_mem s) pgdir (PDX a)"
    and p: "ld32 (k_mem s) (table (k_mem s) pgdir (PDX a) + 4 * PTX a) AND PTE_P \<noteq> 0"
    unfolding x using some by (auto simp: mapping_def Let_def split: if_splits)
  have "table (k_mem s) pgdir (PDX a) \<noteq> 0"
    using pt_okD(4) [OF ok PDX_less [OF a] h] kpage_ok_bound by blast
  then show ?thesis unfolding u(1) Suc_eq_plus1 [symmetric] using p by (simp add: walk_present [OF h])
qed

section \<open>Correctness of page tables\<close>



section \<open>Examples\<close>

text \<open>A directory with one table, which maps page 0 for the user; one page is free.\<close>

definition vm_example :: kmem_state where
  "vm_example = \<lparr>k_mem = st32 (st32 (\<lambda>a. 0) 0x80200000 0x201007) 0x80201000 0x202007,
     k_use_lock = True, k_freelist = 0x80203000\<rparr>"

lemma vm_example_ld32:
  "ld32 (k_mem vm_example) a = 0" if "a \<noteq> 0x80200000" "a \<noteq> 0x80201000" "a mod 4 = 0"
proof -
  have z: "ld32 (\<lambda>a. 0) b = 0" for b by (simp add: ld32_def)
  have "a + 4 \<le> b \<or> b + 4 \<le> a" if "a \<noteq> b" "b mod 4 = 0" for b
    using that \<open>a mod 4 = 0\<close> by presburger
  from this [of "0x80200000"] this [of "0x80201000"]
  have "0x80200000 + 4 \<le> a \<or> a + 4 \<le> 0x80200000" "0x80201000 + 4 \<le> a \<or> a + 4 \<le> 0x80201000"
    using that by auto
  then show ?thesis unfolding vm_example_def by (simp only: kmem_state.simps ld32_st32_other z)
qed

lemma vm_example_ld32_entries:
  "ld32 (k_mem vm_example) 0x80200000 = 0x201007" "ld32 (k_mem vm_example) 0x80201000 = 0x202007"
  by (simp_all add: vm_example_def ld32_st32_other)

lemma vm_example_table:
  "i < NPDENTRIES \<Longrightarrow> has_table (k_mem vm_example) 0x80200000 i \<longleftrightarrow> i = 0"
  "table (k_mem vm_example) 0x80200000 0 = 0x80201000"
proof -
  have "(0x201007 :: nat) = 0x201000 OR 7" by (simp add: or_nat_unfold)
  then have e: "PTE_ADDR 0x201007 = 0x201000" "0x201007 AND PTE_P \<noteq> 0"
    using PTE_ADDR_entry [of "0x201000" 7] present_entry [of "0x201006"] by (simp_all add: or_nat_unfold)
  show "table (k_mem vm_example) 0x80200000 0 = 0x80201000"
    by (simp add: table_def pde_at_def vm_example_ld32_entries e p2v_def)
  assume i: "i < NPDENTRIES"
  show "has_table (k_mem vm_example) 0x80200000 i \<longleftrightarrow> i = 0"
  proof (cases "i = 0")
    case True
    then show ?thesis using e by (simp add: has_table_def pde_at_def vm_example_ld32_entries)
  next
    case False
    have "(0x80200000 + 4 * i) mod 4 = 0" by simp
    then have "ld32 (k_mem vm_example) (0x80200000 + 4 * i) = 0"
      using False i by (intro vm_example_ld32) auto
    then show ?thesis using False by (simp add: has_table_def pde_at_def)
  qed
qed

lemma vm_example_ok: "pt_ok 0x80110000 vm_example {0x80203000} 0x80200000"
proof -
  have "ld32 (k_mem vm_example) 0x80203000 = 0" by (rule vm_example_ld32) simp_all
  then have "kmem_list 0x80110000 vm_example [0x80203000]"
    by (simp add: kmem_list_def kpage_ok_def) (simp add: vm_example_def)
  then have "kmem_pool 0x80110000 vm_example {0x80203000}"
    unfolding kmem_pool_def by (intro exI [of _ "[0x80203000]"]) simp
  then show ?thesis
    using vm_example_table by (auto simp: pt_ok_def inj_on_def kpage_ok_def)
qed

lemma vm_example_frame: "v < PGSIZE \<Longrightarrow> user_frame (k_mem vm_example) 0x80200000 v = Some 0x80202000"
proof -
  assume v: "v < PGSIZE"
  then have x: "PDX v = 0" "PTX v = 0" by (simp_all add: PDX_eq PTX_eq)
  have e: "(0x202007 :: nat) = 0x202000 OR 7" by (simp add: or_nat_unfold)
  have "PTE_ADDR 0x202007 = 0x202000" "0x202007 AND PTE_P \<noteq> 0" "0x202007 AND PTE_U \<noteq> 0"
    unfolding e using PTE_ADDR_entry [of "0x202000" 7] flag_entry [of "0x202000" 7]
    by (simp_all add: and_nat_unfold)
  then show ?thesis
    using vm_example_table(1) [of 0] vm_example_table(2)
    by (simp add: user_frame_def mapping_def x vm_example_ld32_entries p2v_def)
qed



end
