(* ===== verification/Xv6_Ide.thy ===== *)
theory Xv6_Ide
  imports Xv6_Prelude
begin

text \<open>
  The disk driver: \<^verbatim>\<open>struct buf\<close> (buf.h) and the memory disk of memide.c, whose
  \<^verbatim>\<open>iderw\<close> moves one block between a buffer and the disk before it returns.
  The state records beside the source's variables the sequence of blocks that
  have reached the disk (\<open>iotrace\<close>). No operation reads it; it is what a
  statement about a crash in the middle of an operation refers to.
\<close>

section \<open>Data\<close>

text \<open>The bits of \<^verbatim>\<open>flags\<close> (B\_BUSY, B\_VALID, B\_DIRTY) are three fields.\<close>

record buf =
  b_busy :: bool
  b_valid :: bool
  b_dirty :: bool
  b_dev :: nat
  b_sector :: nat
  b_prev :: nat
  b_next :: nat
  b_data :: block

record ide_state =
  memdisk :: "nat \<Rightarrow> block"
  disksize :: nat
  iotrace :: "(nat \<times> block) list"

section \<open>Operations\<close>

definition ideinit :: "(nat \<Rightarrow> block) \<Rightarrow> nat \<Rightarrow> 'a ide_state_scheme \<Rightarrow> 'a ide_state_scheme" where
  "ideinit image_start image_size s =
     s\<lparr>memdisk := image_start, disksize := image_size div 512, iotrace := []\<rparr>"

definition iderw :: "buf \<Rightarrow> 'a ide_state_scheme \<Rightarrow> (buf \<times> 'a ide_state_scheme) outcome" where
  "iderw b s =
     (if \<not> b_busy b then Panic ''iderw: buf not busy''
      else if b_valid b \<and> \<not> b_dirty b then Panic ''iderw: nothing to do''
      else if b_dev b \<noteq> 1 then Panic ''iderw: request not for disk 1''
      else if disksize s \<le> b_sector b then Panic ''iderw: sector out of range''
      else if b_dirty b then
        Ok (b\<lparr>b_dirty := False, b_valid := True\<rparr>,
            s\<lparr>memdisk := (memdisk s)(b_sector b := b_data b),
              iotrace := iotrace s @ [(b_sector b, b_data b)]\<rparr>)
      else Ok (b\<lparr>b_data := memdisk s (b_sector b), b_valid := True\<rparr>, s))"

section \<open>The disk as the sum of its writes\<close>

definition disk_after :: "(nat \<Rightarrow> block) \<Rightarrow> (nat \<times> block) list \<Rightarrow> nat \<Rightarrow> block" where
  "disk_after d ws = foldl (\<lambda>d w. d(fst w := snd w)) d ws"

lemma disk_after_Nil [simp]: "disk_after d [] = d"
  by (simp add: disk_after_def)

lemma disk_after_append [simp]: "disk_after d (xs @ ys) = disk_after (disk_after d xs) ys"
  by (simp add: disk_after_def)

lemma disk_after_Cons [simp]: "disk_after d (w # ws) = disk_after (d(fst w := snd w)) ws"
  by (simp add: disk_after_def)

lemma disk_after_other: "x \<notin> fst ` set ws \<Longrightarrow> disk_after d ws x = d x"
  by (induction ws arbitrary: d) auto

lemma iderw_read:
  assumes "b_busy b" and "\<not> b_valid b" and "\<not> b_dirty b"
    and "b_dev b = 1" and "b_sector b < disksize s"
  shows "iderw b s = Ok (b\<lparr>b_data := memdisk s (b_sector b), b_valid := True\<rparr>, s)"
  using assms by (simp add: iderw_def)

lemma iderw_write:
  assumes "b_busy b" and "b_dirty b" and "b_dev b = 1" and "b_sector b < disksize s"
  shows "iderw b s = Ok (b\<lparr>b_dirty := False, b_valid := True\<rparr>,
    s\<lparr>memdisk := (memdisk s)(b_sector b := b_data b),
      iotrace := iotrace s @ [(b_sector b, b_data b)]\<rparr>)"
  using assms by (simp add: iderw_def)

end
