(* ===== verification/Xv6_Ring.thy ===== *)
theory Xv6_Ring
  imports Xv6_Prelude
begin

text \<open>
  Doubly linked rings, as bio.c keeps its buffers on: what it means that two
  pointer fields run around a list of nodes and an anchor, and what the two
  pointer idioms of the kernel (unlink a node, insert a node after the anchor)
  do to that list.
\<close>

section \<open>Rings of pointers\<close>

text \<open>
  \<open>chain f xs\<close>: following the pointer \<open>f\<close> leads from each element of \<open>xs\<close> to
  the next one. \<open>ring nx pv h xs\<close>: both pointer fields run around the ring
  \<open>h, xs\<close>, in opposite directions.
\<close>

fun chain :: "('a \<Rightarrow> 'a) \<Rightarrow> 'a list \<Rightarrow> bool" where
  "chain f (x # y # ys) = (f x = y \<and> chain f (y # ys))"
| "chain f _ = True"

definition ring :: "('a \<Rightarrow> 'a) \<Rightarrow> ('a \<Rightarrow> 'a) \<Rightarrow> 'a \<Rightarrow> 'a list \<Rightarrow> bool" where
  "ring nx pv h xs \<longleftrightarrow> distinct (h # xs) \<and>
     chain nx (h # xs @ [h]) \<and> chain pv (h # rev xs @ [h])"

lemma chain_append:
  "chain f (xs @ y # ys) \<longleftrightarrow> chain f (xs @ [y]) \<and> chain f (y # ys)"
  by (induction f xs rule: chain.induct) simp_all

lemma chain_upd: "p \<notin> set (butlast xs) \<Longrightarrow> chain (f(p := v)) xs = chain f xs"
  by (induction f xs rule: chain.induct) auto

lemma chain_unlink:
  assumes "distinct (h # ys @ b # zs)" and "chain f (h # ys @ b # zs @ [h])"
  shows "f b = hd (zs @ [h])" and "chain (f(last (h # ys) := f b)) (h # ys @ zs @ [h])"
proof -
  obtain as p where p: "h # ys = as @ [p]" using rev_exhaust [of "h # ys"] by blast
  obtain n cs where n: "zs @ [h] = n # cs" by (cases "zs @ [h]") auto
  have "h # ys @ b # zs @ [h] = (h # ys) @ b # (zs @ [h])" by simp
  also have "\<dots> = as @ p # b # n # cs" unfolding p n by simp
  finally have "chain f (as @ p # b # n # cs)" using assms(2) by simp
  then have c: "chain f (as @ [p])" "f p = b" "f b = n" "chain f (n # cs)"
    using chain_append [of f as p "b # n # cs"] by simp_all
  show "f b = hd (zs @ [h])" using c n by simp
  have "distinct ((h # ys) @ b # zs)" using assms(1) by simp
  then have d: "p \<notin> set as" "p \<notin> set zs" unfolding p by auto
  have bl: "butlast (n # cs) = zs" unfolding n [symmetric] by simp
  have "chain (f(p := n)) (as @ [p])" "chain (f(p := n)) (n # cs)"
    using c d bl by (simp_all add: chain_upd del: butlast.simps)
  then have "chain (f(p := n)) (as @ p # n # cs)"
    using chain_append [of "f(p := n)" as p "n # cs"] by simp
  moreover have "last (h # ys) = p" unfolding p by simp
  moreover have "h # ys @ zs @ [h] = as @ p # n # cs"
  proof -
    have "h # ys @ zs @ [h] = (h # ys) @ (zs @ [h])" by simp
    also have "\<dots> = as @ p # n # cs" unfolding p n by simp
    finally show ?thesis .
  qed
  ultimately show "chain (f(last (h # ys) := f b)) (h # ys @ zs @ [h])"
    using c(3) by simp
qed

lemma last_hd_rev: "last (h # rev zs) = hd (zs @ [h])"
  by (cases zs) auto

lemma ring_unlink:
  assumes "ring nx pv h (ys @ b # zs)"
  shows "ring (nx(pv b := nx b)) (pv(nx b := pv b)) h (ys @ zs)"
proof -
  have d: "distinct (h # ys @ b # zs)" "distinct (h # rev zs @ b # rev ys)"
    and c: "chain nx (h # ys @ b # zs @ [h])" "chain pv (h # rev zs @ b # rev ys @ [h])"
    using assms by (auto simp: ring_def)
  have n: "nx b = last (h # rev zs)" using chain_unlink(1) [OF d(1) c(1)] by (simp only: last_hd_rev)
  have p: "pv b = last (h # ys)"
    using chain_unlink(1) [OF d(2) c(2)] last_hd_rev [of h "rev ys"] by simp
  show ?thesis
    using chain_unlink(2) [OF d(1) c(1)] chain_unlink(2) [OF d(2) c(2)] d
    unfolding ring_def p [symmetric] n [symmetric] by simp
qed

lemma ring_push:
  assumes "ring nx pv h xs" and "b \<notin> set (h # xs)"
  shows "ring (nx(b := nx h, h := b)) (pv(b := h, nx h := b)) h (b # xs)"
proof -
  have d: "distinct (h # xs)" and c: "chain nx (h # xs @ [h])" "chain pv (h # rev xs @ [h])"
    using assms(1) by (auto simp: ring_def)
  obtain m cs where m: "xs @ [h] = m # cs" by (cases "xs @ [h]") auto
  have nh: "nx h = m" "chain nx (m # cs)" using c(1) m by auto
  have bl: "butlast (m # cs) = xs" unfolding m [symmetric] by simp
  have "chain (nx(b := m, h := b)) (m # cs)"
    using nh(2) assms(2) d bl by (simp add: chain_upd del: butlast.simps)
  then have 1: "chain (nx(b := m, h := b)) (h # b # xs @ [h])"
    using assms(2) m by simp
  obtain as where as: "h # rev xs = as @ [m]"
  proof -
    have "last (h # rev xs) = m" unfolding last_hd_rev m by simp
    then have "h # rev xs = butlast (h # rev xs) @ [m]"
      using append_butlast_last_id [of "h # rev xs"] by simp
    then show thesis by (rule that)
  qed
  have "set (h # rev xs) = set (h # xs)" "distinct (h # rev xs)" using d by auto
  then have n: "m \<notin> set as" "b \<notin> set as" "b \<noteq> m" using assms(2) unfolding as by auto
  have split: "h # rev xs @ zs = as @ m # zs" for zs
  proof -
    have "h # rev xs @ zs = (h # rev xs) @ zs" by simp
    also have "\<dots> = as @ m # zs" unfolding as by simp
    finally show ?thesis .
  qed
  have "chain pv (as @ [m])"
    using c(2) chain_append [of pv as m "[h]"] unfolding split by blast
  then have "chain (pv(b := h, m := b)) (as @ m # [b, h])"
    using n chain_append [of "pv(b := h, m := b)" as m "[b, h]"] by (simp add: chain_upd)
  then have 2: "chain (pv(b := h, m := b)) (h # rev (b # xs) @ [h])"
    unfolding split [symmetric] by simp
  show ?thesis using d assms(2) 1 2 unfolding ring_def nh(1) by auto
qed

end
