(* ===== verification/Xv6_Cache_Spec.thy ===== *)
theory Xv6_Cache_Spec
  imports Xv6_Prelude
begin

text \<open>
  The contract between the buffer cache and the code above it, as a locale: what
  a client may assume of getting, changing, flushing and releasing a buffer.
  \<open>rel s c H D\<close> relates a state to the contents \<open>c\<close> of the blocks as clients see
  them, the held blocks \<open>H\<close> and the pinned blocks \<open>D\<close>. The lemmas inside are the
  two access patterns that the kernel uses throughout.
\<close>

locale block_cache =
  fixes rel :: "'s \<Rightarrow> (nat \<Rightarrow> block) \<Rightarrow> nat set \<Rightarrow> nat set \<Rightarrow> bool"
    and holds :: "'s \<Rightarrow> nat \<Rightarrow> nat \<Rightarrow> bool"
    and data_of :: "'s \<Rightarrow> nat \<Rightarrow> block"
    and get :: "nat \<Rightarrow> 's \<Rightarrow> (nat \<times> 's) outcome"
    and put :: "nat \<Rightarrow> 's \<Rightarrow> 's outcome"
    and flush :: "nat \<Rightarrow> 's \<Rightarrow> 's outcome"
    and change :: "nat \<Rightarrow> block \<Rightarrow> 's \<Rightarrow> 's"
    and disk :: "'s \<Rightarrow> nat \<Rightarrow> block"
    and trace :: "'s \<Rightarrow> (nat \<times> block) list"
    and same :: "'s \<Rightarrow> 's \<Rightarrow> bool"
    and cap :: nat
    and size :: "'s \<Rightarrow> nat"
    and rest :: "'s \<Rightarrow> 'r"
  assumes get_law: "rel s c H D \<Longrightarrow> sec \<notin> H \<Longrightarrow> sec < size s \<Longrightarrow>
      sec \<in> D \<or> card (H \<union> D) < cap \<Longrightarrow>
      \<exists>b s'. get sec s = Ok (b, s') \<and> rel s' c (insert sec H) D \<and> holds s' b sec \<and>
        (\<forall>b' x. holds s b' x \<longrightarrow> holds s' b' x) \<and> same s s'"
    and change_law: "rel s c H D \<Longrightarrow> holds s b sec \<Longrightarrow>
      rel (change b d s) (c(sec := d)) H D \<and>
      (\<forall>b' x. holds s b' x \<longrightarrow> holds (change b d s) b' x) \<and> same s (change b d s)"
    and flush_law: "rel s c H D \<Longrightarrow> holds s b sec \<Longrightarrow>
      \<exists>s'. flush b s = Ok s' \<and> rel s' c H (D - {sec}) \<and>
        (\<forall>b' x. holds s b' x \<longrightarrow> holds s' b' x) \<and>
        disk s' = (disk s)(sec := c sec) \<and> trace s' = trace s @ [(sec, c sec)] \<and>
        size s' = size s \<and> rest s' = rest s"
    and put_law: "rel s c H D \<Longrightarrow> holds s b sec \<Longrightarrow> sec \<in> D \<or> c sec = disk s sec \<Longrightarrow>
      \<exists>s'. put b s = Ok s' \<and> rel s' c (H - {sec}) D \<and>
        (\<forall>b' x. b' \<noteq> b \<longrightarrow> holds s b' x \<longrightarrow> holds s' b' x) \<and> same s s'"
    and data_law: "rel s c H D \<Longrightarrow> holds s b sec \<Longrightarrow> data_of s b = c sec"
    and held_law: "rel s c H D \<Longrightarrow> holds s b sec \<Longrightarrow> sec \<in> H"
    and holds_unique: "holds s b x \<Longrightarrow> holds s b y \<Longrightarrow> x = y"
    and clean_law: "rel s c H D \<Longrightarrow> sec \<notin> H \<Longrightarrow> sec \<notin> D \<Longrightarrow> c sec = disk s sec"
    and same_law: "same s s' \<Longrightarrow> disk s' = disk s \<and> trace s' = trace s \<and>
      size s' = size s \<and> rest s' = rest s"
begin

lemma same_trans: "same s t \<Longrightarrow> same t u \<Longrightarrow>
    disk u = disk s \<and> trace u = trace s \<and> size u = size s \<and> rest u = rest s"
  using same_law by metis

text \<open>Get a block, look at it, put it back: nothing changes.\<close>

lemma peek:
  assumes "rel s c H D" and "sec \<notin> H" and "sec < size s" and "sec \<in> D \<or> card (H \<union> D) < cap"
  shows "\<exists>b t u. get sec s = Ok (b, t) \<and> data_of t b = c sec \<and> put b t = Ok u \<and>
    rel u c H D \<and> (\<forall>b' x. holds s b' x \<longrightarrow> holds u b' x) \<and> disk u = disk s \<and>
    trace u = trace s \<and> size u = size s \<and> rest u = rest s"
proof -
  obtain b t where t: "get sec s = Ok (b, t)" "rel t c (insert sec H) D" "holds t b sec"
      "\<forall>b' x. holds s b' x \<longrightarrow> holds t b' x" "same s t"
    using get_law [OF assms] by blast
  have "sec \<in> D \<or> c sec = disk t sec"
    using clean_law [OF assms(1,2)] same_law [OF t(5)] by auto
  then obtain u where u: "put b t = Ok u" "rel u c (insert sec H - {sec}) D"
      "\<forall>b' x. b' \<noteq> b \<longrightarrow> holds t b' x \<longrightarrow> holds u b' x" "same t u"
    using put_law [OF t(2,3)] by blast
  have "b' \<noteq> b" if "holds s b' x" for b' x
    using that t(3,4) holds_unique held_law [OF assms(1)] assms(2) by metis
  then have "\<forall>b' x. holds s b' x \<longrightarrow> holds u b' x" using t(4) u(3) by blast
  moreover have "insert sec H - {sec} = H" using assms(2) by auto
  ultimately show ?thesis
    using t u data_law [OF t(2,3)] same_trans [OF t(5) u(4)] by auto
qed

text \<open>Get a block, change it, write it through to the disk, put it back.\<close>

lemma write_through:
  assumes "rel s c H D" and "sec \<notin> H" and "sec < size s" and "card (H \<union> D) < cap"
    and "sec \<notin> D"
  shows "\<exists>b t u v. get sec s = Ok (b, t) \<and> data_of t b = c sec \<and>
    rel t c (insert sec H) D \<and> (\<forall>b' x. holds s b' x \<longrightarrow> holds t b' x) \<and> rest t = rest s \<and>
    flush b (change b d t) = Ok u \<and> put b u = Ok v \<and>
    rel v (c(sec := d)) H D \<and> (\<forall>b' x. holds s b' x \<longrightarrow> holds v b' x) \<and>
    disk v = (disk s)(sec := d) \<and> trace v = trace s @ [(sec, d)] \<and>
    size v = size s \<and> rest v = rest s"
proof -
  obtain b t where t: "get sec s = Ok (b, t)" "rel t c (insert sec H) D" "holds t b sec"
      "\<forall>b' x. holds s b' x \<longrightarrow> holds t b' x" "same s t"
    using get_law [OF assms(1-3)] assms(4) by blast
  let ?t = "change b d t" and ?c = "c(sec := d)"
  have t': "rel ?t ?c (insert sec H) D" "\<forall>b' x. holds t b' x \<longrightarrow> holds ?t b' x" "same t ?t"
    using change_law [OF t(2,3)] by blast+
  have h: "holds ?t b sec" using t'(2) t(3) by blast
  obtain u where u: "flush b ?t = Ok u" "rel u ?c (insert sec H) (D - {sec})"
      "\<forall>b' x. holds ?t b' x \<longrightarrow> holds u b' x" "disk u = (disk ?t)(sec := ?c sec)"
      "trace u = trace ?t @ [(sec, ?c sec)]" "size u = size ?t" "rest u = rest ?t"
    using flush_law [OF t'(1) h] by blast
  have hu: "holds u b sec" using u(3) h by blast
  have "?c sec = disk u sec" using u(4) by simp
  then obtain v where v: "put b u = Ok v" "rel v ?c (insert sec H - {sec}) (D - {sec})"
      "\<forall>b' x. b' \<noteq> b \<longrightarrow> holds u b' x \<longrightarrow> holds v b' x" "same u v"
    using put_law [OF u(2) hu] by blast
  have "b' \<noteq> b" if "holds s b' x" for b' x
    using that t(3,4) holds_unique held_law [OF assms(1)] assms(2) by metis
  then have "\<forall>b' x. holds s b' x \<longrightarrow> holds v b' x" using t(4) t'(2) u(3) v(3) by blast
  moreover have "insert sec H - {sec} = H" "D - {sec} = D" using assms(2,5) by auto
  ultimately show ?thesis
    using t u v same_law [OF t(5)] same_trans [OF t(5) t'(3)] same_law [OF v(4)]
      data_law [OF t(2,3)] by auto
qed

text \<open>Copy one block over another one and write the copy through to the disk.\<close>

lemma copy_block:
  assumes "rel s c H D" and "src \<notin> H" and "dst \<notin> H" and "src \<notin> D" and "src \<noteq> dst"
    and "src < size s" and "dst < size s"
    and "card (H \<union> D) < cap" and "dst \<in> D \<or> card (insert src H \<union> D) < cap"
  shows "\<exists>a t b u v w x. get src s = Ok (a, t) \<and> rest t = rest s \<and> get dst t = Ok (b, u) \<and>
    flush b (change b (data_of u a) u) = Ok v \<and> put a v = Ok w \<and> put b w = Ok x \<and>
    rel x (c(dst := c src)) H (D - {dst}) \<and> (\<forall>b' y. holds s b' y \<longrightarrow> holds x b' y) \<and> disk x = (disk s)(dst := c src) \<and>
    trace x = trace s @ [(dst, c src)] \<and> size x = size s \<and> rest x = rest s"
proof -
  obtain a t where t: "get src s = Ok (a, t)" "rel t c (insert src H) D" "holds t a src" "same s t"
      "\<forall>b' x. holds s b' x \<longrightarrow> holds t b' x"
    using get_law [OF assms(1,2,6)] assms(8) by blast
  have dst: "dst \<notin> insert src H" "dst < size t"
    using assms(3,5,7) same_law [OF t(4)] by auto
  obtain b u where u: "get dst t = Ok (b, u)" "rel u c (insert dst (insert src H)) D"
      "holds u b dst" "\<forall>b' x. holds t b' x \<longrightarrow> holds u b' x" "same t u"
    using get_law [OF t(2) dst assms(9)] by blast
  have a: "holds u a src" using u(4) t(3) by blast
  then have da: "data_of u a = c src" using data_law [OF u(2)] by blast
  let ?u = "change b (c src) u" and ?c = "c(dst := c src)"
  have u': "rel ?u ?c (insert dst (insert src H)) D"
      "\<forall>b' x. holds u b' x \<longrightarrow> holds ?u b' x" "same u ?u"
    using change_law [OF u(2,3)] by blast+
  have hb: "holds ?u b dst" and ha: "holds ?u a src" using u'(2) u(3) a by blast+
  obtain v where v: "flush b ?u = Ok v" "rel v ?c (insert dst (insert src H)) (D - {dst})"
      "\<forall>b' x. holds ?u b' x \<longrightarrow> holds v b' x" "disk v = (disk ?u)(dst := ?c dst)"
      "trace v = trace ?u @ [(dst, ?c dst)]" "size v = size ?u" "rest v = rest ?u"
    using flush_law [OF u'(1) hb] by blast
  have eq: "disk ?u = disk s" "trace ?u = trace s" "size ?u = size s" "rest ?u = rest s"
    using same_law [OF t(4)] same_law [OF u(5)] same_law [OF u'(3)] by simp_all
  have "?c src = disk v src"
    using clean_law [OF assms(1,2,4)] v(4) eq assms(5) by simp
  then obtain w where w: "put a v = Ok w" "rel w ?c (insert dst (insert src H) - {src}) (D - {dst})"
      "\<forall>b' x. b' \<noteq> a \<longrightarrow> holds v b' x \<longrightarrow> holds w b' x" "same v w"
    using put_law [OF v(2)] v(3) ha by blast
  have "b \<noteq> a" using hb ha holds_unique assms(5) by blast
  then have "holds w b dst" using w(3) v(3) hb by blast
  moreover have "?c dst = disk w dst" using v(4) same_law [OF w(4)] by simp
  ultimately obtain x where x: "put b w = Ok x"
      "rel x ?c (insert dst (insert src H) - {src} - {dst}) (D - {dst})" "same w x"
      "\<forall>b' y. b' \<noteq> b \<longrightarrow> holds w b' y \<longrightarrow> holds x b' y"
    using put_law [OF w(2)] by blast
  have "b' \<noteq> a \<and> b' \<noteq> b" if "holds s b' y" for b' y
    using that t(3,5) u(3,4) holds_unique held_law [OF assms(1)] assms(2,3) by metis
  then have "\<forall>b' y. holds s b' y \<longrightarrow> holds x b' y" using t(5) u(4) u'(2) v(3) w(3) x(4) by blast
  moreover have "insert dst (insert src H) - {src} - {dst} = H" using assms(2,3) by auto
  moreover have "rest t = rest s" using same_law [OF t(4)] by simp
  ultimately show ?thesis
    using t(1) u(1) da v w(1) x eq same_law [OF w(4)] same_law [OF x(3)] by auto
qed

end

end
