(* ===== verification/Xv6_Bio.thy ===== *)
theory Xv6_Bio
  imports Xv6_Ide Xv6_Ring Xv6_Cache_Spec
begin

text \<open>
  The buffer cache of bio.c: NBUF buffers on a doubly linked ring through
  \<^verbatim>\<open>prev\<close>/\<^verbatim>\<open>next\<close> with \<^verbatim>\<open>bcache.head\<close> as its anchor, most recently used first.
  A buffer pointer is an index; the anchor has the index NBUF.
\<close>

abbreviation NBUF :: nat where "NBUF \<equiv> 10"
abbreviation HEAD :: nat where "HEAD \<equiv> 10"
abbreviation NODEV :: nat where "NODEV \<equiv> 4294967295"

record bio_state = ide_state +
  bufs :: "nat \<Rightarrow> buf"

section \<open>Operations\<close>

definition set_buf :: "nat \<Rightarrow> buf \<Rightarrow> 'a bio_state_scheme \<Rightarrow> 'a bio_state_scheme" where
  "set_buf b v s = s\<lparr>bufs := (bufs s)(b := v)\<rparr>"

text \<open>Assignments to the \<^verbatim>\<open>next\<close> and \<^verbatim>\<open>prev\<close> field of a buffer or of the anchor.\<close>

definition set_next :: "nat \<Rightarrow> nat \<Rightarrow> (nat \<Rightarrow> buf) \<Rightarrow> nat \<Rightarrow> buf" where
  "set_next p v B = B(p := (B p)\<lparr>b_next := v\<rparr>)"

definition set_prev :: "nat \<Rightarrow> nat \<Rightarrow> (nat \<Rightarrow> buf) \<Rightarrow> nat \<Rightarrow> buf" where
  "set_prev p v B = B(p := (B p)\<lparr>b_prev := v\<rparr>)"

text \<open>One round of the loop of \<^verbatim>\<open>binit\<close>: insert b right after the anchor.\<close>

definition binit_insert :: "nat \<Rightarrow> (nat \<Rightarrow> buf) \<Rightarrow> nat \<Rightarrow> buf" where
  "binit_insert b B =
     (let B = set_next b (b_next (B HEAD)) B;
          B = set_prev b HEAD B;
          B = B(b := (B b)\<lparr>b_dev := NODEV\<rparr>);
          B = set_prev (b_next (B HEAD)) b B
      in set_next HEAD b B)"

definition binit :: "'a bio_state_scheme \<Rightarrow> 'a bio_state_scheme" where
  "binit s =
     (let B = set_prev HEAD HEAD (bufs s);
          B = set_next HEAD HEAD B
      in s\<lparr>bufs := fold binit_insert [0..<NBUF] B\<rparr>)"

fun bget_cached :: "nat \<Rightarrow> (nat \<Rightarrow> buf) \<Rightarrow> nat \<Rightarrow> nat \<Rightarrow> nat \<Rightarrow> nat option outcome" where
  "bget_cached 0 B dev sec b = NoFuel"
| "bget_cached (Suc fuel) B dev sec b =
     (if b = HEAD then Ok None
      else if b_dev (B b) = dev \<and> b_sector (B b) = sec then Ok (Some b)
      else bget_cached fuel B dev sec (b_next (B b)))"

fun bget_victim :: "nat \<Rightarrow> (nat \<Rightarrow> buf) \<Rightarrow> nat \<Rightarrow> nat option outcome" where
  "bget_victim 0 B b = NoFuel"
| "bget_victim (Suc fuel) B b =
     (if b = HEAD then Ok None
      else if \<not> b_busy (B b) \<and> \<not> b_dirty (B b) then Ok (Some b)
      else bget_victim fuel B (b_prev (B b)))"

definition bget :: "nat \<Rightarrow> nat \<Rightarrow> 'a bio_state_scheme \<Rightarrow> (nat \<times> 'a bio_state_scheme) outcome" where
  "bget dev sec s =
     andthen (bget_cached (Suc NBUF) (bufs s) dev sec (b_next (bufs s HEAD))) (\<lambda>r.
       case r of
         Some b \<Rightarrow>
           if \<not> b_busy (bufs s b) then Ok (b, set_buf b ((bufs s b)\<lparr>b_busy := True\<rparr>) s)
           else Blocked
       | None \<Rightarrow>
           andthen (bget_victim (Suc NBUF) (bufs s) (b_prev (bufs s HEAD))) (\<lambda>v.
             case v of
               Some b \<Rightarrow>
                 Ok (b, set_buf b ((bufs s b)\<lparr>b_dev := dev, b_sector := sec,
                   b_busy := True, b_valid := False, b_dirty := False\<rparr>) s)
             | None \<Rightarrow> Panic ''bget: no buffers''))"

definition bread :: "nat \<Rightarrow> nat \<Rightarrow> 'a bio_state_scheme \<Rightarrow> (nat \<times> 'a bio_state_scheme) outcome" where
  "bread dev sec s =
     andthen (bget dev sec s) (\<lambda>(b, s).
       if \<not> b_valid (bufs s b)
       then andthen (iderw (bufs s b) s) (\<lambda>(v, s). Ok (b, set_buf b v s))
       else Ok (b, s))"

definition bwrite :: "nat \<Rightarrow> 'a bio_state_scheme \<Rightarrow> 'a bio_state_scheme outcome" where
  "bwrite b s =
     (if \<not> b_busy (bufs s b) then Panic ''bwrite''
      else andthen (iderw ((bufs s b)\<lparr>b_dirty := True\<rparr>) s) (\<lambda>(v, s). Ok (set_buf b v s)))"

text \<open>The pointer surgery of \<^verbatim>\<open>brelse\<close>, one assignment per line of the source.\<close>

definition brelse_relink :: "nat \<Rightarrow> (nat \<Rightarrow> buf) \<Rightarrow> nat \<Rightarrow> buf" where
  "brelse_relink b B =
     (let B = set_prev (b_next (B b)) (b_prev (B b)) B;
          B = set_next (b_prev (B b)) (b_next (B b)) B;
          B = set_next b (b_next (B HEAD)) B;
          B = set_prev b HEAD B;
          B = set_prev (b_next (B HEAD)) b B
      in set_next HEAD b B)"

definition brelse :: "nat \<Rightarrow> 'a bio_state_scheme \<Rightarrow> 'a bio_state_scheme outcome" where
  "brelse b s =
     (if \<not> b_busy (bufs s b) then Panic ''brelse''
      else (let B = brelse_relink b (bufs s)
            in Ok (s\<lparr>bufs := B(b := (B b)\<lparr>b_busy := False\<rparr>)\<rparr>)))"

text \<open>A client that holds a buffer writes its data through \<^verbatim>\<open>bp->data\<close>.\<close>

definition set_data :: "nat \<Rightarrow> block \<Rightarrow> 'a bio_state_scheme \<Rightarrow> 'a bio_state_scheme" where
  "set_data b d s = set_buf b ((bufs s b)\<lparr>b_data := d\<rparr>) s"

text \<open>\<^verbatim>\<open>log_write\<close> pins a buffer by setting B\_DIRTY without writing it.\<close>

definition set_dirty :: "nat \<Rightarrow> 'a bio_state_scheme \<Rightarrow> 'a bio_state_scheme" where
  "set_dirty b s = set_buf b ((bufs s b)\<lparr>b_dirty := True\<rparr>) s"

section \<open>The list of buffers\<close>

abbreviation nexts :: "(nat \<Rightarrow> buf) \<Rightarrow> nat \<Rightarrow> nat" where
  "nexts B \<equiv> (\<lambda>i. b_next (B i))"

abbreviation prevs :: "(nat \<Rightarrow> buf) \<Rightarrow> nat \<Rightarrow> nat" where
  "prevs B \<equiv> (\<lambda>i. b_prev (B i))"

lemma set_next_fields [simp]:
  "b_next (set_next p v B i) = (if i = p then v else b_next (B i))"
  "b_prev (set_next p v B i) = b_prev (B i)"
  "b_busy (set_next p v B i) = b_busy (B i)"
  "b_valid (set_next p v B i) = b_valid (B i)"
  "b_dirty (set_next p v B i) = b_dirty (B i)"
  "b_dev (set_next p v B i) = b_dev (B i)"
  "b_sector (set_next p v B i) = b_sector (B i)"
  "b_data (set_next p v B i) = b_data (B i)"
  by (simp_all add: set_next_def)

lemma set_prev_fields [simp]:
  "b_prev (set_prev p v B i) = (if i = p then v else b_prev (B i))"
  "b_next (set_prev p v B i) = b_next (B i)"
  "b_busy (set_prev p v B i) = b_busy (B i)"
  "b_valid (set_prev p v B i) = b_valid (B i)"
  "b_dirty (set_prev p v B i) = b_dirty (B i)"
  "b_dev (set_prev p v B i) = b_dev (B i)"
  "b_sector (set_prev p v B i) = b_sector (B i)"
  "b_data (set_prev p v B i) = b_data (B i)"
  by (simp_all add: set_prev_def)

text \<open>\<open>lru B xs\<close>: the ring holds exactly the NBUF buffers, in the order \<open>xs\<close>.\<close>

definition lru :: "(nat \<Rightarrow> buf) \<Rightarrow> nat list \<Rightarrow> bool" where
  "lru B xs \<longleftrightarrow> ring (nexts B) (prevs B) HEAD xs \<and> set xs = {..<NBUF}"

lemma lru_length: "lru B xs \<Longrightarrow> length xs = NBUF"
  using distinct_card [of xs] by (auto simp: lru_def ring_def)

lemma lru_cong:
  "(\<And>i. b_next (B' i) = b_next (B i)) \<Longrightarrow> (\<And>i. b_prev (B' i) = b_prev (B i)) \<Longrightarrow>
   lru B' xs = lru B xs"
  by (simp add: lru_def)

lemma bget_cached_chain:
  "chain (nexts B) (ys @ [HEAD]) \<Longrightarrow> HEAD \<notin> set ys \<Longrightarrow> length ys < fuel \<Longrightarrow>
   bget_cached fuel B dev sec (hd (ys @ [HEAD]))
     = Ok (find (\<lambda>b. b_dev (B b) = dev \<and> b_sector (B b) = sec) ys)"
proof (induction ys arbitrary: fuel)
  case Nil
  then show ?case by (cases fuel) auto
next
  case (Cons y ys)
  then obtain k where k: "fuel = Suc k" by (cases fuel) auto
  have c: "b_next (B y) = hd (ys @ [HEAD])" "chain (nexts B) (ys @ [HEAD])"
    using Cons.prems(1) by (cases ys; simp)+
  show ?case using Cons.IH [OF c(2), of k] Cons.prems(2,3) c(1) k by simp
qed

lemma bget_victim_chain:
  "chain (prevs B) (ys @ [HEAD]) \<Longrightarrow> HEAD \<notin> set ys \<Longrightarrow> length ys < fuel \<Longrightarrow>
   bget_victim fuel B (hd (ys @ [HEAD]))
     = Ok (find (\<lambda>b. \<not> b_busy (B b) \<and> \<not> b_dirty (B b)) ys)"
proof (induction ys arbitrary: fuel)
  case Nil
  then show ?case by (cases fuel) auto
next
  case (Cons y ys)
  then obtain k where k: "fuel = Suc k" by (cases fuel) auto
  have c: "b_prev (B y) = hd (ys @ [HEAD])" "chain (prevs B) (ys @ [HEAD])"
    using Cons.prems(1) by (cases ys; simp)+
  show ?case using Cons.IH [OF c(2), of k] Cons.prems(2,3) c(1) k by simp
qed

lemma chain_tl: "chain f (h # zs) \<Longrightarrow> zs \<noteq> [] \<Longrightarrow> f h = hd zs \<and> chain f zs"
  by (cases zs) auto

lemma bget_cached_lru:
  assumes "lru B xs"
  shows "bget_cached (Suc NBUF) B dev sec (b_next (B HEAD))
     = Ok (find (\<lambda>b. b_dev (B b) = dev \<and> b_sector (B b) = sec) xs)"
proof -
  have "chain (nexts B) (HEAD # xs @ [HEAD])" "HEAD \<notin> set xs"
    using assms by (auto simp: lru_def ring_def)
  then show ?thesis
    using bget_cached_chain [of B xs "Suc NBUF" dev sec] lru_length [OF assms]
      chain_tl [of "nexts B" HEAD "xs @ [HEAD]"] by simp
qed

lemma bget_victim_lru:
  assumes "lru B xs"
  shows "bget_victim (Suc NBUF) B (b_prev (B HEAD))
     = Ok (find (\<lambda>b. \<not> b_busy (B b) \<and> \<not> b_dirty (B b)) (rev xs))"
proof -
  have "chain (prevs B) (HEAD # rev xs @ [HEAD])" "HEAD \<notin> set xs"
    using assms by (auto simp: lru_def ring_def)
  then show ?thesis
    using bget_victim_chain [of B "rev xs" "Suc NBUF"] lru_length [OF assms]
      chain_tl [of "prevs B" HEAD "rev xs @ [HEAD]"] by simp
qed

text \<open>\<^verbatim>\<open>brelse\<close> moves its buffer to the front and leaves the rest in order.\<close>

lemma brelse_relink_lru:
  assumes "lru B xs" and "b < NBUF"
  shows "lru (brelse_relink b B) (b # remove1 b xs)"
proof -
  let ?nx = "nexts B" and ?pv = "prevs B"
  obtain ys zs where xs: "xs = ys @ b # zs" "b \<notin> set ys"
    using assms by (metis lru_def lessThan_iff split_list_first)
  have r: "ring ?nx ?pv HEAD (ys @ b # zs)" and d: "b \<noteq> HEAD" "b \<notin> set zs"
    using assms xs by (auto simp: lru_def ring_def)
  have nb: "?nx b \<noteq> b"
    using chain_unlink(1) [of HEAD ys b zs ?nx] r d by (cases zs) (auto simp: ring_def)
  have "ring ((?nx(?pv b := ?nx b))(b := (?nx(?pv b := ?nx b)) HEAD, HEAD := b))
     ((?pv(?nx b := ?pv b))(b := HEAD, (?nx(?pv b := ?nx b)) HEAD := b)) HEAD (b # ys @ zs)"
    by (rule ring_push [OF ring_unlink [OF r]]) (use d xs in auto)
  moreover have "nexts (brelse_relink b B) = (?nx(?pv b := ?nx b))(b := (?nx(?pv b := ?nx b)) HEAD, HEAD := b)"
    using nb d by (simp add: brelse_relink_def Let_def fun_upd_def cong: if_cong)
  moreover have "prevs (brelse_relink b B) = (?pv(?nx b := ?pv b))(b := HEAD, (?nx(?pv b := ?nx b)) HEAD := b)"
    using nb d by (simp add: brelse_relink_def Let_def fun_upd_def cong: if_cong)
  moreover have "remove1 b xs = ys @ zs" using xs by (simp add: remove1_append)
  moreover have "set (b # ys @ zs) = {..<NBUF}" using assms xs by (auto simp: lru_def)
  ultimately show ?thesis unfolding lru_def by (metis append_Cons)
qed

lemma brelse_relink_fields:
  "b_busy (brelse_relink b B i) = b_busy (B i)"
  "b_valid (brelse_relink b B i) = b_valid (B i)"
  "b_dirty (brelse_relink b B i) = b_dirty (B i)"
  "b_dev (brelse_relink b B i) = b_dev (B i)"
  "b_sector (brelse_relink b B i) = b_sector (B i)"
  "b_data (brelse_relink b B i) = b_data (B i)"
  by (simp_all add: brelse_relink_def Let_def)

lemma binit_insert_ring:
  assumes "ring (nexts B) (prevs B) HEAD xs" and "b \<notin> set (HEAD # xs)"
  shows "ring (nexts (binit_insert b B)) (prevs (binit_insert b B)) HEAD (b # xs)"
proof -
  have "nexts (binit_insert b B) = (nexts B)(b := b_next (B HEAD), HEAD := b)"
    using assms(2)
    by (simp add: binit_insert_def Let_def fun_upd_def if_distrib [of b_next] cong: if_cong)
  moreover have "prevs (binit_insert b B) = (prevs B)(b := HEAD, b_next (B HEAD) := b)"
    using assms(2)
    by (simp add: binit_insert_def Let_def fun_upd_def if_distrib [of b_prev] cong: if_cong)
  ultimately show ?thesis using ring_push [OF assms] by simp
qed

lemma binit_fold_ring:
  "ring (nexts B) (prevs B) HEAD xs \<Longrightarrow> distinct (rev bs @ xs) \<Longrightarrow> HEAD \<notin> set bs \<Longrightarrow>
   ring (nexts (fold binit_insert bs B)) (prevs (fold binit_insert bs B)) HEAD (rev bs @ xs)"
proof (induction bs arbitrary: B xs)
  case Nil
  then show ?case by simp
next
  case (Cons b bs)
  have "ring (nexts (binit_insert b B)) (prevs (binit_insert b B)) HEAD (b # xs)"
    by (rule binit_insert_ring) (use Cons.prems in auto)
  from Cons.IH [OF this] Cons.prems show ?case by auto
qed

lemma binit_lru: "lru (bufs (binit s)) (rev [0..<NBUF])"
proof -
  let ?B = "set_next HEAD HEAD (set_prev HEAD HEAD (bufs s))"
  have "ring (nexts ?B) (prevs ?B) HEAD []" by (simp add: ring_def)
  from binit_fold_ring [OF this, of "[0..<NBUF]"]
  show ?thesis by (auto simp: lru_def binit_def Let_def)
qed

lemma binit_insert_fields:
  "b_busy (binit_insert b B i) = b_busy (B i)"
  "b_valid (binit_insert b B i) = b_valid (B i)"
  "b_dirty (binit_insert b B i) = b_dirty (B i)"
  "b_dev (binit_insert b B i) = (if i = b then NODEV else b_dev (B i))"
  by (simp_all add: binit_insert_def Let_def)

lemma binit_fold_fields:
  "b_busy (fold binit_insert bs B i) = b_busy (B i)"
  "b_valid (fold binit_insert bs B i) = b_valid (B i)"
  "b_dirty (fold binit_insert bs B i) = b_dirty (B i)"
  "b_dev (fold binit_insert bs B i) = (if i \<in> set bs then NODEV else b_dev (B i))"
  by (induction bs arbitrary: B) (auto simp: binit_insert_fields)

section \<open>What the cache holds\<close>

text \<open>
  \<open>bio_rel s c H D\<close> relates the cache to its abstract contents: \<open>c sec\<close> is what a
  client finds in the block \<open>sec\<close>, \<open>H\<close> the blocks whose buffers are held (B\_BUSY),
  \<open>D\<close> the blocks whose buffers are pinned (B\_DIRTY). Blocks that are neither held
  nor pinned agree with the disk, so that their buffers may be recycled.
\<close>

definition bio_rel ::
  "'a bio_state_scheme \<Rightarrow> (nat \<Rightarrow> block) \<Rightarrow> nat set \<Rightarrow> nat set \<Rightarrow> bool" where
  "bio_rel s c H D \<longleftrightarrow>
     (\<exists>xs. lru (bufs s) xs) \<and>
     (\<forall>i<NBUF. \<forall>j<NBUF. b_dev (bufs s i) = 1 \<longrightarrow> b_dev (bufs s j) = 1 \<longrightarrow>
        b_sector (bufs s i) = b_sector (bufs s j) \<longrightarrow> i = j) \<and>
     (\<forall>i<NBUF. b_dev (bufs s i) = 1 \<longrightarrow>
        b_valid (bufs s i) \<and> b_sector (bufs s i) < disksize s \<and>
        b_data (bufs s i) = c (b_sector (bufs s i))) \<and>
     (\<forall>i<NBUF. b_busy (bufs s i) \<or> b_dirty (bufs s i) \<longrightarrow> b_dev (bufs s i) = 1) \<and>
     H = {b_sector (bufs s i) |i. i < NBUF \<and> b_busy (bufs s i)} \<and>
     D = {b_sector (bufs s i) |i. i < NBUF \<and> b_dirty (bufs s i)} \<and>
     (\<forall>sec. sec \<notin> H \<union> D \<longrightarrow> c sec = memdisk s sec)"

text \<open>\<open>handle s b sec\<close>: the caller holds buffer \<open>b\<close>, and it is the one of block \<open>sec\<close>.\<close>

definition handle :: "'a bio_state_scheme \<Rightarrow> nat \<Rightarrow> nat \<Rightarrow> bool" where
  "handle s b sec \<longleftrightarrow> b < NBUF \<and> b_busy (bufs s b) \<and> b_dev (bufs s b) = 1 \<and>
     b_sector (bufs s b) = sec"

lemma bio_relD:
  assumes "bio_rel s c H D"
  shows "\<exists>xs. lru (bufs s) xs"
    and "\<And>i j. i < NBUF \<Longrightarrow> j < NBUF \<Longrightarrow> b_dev (bufs s i) = 1 \<Longrightarrow> b_dev (bufs s j) = 1 \<Longrightarrow>
        b_sector (bufs s i) = b_sector (bufs s j) \<Longrightarrow> i = j"
    and "\<And>i. i < NBUF \<Longrightarrow> b_dev (bufs s i) = 1 \<Longrightarrow>
        b_valid (bufs s i) \<and> b_sector (bufs s i) < disksize s \<and>
        b_data (bufs s i) = c (b_sector (bufs s i))"
    and "\<And>i. i < NBUF \<Longrightarrow> b_busy (bufs s i) \<or> b_dirty (bufs s i) \<Longrightarrow> b_dev (bufs s i) = 1"
    and "H = {b_sector (bufs s i) |i. i < NBUF \<and> b_busy (bufs s i)}"
    and "D = {b_sector (bufs s i) |i. i < NBUF \<and> b_dirty (bufs s i)}"
    and "\<And>sec. sec \<notin> H \<Longrightarrow> sec \<notin> D \<Longrightarrow> c sec = memdisk s sec"
  using assms unfolding bio_rel_def by blast+

lemma bio_rel_handle_data:
  "bio_rel s c H D \<Longrightarrow> handle s b sec \<Longrightarrow> b_data (bufs s b) = c sec"
  unfolding handle_def using bio_relD(3) by blast

lemma bio_rel_held: "bio_rel s c H D \<Longrightarrow> handle s b sec \<Longrightarrow> sec \<in> H"
  using bio_relD(5) by (fastforce simp: handle_def)

lemma bio_rel_handle_unique:
  "bio_rel s c H D \<Longrightarrow> handle s b sec \<Longrightarrow> handle s b' sec \<Longrightarrow> b = b'"
  using bio_relD(2) by (fastforce simp: handle_def)

lemma bio_rel_bound:
  assumes "bio_rel s c H D" and "sec \<in> H \<union> D"
  shows "sec < disksize s"
proof -
  obtain i where "i < NBUF" "b_busy (bufs s i) \<or> b_dirty (bufs s i)" "sec = b_sector (bufs s i)"
    using assms(2) bio_relD(5,6) [OF assms(1)] by blast
  then show ?thesis using bio_relD(3,4) [OF assms(1)] by blast
qed

lemma bio_rel_card:
  assumes "bio_rel s c H D"
  shows "card {i. i < NBUF \<and> (b_busy (bufs s i) \<or> b_dirty (bufs s i))} = card (H \<union> D)"
proof -
  let ?I = "{i. i < NBUF \<and> (b_busy (bufs s i) \<or> b_dirty (bufs s i))}"
  let ?f = "\<lambda>i. b_sector (bufs s i)"
  have "inj_on ?f ?I"
  proof (rule inj_onI)
    fix i j
    assume "i \<in> ?I" "j \<in> ?I" "?f i = ?f j"
    then show "i = j"
      using bio_relD(2) [OF assms, of i j] bio_relD(4) [OF assms, of i]
        bio_relD(4) [OF assms, of j] by blast
  qed
  moreover have "?f ` ?I = H \<union> D"
    unfolding bio_relD(5,6) [OF assms] by blast
  ultimately show ?thesis by (metis card_image)
qed

lemma bio_rel_finite:
  assumes "bio_rel s c H D"
  shows "finite H" and "finite D"
  using bio_relD(5,6) [OF assms] by auto

lemma bio_rel_card_le:
  assumes "bio_rel s c H D"
  shows "card (H \<union> D) \<le> NBUF"
proof -
  have "card {i. i < NBUF \<and> (b_busy (bufs s i) \<or> b_dirty (bufs s i))} \<le> card {..<NBUF}"
    by (intro card_mono) auto
  then show ?thesis unfolding bio_rel_card [OF assms] by simp
qed


text \<open>The second scan of \<^verbatim>\<open>bget\<close> finds a buffer unless all are held or pinned.\<close>

lemma bio_rel_victim:
  assumes "bio_rel s c H D" and "lru (bufs s) xs" and "card (H \<union> D) < NBUF"
  obtains b where "find (\<lambda>b. \<not> b_busy (bufs s b) \<and> \<not> b_dirty (bufs s b)) (rev xs) = Some b"
    and "b < NBUF" and "\<not> b_busy (bufs s b)" and "\<not> b_dirty (bufs s b)"
proof (cases "find (\<lambda>b. \<not> b_busy (bufs s b) \<and> \<not> b_dirty (bufs s b)) (rev xs)")
  case None
  then have "\<forall>b<NBUF. b_busy (bufs s b) \<or> b_dirty (bufs s b)"
    using assms(2) by (auto simp: find_None_iff lru_def)
  then have "{i. i < NBUF \<and> (b_busy (bufs s i) \<or> b_dirty (bufs s i))} = {..<NBUF}" by auto
  then have "card (H \<union> D) = NBUF" using bio_rel_card [OF assms(1)] by simp
  with assms(3) show ?thesis by simp
next
  case (Some b)
  then have "b \<in> set (rev xs)" "\<not> b_busy (bufs s b)" "\<not> b_dirty (bufs s b)"
    by (auto dest: find_SomeD)
  with Some that assms(2) show ?thesis by (auto simp: lru_def)
qed

lemma find_cached:
  assumes "bio_rel s c H D" and "lru (bufs s) xs" and "i < NBUF"
    and "b_dev (bufs s i) = 1" and "b_sector (bufs s i) = sec"
  shows "find (\<lambda>b. b_dev (bufs s b) = 1 \<and> b_sector (bufs s b) = sec) xs = Some i"
proof -
  have "i \<in> set xs" using assms(2,3) by (auto simp: lru_def)
  then have "find (\<lambda>b. b_dev (bufs s b) = 1 \<and> b_sector (bufs s b) = sec) xs \<noteq> None"
    using assms(4,5) by (auto simp: find_None_iff)
  then obtain j where j: "find (\<lambda>b. b_dev (bufs s b) = 1 \<and> b_sector (bufs s b) = sec) xs = Some j"
    by blast
  then have "j \<in> set xs" "b_dev (bufs s j) = 1" "b_sector (bufs s j) = sec"
    by (auto dest: find_SomeD)
  then have "j = i" using bio_relD(2) [OF assms(1)] assms by (auto simp: lru_def)
  with j show ?thesis by simp
qed

lemma find_uncached:
  assumes "lru (bufs s) xs"
    and "\<And>i. i < NBUF \<Longrightarrow> b_dev (bufs s i) = 1 \<Longrightarrow> b_sector (bufs s i) \<noteq> sec"
  shows "find (\<lambda>b. b_dev (bufs s b) = 1 \<and> b_sector (bufs s b) = sec) xs = None"
  using assms by (auto simp: find_None_iff lru_def)

lemma set_buf_fields [simp]:
  "bufs (set_buf b v s) = (bufs s)(b := v)"
  "memdisk (set_buf b v s) = memdisk s"
  "disksize (set_buf b v s) = disksize s"
  "iotrace (set_buf b v s) = iotrace s"
  "bio_state.more (set_buf b v s) = bio_state.more s"
  by (simp_all add: set_buf_def)

lemma bread_hit:
  assumes "bio_rel s c H D" and "i < NBUF" and "b_dev (bufs s i) = 1"
    and "b_sector (bufs s i) = sec" and "\<not> b_busy (bufs s i)"
  shows "bread 1 sec s = Ok (i, set_buf i ((bufs s i)\<lparr>b_busy := True\<rparr>) s)"
proof -
  obtain xs where x: "lru (bufs s) xs" using bio_relD(1) [OF assms(1)] by blast
  show ?thesis
    using assms(5) bio_relD(3) [OF assms(1) assms(2,3)]
    unfolding bread_def bget_def bget_cached_lru [OF x] find_cached [OF assms(1) x assms(2-4)]
    by simp
qed

lemma bread_miss:
  assumes "bio_rel s c H D" and "card (H \<union> D) < NBUF" and "sec < disksize s"
    and "\<And>i. i < NBUF \<Longrightarrow> b_dev (bufs s i) = 1 \<Longrightarrow> b_sector (bufs s i) \<noteq> sec"
  obtains b where "b < NBUF" and "\<not> b_busy (bufs s b)" and "\<not> b_dirty (bufs s b)"
    and "bread 1 sec s = Ok (b, set_buf b ((bufs s b)\<lparr>b_dev := 1, b_sector := sec,
      b_busy := True, b_dirty := False, b_data := memdisk s sec, b_valid := True\<rparr>) s)"
proof -
  obtain xs where x: "lru (bufs s) xs" using bio_relD(1) [OF assms(1)] by blast
  obtain b where b: "find (\<lambda>b. \<not> b_busy (bufs s b) \<and> \<not> b_dirty (bufs s b)) (rev xs) = Some b"
    and n: "b < NBUF" "\<not> b_busy (bufs s b)" "\<not> b_dirty (bufs s b)"
    using bio_rel_victim [OF assms(1) x assms(2)] by blast
  have f: "find (\<lambda>b. b_dev (bufs s b) = 1 \<and> b_sector (bufs s b) = sec) xs = None"
    using find_uncached x assms(4) by blast
  have "bread 1 sec s = Ok (b, set_buf b ((bufs s b)\<lparr>b_dev := 1, b_sector := sec,
      b_busy := True, b_dirty := False, b_data := memdisk s sec, b_valid := True\<rparr>) s)"
    using assms(3)
    unfolding bread_def bget_def bget_cached_lru [OF x] f bget_victim_lru [OF x] andthen.simps
      option.case b
    by (simp add: iderw_def set_buf_def)
  with n that show thesis by blast
qed

text \<open>
  What the operations may change beside the cache: \<open>bio_frame\<close> says that a step
  touched nothing but the buffers, and that whoever held a buffer still holds it.
\<close>

definition keeps_handles :: "'a bio_state_scheme \<Rightarrow> 'a bio_state_scheme \<Rightarrow> bool" where
  "keeps_handles s s' \<longleftrightarrow> (\<forall>b sec. handle s b sec \<longrightarrow> handle s' b sec)"

definition bio_frame :: "'a bio_state_scheme \<Rightarrow> 'a bio_state_scheme \<Rightarrow> bool" where
  "bio_frame s s' \<longleftrightarrow> memdisk s' = memdisk s \<and> disksize s' = disksize s \<and>
     iotrace s' = iotrace s \<and> bio_state.more s' = bio_state.more s"

lemma bio_frame_set_buf [simp]: "bio_frame s (set_buf b v s)"
  by (simp add: bio_frame_def)

lemma lru_upd_buf:
  assumes "\<exists>xs. lru B xs" and "b_next v = b_next (B b)" and "b_prev v = b_prev (B b)"
  shows "\<exists>xs. lru (B(b := v)) xs"
  using assms lru_cong [of "B(b := v)" B] by auto

text \<open>
  The one lemma behind the laws of the cache: replacing one buffer keeps the
  relation, with the held and pinned sets and the contents adjusted to it.
\<close>

lemma bio_rel_upd_buf:
  assumes rel: "bio_rel s c H D" and b: "b < NBUF"
    and s': "bufs s' = (bufs s)(b := v)" "disksize s' = disksize s"
    and ptr: "b_next v = b_next (bufs s b)" "b_prev v = b_prev (bufs s b)"
    and v: "b_dev v = 1" "b_valid v" "b_sector v < disksize s" "b_data v = c' (b_sector v)"
    and uniq: "\<And>i. i < NBUF \<Longrightarrow> i \<noteq> b \<Longrightarrow> b_dev (bufs s i) = 1 \<Longrightarrow>
      b_sector (bufs s i) \<noteq> b_sector v"
    and other: "\<And>sec. sec \<noteq> b_sector v \<Longrightarrow> c' sec = c sec"
    and H': "H' = {b_sector (bufs s i) |i. i < NBUF \<and> i \<noteq> b \<and> b_busy (bufs s i)}
      \<union> (if b_busy v then {b_sector v} else {})"
    and D': "D' = {b_sector (bufs s i) |i. i < NBUF \<and> i \<noteq> b \<and> b_dirty (bufs s i)}
      \<union> (if b_dirty v then {b_sector v} else {})"
    and agree: "\<And>sec. sec \<notin> H' \<Longrightarrow> sec \<notin> D' \<Longrightarrow> c' sec = memdisk s' sec"
  shows "bio_rel s' c' H' D'"
  unfolding bio_rel_def
proof (intro conjI)
  show "\<exists>xs. lru (bufs s') xs"
    unfolding s' by (rule lru_upd_buf [OF bio_relD(1) [OF rel] ptr])
  show "\<forall>i<NBUF. \<forall>j<NBUF. b_dev (bufs s' i) = 1 \<longrightarrow> b_dev (bufs s' j) = 1 \<longrightarrow>
      b_sector (bufs s' i) = b_sector (bufs s' j) \<longrightarrow> i = j"
  proof (intro allI impI)
    fix i j
    assume "i < NBUF" "j < NBUF" "b_dev (bufs s' i) = 1" "b_dev (bufs s' j) = 1"
      "b_sector (bufs s' i) = b_sector (bufs s' j)"
    then show "i = j"
      using bio_relD(2) [OF rel, of i j] uniq [of i] uniq [of j]
      by (metis fun_upd_same fun_upd_other s'(1))
  qed
  show "\<forall>i<NBUF. b_dev (bufs s' i) = 1 \<longrightarrow> b_valid (bufs s' i) \<and>
      b_sector (bufs s' i) < disksize s' \<and> b_data (bufs s' i) = c' (b_sector (bufs s' i))"
  proof (intro allI impI)
    fix i
    assume "i < NBUF" "b_dev (bufs s' i) = 1"
    then show "b_valid (bufs s' i) \<and> b_sector (bufs s' i) < disksize s' \<and>
        b_data (bufs s' i) = c' (b_sector (bufs s' i))"
      using bio_relD(3) [OF rel, of i] v uniq [of i] other [of "b_sector (bufs s i)"]
      unfolding s' by (auto split: if_splits)
  qed
  show "\<forall>i<NBUF. b_busy (bufs s' i) \<or> b_dirty (bufs s' i) \<longrightarrow> b_dev (bufs s' i) = 1"
    unfolding s' using bio_relD(4) [OF rel] v by auto
  show "H' = {b_sector (bufs s' i) |i. i < NBUF \<and> b_busy (bufs s' i)}"
    using b by (auto simp: s' H')
  show "D' = {b_sector (bufs s' i) |i. i < NBUF \<and> b_dirty (bufs s' i)}"
    using b by (auto simp: s' D')
  show "\<forall>x. x \<notin> H' \<union> D' \<longrightarrow> c' x = memdisk s' x"
    using agree by simp
qed

text \<open>The held and pinned blocks of the other buffers, when \<open>b\<close> has block \<open>sec\<close> or none.\<close>

lemma bio_rel_others:
  assumes rel: "bio_rel s c H D" and "b < NBUF" and "b_dev (bufs s b) = 1"
    and "b_sector (bufs s b) = sec"
  shows "{b_sector (bufs s i) |i. i < NBUF \<and> i \<noteq> b \<and> b_busy (bufs s i)} = H - {sec}"
    and "{b_sector (bufs s i) |i. i < NBUF \<and> i \<noteq> b \<and> b_dirty (bufs s i)} = D - {sec}"
    and "\<And>i. i < NBUF \<Longrightarrow> i \<noteq> b \<Longrightarrow> b_dev (bufs s i) = 1 \<Longrightarrow> b_sector (bufs s i) \<noteq> sec"
proof -
  show u: "\<And>i. i < NBUF \<Longrightarrow> i \<noteq> b \<Longrightarrow> b_dev (bufs s i) = 1 \<Longrightarrow> b_sector (bufs s i) \<noteq> sec"
    using bio_relD(2) [OF rel] assms(2-4) by blast
  have u': "\<And>i. i < NBUF \<Longrightarrow> i \<noteq> b \<Longrightarrow> b_busy (bufs s i) \<or> b_dirty (bufs s i) \<Longrightarrow>
      b_sector (bufs s i) \<noteq> sec"
    using u bio_relD(4) [OF rel] by blast
  show "{b_sector (bufs s i) |i. i < NBUF \<and> i \<noteq> b \<and> b_busy (bufs s i)} = H - {sec}"
    unfolding bio_relD(5) [OF rel] using u' assms(4) by blast
  show "{b_sector (bufs s i) |i. i < NBUF \<and> i \<noteq> b \<and> b_dirty (bufs s i)} = D - {sec}"
    unfolding bio_relD(6) [OF rel] using u' assms(4) by blast
qed

lemma bread_hit_law:
  assumes rel: "bio_rel s c H D" and "i < NBUF" and "b_dev (bufs s i) = 1"
    and "b_sector (bufs s i) = sec" and "sec \<notin> H"
  shows "\<exists>s'. bread 1 sec s = Ok (i, s') \<and> bio_rel s' c (insert sec H) D \<and>
    handle s' i sec \<and> keeps_handles s s' \<and> bio_frame s s'"
proof -
  let ?s = "set_buf i ((bufs s i)\<lparr>b_busy := True\<rparr>) s"
  have nb: "\<not> b_busy (bufs s i)" using assms bio_relD(5) [OF rel] by blast
  have D: "b_dirty (bufs s i) \<longleftrightarrow> sec \<in> D"
    unfolding bio_relD(6) [OF rel] using bio_relD(2,4) [OF rel] assms by blast
  have "bio_rel ?s c (insert sec H) D"
    by (rule bio_rel_upd_buf [OF rel assms(2), where v = "(bufs s i)\<lparr>b_busy := True\<rparr>"])
      (use bio_rel_others [OF rel assms(2-4)] bio_relD(3) [OF rel assms(2,3)]
        bio_relD(7) [OF rel] assms D in auto)
  moreover have "handle ?s i sec" using assms by (simp add: handle_def)
  moreover have "keeps_handles s ?s" using nb by (auto simp: keeps_handles_def handle_def)
  ultimately show ?thesis using bread_hit [OF rel assms(2-4) nb] by simp
qed

lemma bread_miss_law:
  assumes rel: "bio_rel s c H D" and "card (H \<union> D) < NBUF" and "sec < disksize s"
    and un: "\<And>i. i < NBUF \<Longrightarrow> b_dev (bufs s i) = 1 \<Longrightarrow> b_sector (bufs s i) \<noteq> sec"
  shows "\<exists>b s'. bread 1 sec s = Ok (b, s') \<and> bio_rel s' c (insert sec H) D \<and>
    handle s' b sec \<and> keeps_handles s s' \<and> bio_frame s s'"
proof -
  obtain b where b: "b < NBUF" "\<not> b_busy (bufs s b)" "\<not> b_dirty (bufs s b)"
    and br: "bread 1 sec s = Ok (b, set_buf b ((bufs s b)\<lparr>b_dev := 1, b_sector := sec,
      b_busy := True, b_dirty := False, b_data := memdisk s sec, b_valid := True\<rparr>) s)"
      (is "_ = Ok (b, set_buf b ?v s)")
    using bread_miss [OF rel assms(2-4)] by blast
  have nHD: "sec \<notin> H" "sec \<notin> D"
    using un bio_relD(4) [OF rel] unfolding bio_relD(5,6) [OF rel] by blast+
  have "{b_sector (bufs s i) |i. i < NBUF \<and> i \<noteq> b \<and> b_busy (bufs s i)} = H"
    and "{b_sector (bufs s i) |i. i < NBUF \<and> i \<noteq> b \<and> b_dirty (bufs s i)} = D"
    unfolding bio_relD(5,6) [OF rel] using b by blast+
  then have "bio_rel (set_buf b ?v s) c (insert sec H) D"
    by (intro bio_rel_upd_buf [OF rel b(1), where v = ?v])
      (use bio_relD(7) [OF rel] un nHD assms(3) in auto)
  moreover have "handle (set_buf b ?v s) b sec" using b by (simp add: handle_def)
  moreover have "keeps_handles s (set_buf b ?v s)"
    using b by (auto simp: keeps_handles_def handle_def)
  ultimately show ?thesis using br by auto
qed

lemma bread_law:
  assumes rel: "bio_rel s c H D" and "sec \<notin> H" and "sec < disksize s"
    and room: "sec \<in> D \<or> card (H \<union> D) < NBUF"
  shows "\<exists>b s'. bread 1 sec s = Ok (b, s') \<and> bio_rel s' c (insert sec H) D \<and>
    handle s' b sec \<and> keeps_handles s s' \<and> bio_frame s s'"
proof (cases "\<exists>i<NBUF. b_dev (bufs s i) = 1 \<and> b_sector (bufs s i) = sec")
  case True
  with bread_hit_law [OF rel] assms(2) show ?thesis by blast
next
  case False
  have "sec \<notin> D" using False bio_relD(4) [OF rel] unfolding bio_relD(6) [OF rel] by blast
  with False room bread_miss_law [OF rel _ assms(3)] show ?thesis by blast
qed

text \<open>
  The other outcomes of \<^verbatim>\<open>bread\<close>: it sleeps on a block that is held, and panics when
  the block is not cached and every buffer is held or pinned.
\<close>

definition cached :: "'a bio_state_scheme \<Rightarrow> nat \<Rightarrow> bool" where
  "cached s sec \<longleftrightarrow> (\<exists>i<NBUF. b_dev (bufs s i) = 1 \<and> b_sector (bufs s i) = sec)"

lemma bread_busy:
  assumes rel: "bio_rel s c H D" and "sec \<in> H"
  shows "bread 1 sec s = Blocked"
proof -
  obtain xs where x: "lru (bufs s) xs" using bio_relD(1) [OF rel] by blast
  obtain i where i: "i < NBUF" "b_busy (bufs s i)" "b_sector (bufs s i) = sec"
    using assms(2) bio_relD(5) [OF rel] by blast
  then have dev: "b_dev (bufs s i) = 1" using bio_relD(4) [OF rel] by blast
  show ?thesis
    using i unfolding bread_def bget_def bget_cached_lru [OF x]
      find_cached [OF rel x i(1) dev i(3)] by simp
qed

lemma bread_full:
  assumes rel: "bio_rel s c H D" and un: "\<not> cached s sec" and "NBUF \<le> card (H \<union> D)"
  shows "bread 1 sec s = Panic ''bget: no buffers''"
proof -
  obtain xs where x: "lru (bufs s) xs" using bio_relD(1) [OF rel] by blast
  have f: "find (\<lambda>b. b_dev (bufs s b) = 1 \<and> b_sector (bufs s b) = sec) xs = None"
    using find_uncached [OF x] un unfolding cached_def by blast
  have "{i. i < NBUF \<and> (b_busy (bufs s i) \<or> b_dirty (bufs s i))} = {..<NBUF}"
    using assms(3) bio_rel_card [OF rel] by (intro card_seteq) auto
  then have "find (\<lambda>b. \<not> b_busy (bufs s b) \<and> \<not> b_dirty (bufs s b)) (rev xs) = None"
    using x by (auto simp: find_None_iff lru_def)
  then show ?thesis
    unfolding bread_def bget_def bget_cached_lru [OF x] bget_victim_lru [OF x] f by simp
qed

lemma bread_ok_law:
  assumes rel: "bio_rel s c H D" and "sec < disksize s" and ok: "bread 1 sec s = Ok (b, s')"
  shows "sec \<notin> H \<and> bio_rel s' c (insert sec H) D \<and> handle s' b sec \<and> keeps_handles s s' \<and>
    bio_frame s s'"
proof -
  have H: "sec \<notin> H" using bread_busy [OF rel] ok by auto
  show ?thesis
  proof (cases "cached s sec")
    case True
    then obtain i where "i < NBUF" "b_dev (bufs s i) = 1" "b_sector (bufs s i) = sec"
      unfolding cached_def by blast
    from bread_hit_law [OF rel this H] H ok show ?thesis by auto
  next
    case False
    then have "card (H \<union> D) < NBUF" using bread_full [OF rel] ok by fastforce
    with bread_law [OF rel H assms(2)] H ok show ?thesis by auto
  qed
qed

lemma set_data_law:
  assumes rel: "bio_rel s c H D" and h: "handle s b sec"
  shows "bio_rel (set_data b d s) (c(sec := d)) H D \<and> keeps_handles s (set_data b d s) \<and>
    bio_frame s (set_data b d s)"
proof -
  have b: "b < NBUF" "b_busy (bufs s b)" "b_dev (bufs s b) = 1" "b_sector (bufs s b) = sec"
    using h by (simp_all add: handle_def)
  have D: "b_dirty (bufs s b) \<longleftrightarrow> sec \<in> D"
    unfolding bio_relD(6) [OF rel] using bio_relD(2,4) [OF rel] b by blast
  have H: "sec \<in> H" using bio_rel_held [OF rel h] .
  have "bio_rel (set_data b d s) (c(sec := d)) H D"
    by (rule bio_rel_upd_buf [OF rel b(1), where v = "(bufs s b)\<lparr>b_data := d\<rparr>"])
      (use bio_rel_others [OF rel b(1,3,4)] bio_relD(3) [OF rel b(1,3)] bio_relD(7) [OF rel]
        b D H in \<open>auto simp: set_data_def\<close>)
  then show ?thesis by (auto simp: set_data_def keeps_handles_def handle_def)
qed

lemma set_dirty_law:
  assumes rel: "bio_rel s c H D" and h: "handle s b sec"
  shows "bio_rel (set_dirty b s) c H (insert sec D) \<and> keeps_handles s (set_dirty b s) \<and>
    bio_frame s (set_dirty b s)"
proof -
  have b: "b < NBUF" "b_busy (bufs s b)" "b_dev (bufs s b) = 1" "b_sector (bufs s b) = sec"
    using h by (simp_all add: handle_def)
  have H: "sec \<in> H" using bio_rel_held [OF rel h] .
  have "bio_rel (set_dirty b s) c H (insert sec D)"
    by (rule bio_rel_upd_buf [OF rel b(1), where v = "(bufs s b)\<lparr>b_dirty := True\<rparr>"])
      (use bio_rel_others [OF rel b(1,3,4)] bio_relD(3) [OF rel b(1,3)] bio_relD(7) [OF rel]
        b H in \<open>auto simp: set_dirty_def\<close>)
  then show ?thesis by (auto simp: set_dirty_def keeps_handles_def handle_def)
qed

lemma bwrite_law:
  assumes rel: "bio_rel s c H D" and h: "handle s b sec"
  shows "\<exists>s'. bwrite b s = Ok s' \<and> bio_rel s' c H (D - {sec}) \<and> keeps_handles s s' \<and>
    memdisk s' = (memdisk s)(sec := c sec) \<and> iotrace s' = iotrace s @ [(sec, c sec)] \<and>
    disksize s' = disksize s \<and> bio_state.more s' = bio_state.more s"
proof -
  have b: "b < NBUF" "b_busy (bufs s b)" "b_dev (bufs s b) = 1" "b_sector (bufs s b) = sec"
    using h by (simp_all add: handle_def)
  have v: "b_valid (bufs s b)" "sec < disksize s" "b_data (bufs s b) = c sec"
    using bio_relD(3) [OF rel b(1,3)] b by simp_all
  have H: "sec \<in> H" using bio_rel_held [OF rel h] .
  let ?v = "(bufs s b)\<lparr>b_dirty := False, b_valid := True\<rparr>"
  let ?s = "set_buf b ?v (s\<lparr>memdisk := (memdisk s)(sec := c sec),
    iotrace := iotrace s @ [(sec, c sec)]\<rparr>)"
  have eq: "bwrite b s = Ok ?s" using b v by (simp add: bwrite_def iderw_def)
  have "bio_rel ?s c H (D - {sec})"
    by (rule bio_rel_upd_buf [OF rel b(1), where v = ?v])
      (use bio_rel_others [OF rel b(1,3,4)] bio_relD(7) [OF rel] b v H in auto)
  then show ?thesis using eq by (auto simp: keeps_handles_def handle_def)
qed

lemma bio_rel_relink:
  assumes rel: "bio_rel s c H D" and "\<exists>xs. lru B xs"
    and "\<And>i. b_busy (B i) = b_busy (bufs s i)" "\<And>i. b_valid (B i) = b_valid (bufs s i)"
    and "\<And>i. b_dirty (B i) = b_dirty (bufs s i)" "\<And>i. b_dev (B i) = b_dev (bufs s i)"
    and "\<And>i. b_sector (B i) = b_sector (bufs s i)" "\<And>i. b_data (B i) = b_data (bufs s i)"
  shows "bio_rel (s\<lparr>bufs := B\<rparr>) c H D"
  using rel assms(2) unfolding bio_rel_def by (simp add: assms(3-8))

lemma brelse_law:
  assumes rel: "bio_rel s c H D" and h: "handle s b sec"
    and clean: "sec \<in> D \<or> c sec = memdisk s sec"
  shows "\<exists>s'. brelse b s = Ok s' \<and> bio_rel s' c (H - {sec}) D \<and> bio_frame s s' \<and>
    (\<forall>b' x. b' \<noteq> b \<longrightarrow> handle s b' x \<longrightarrow> handle s' b' x)"
proof -
  let ?B = "brelse_relink b (bufs s)"
  let ?s = "s\<lparr>bufs := ?B(b := (?B b)\<lparr>b_busy := False\<rparr>)\<rparr>"
  have b: "b < NBUF" "b_busy (bufs s b)" "b_dev (bufs s b) = 1" "b_sector (bufs s b) = sec"
    using h by (simp_all add: handle_def)
  have "\<exists>xs. lru ?B xs" using bio_relD(1) [OF rel] brelse_relink_lru b(1) by blast
  then have rel1: "bio_rel (s\<lparr>bufs := ?B\<rparr>) c H D"
    by (rule bio_rel_relink [OF rel]) (simp_all add: brelse_relink_fields)
  have b1: "b_dev (bufs (s\<lparr>bufs := ?B\<rparr>) b) = 1" "b_sector (bufs (s\<lparr>bufs := ?B\<rparr>) b) = sec"
    using b by (simp_all add: brelse_relink_fields)
  have D: "b_dirty (bufs s b) \<longleftrightarrow> sec \<in> D"
    unfolding bio_relD(6) [OF rel] using bio_relD(2,4) [OF rel] b by blast
  have "bio_rel ?s c (H - {sec}) D"
    by (rule bio_rel_upd_buf [OF rel1 b(1), where v = "(?B b)\<lparr>b_busy := False\<rparr>"])
      (use bio_rel_others [OF rel1 b(1) b1] bio_relD(3) [OF rel1 b(1) b1(1)]
        bio_relD(7) [OF rel1] b1 D clean in \<open>auto simp: brelse_relink_fields\<close>)
  moreover have "brelse b s = Ok ?s" using b by (simp add: brelse_def Let_def)
  ultimately show ?thesis
    by (auto simp: bio_frame_def handle_def brelse_relink_fields)
qed

lemma binit_law:
  assumes "\<And>i. i < NBUF \<Longrightarrow> \<not> b_busy (bufs s i) \<and> \<not> b_dirty (bufs s i)"
  shows "bio_rel (binit s) (memdisk s) {} {}" and "bio_frame s (binit s)"
proof -
  show "bio_frame s (binit s)" by (simp add: bio_frame_def binit_def Let_def)
  show "bio_rel (binit s) (memdisk s) {} {}"
    unfolding bio_rel_def using binit_lru [of s] assms
    by (auto simp: binit_def Let_def binit_fold_fields)
qed

section \<open>The cache meets its contract\<close>

interpretation bc: block_cache bio_rel handle "\<lambda>s b. b_data (bufs s b)" "bread 1" brelse bwrite
  set_data memdisk iotrace bio_frame NBUF disksize bio_state.more
proof (unfold_locales, goal_cases)
  case 1
  then show ?case using bread_law unfolding keeps_handles_def by blast
next
  case 2
  then show ?case using set_data_law unfolding keeps_handles_def by blast
next
  case 3
  then show ?case using bwrite_law unfolding keeps_handles_def by blast
next
  case 4
  then show ?case using brelse_law by blast
next
  case 5
  then show ?case by (rule bio_rel_handle_data)
next
  case 6
  then show ?case by (rule bio_rel_held)
next
  case 7
  then show ?case by (simp add: handle_def)
next
  case 8
  then show ?case using bio_relD(7) by blast
next
  case 9
  then show ?case by (simp add: bio_frame_def)
qed

section \<open>Properties of the buffer cache\<close>

text \<open>
  C10: the outcome of \<^verbatim>\<open>bread\<close> in every coherent state of the cache. A block somebody
  holds makes the caller sleep; an uncached block panics exactly when all NBUF buffers
  are held or pinned by the log; in every other case the caller gets a buffer it holds
  alone, with the current contents of the block; the cache stays coherent, whoever
  held a buffer still holds it, and the disk is not written.
\<close>

theorem bread_outcomes:
  assumes "bio_rel s c H D" and "sec < disksize s"
  shows "(bread 1 sec s = Blocked \<longleftrightarrow> sec \<in> H) \<and>
    (bread 1 sec s = Panic ''bget: no buffers'' \<longleftrightarrow>
      sec \<notin> H \<and> \<not> cached s sec \<and> card (H \<union> D) = NBUF) \<and>
    (sec \<notin> H \<and> (cached s sec \<or> card (H \<union> D) < NBUF) \<longrightarrow>
      (\<exists>b t. bread 1 sec s = Ok (b, t) \<and> handle t b sec \<and> b_data (bufs t b) = c sec \<and>
        bio_rel t c (insert sec H) D \<and> keeps_handles s t \<and> bio_frame s t))"
proof -
  have ok: "\<exists>b t. bread 1 sec s = Ok (b, t) \<and> handle t b sec \<and> b_data (bufs t b) = c sec \<and>
      bio_rel t c (insert sec H) D \<and> keeps_handles s t \<and> bio_frame s t"
    if a: "sec \<notin> H" "cached s sec \<or> card (H \<union> D) < NBUF"
  proof -
    have "\<exists>b t. bread 1 sec s = Ok (b, t)"
    proof (cases "cached s sec")
      case True
      then show ?thesis using bread_hit_law [OF assms(1)] a(1) unfolding cached_def by blast
    next
      case False
      then show ?thesis using bread_law [OF assms(1) a(1) assms(2)] a(2) by blast
    qed
    then show ?thesis using bread_ok_law [OF assms] bio_rel_handle_data by blast
  qed
  consider "sec \<in> H" | "sec \<notin> H" "\<not> cached s sec" "card (H \<union> D) = NBUF"
    | "sec \<notin> H" "cached s sec \<or> card (H \<union> D) < NBUF"
    using bio_rel_card_le [OF assms(1)] by linarith
  then show ?thesis
  proof cases
    case 1
    then show ?thesis using bread_busy [OF assms(1)] by simp
  next
    case 2
    then show ?thesis using bread_full [OF assms(1)] by simp
  next
    case 3
    then show ?thesis using ok by fastforce
  qed
qed

text \<open>The cache of a machine that was just started, for the examples.\<close>

definition example_cache :: "bio_state" where
  "example_cache = binit \<lparr>memdisk = (\<lambda>_. zero_block)(7 := zero_block[0 := 1]), disksize = 20,
     iotrace = [], bufs = (\<lambda>_. \<lparr>b_busy = False, b_valid = False, b_dirty = False, b_dev = 0,
       b_sector = 0, b_prev = 0, b_next = 0, b_data = zero_block\<rparr>)\<rparr>"

lemma example_cache_rel:
  "bio_rel example_cache ((\<lambda>_. zero_block)(7 := zero_block[0 := 1])) {} {}"
  "disksize example_cache = 20" "lru (bufs example_cache) (rev [0..<NBUF])"
proof -
  let ?s = "\<lparr>memdisk = (\<lambda>_. zero_block)(7 := zero_block[0 := 1]), disksize = 20,
     iotrace = [], bufs = (\<lambda>_. \<lparr>b_busy = False, b_valid = False, b_dirty = False, b_dev = 0,
       b_sector = 0, b_prev = 0, b_next = 0, b_data = zero_block\<rparr>)\<rparr>"
  show "bio_rel example_cache ((\<lambda>_. zero_block)(7 := zero_block[0 := 1])) {} {}"
    "disksize example_cache = 20"
    using binit_law [of ?s] by (simp_all add: example_cache_def bio_frame_def)
  show "lru (bufs example_cache) (rev [0..<NBUF])"
    unfolding example_cache_def by (rule binit_lru)
qed

theorem bread_outcomes_witness:
  "\<exists>b t. bread 1 7 example_cache = Ok (b, t) \<and> b_data (bufs t b) = zero_block[0 := 1] \<and>
     bread 1 7 t = Blocked"
proof -
  obtain b t where t: "bread 1 7 example_cache = Ok (b, t)" "b_data (bufs t b) = zero_block[0 := 1]"
    "bio_rel t ((\<lambda>_. zero_block)(7 := zero_block[0 := 1])) {7} {}" "bio_frame example_cache t"
    using bread_outcomes [OF example_cache_rel(1), of 7] example_cache_rel(2) by auto
  then show ?thesis
    using bread_outcomes [OF t(3), of 7] example_cache_rel(2) by (auto simp: bio_frame_def)
qed

text \<open>
  C11: the cache replaces the least recently used buffer. The ring is a list \<open>xs\<close> of
  all buffers, most recently released first: \<^verbatim>\<open>brelse\<close> moves the released buffer to its
  front and keeps the order of the others, and a miss in \<^verbatim>\<open>bget\<close> recycles the last
  buffer of the list that is neither held nor pinned.
\<close>

theorem bget_brelse_lru:
  assumes "lru (bufs s) xs" and "b < NBUF" and "b_busy (bufs s b)"
    and "\<forall>i<NBUF. \<not> (b_dev (bufs s i) = dev \<and> b_sector (bufs s i) = sec)"
  shows "(\<exists>t. brelse b s = Ok t \<and> lru (bufs t) (b # remove1 b xs) \<and> \<not> b_busy (bufs t b)) \<and>
    bget dev sec s = (case find (\<lambda>v. \<not> b_busy (bufs s v) \<and> \<not> b_dirty (bufs s v)) (rev xs) of
        None \<Rightarrow> Panic ''bget: no buffers''
      | Some v \<Rightarrow> Ok (v, set_buf v ((bufs s v)\<lparr>b_dev := dev, b_sector := sec, b_busy := True,
          b_valid := False, b_dirty := False\<rparr>) s))"
proof
  let ?B = "brelse_relink b (bufs s)"
  have "lru ?B (b # remove1 b xs)" by (rule brelse_relink_lru [OF assms(1,2)])
  then have "lru (?B(b := (?B b)\<lparr>b_busy := False\<rparr>)) (b # remove1 b xs)"
    by (subst lru_cong) auto
  then show "\<exists>t. brelse b s = Ok t \<and> lru (bufs t) (b # remove1 b xs) \<and> \<not> b_busy (bufs t b)"
    using assms(3) by (simp add: brelse_def Let_def)
  have "find (\<lambda>i. b_dev (bufs s i) = dev \<and> b_sector (bufs s i) = sec) xs = None"
    using assms(1,4) by (auto simp: find_None_iff lru_def)
  then show "bget dev sec s = (case find (\<lambda>v. \<not> b_busy (bufs s v) \<and> \<not> b_dirty (bufs s v)) (rev xs) of
        None \<Rightarrow> Panic ''bget: no buffers''
      | Some v \<Rightarrow> Ok (v, set_buf v ((bufs s v)\<lparr>b_dev := dev, b_sector := sec, b_busy := True,
          b_valid := False, b_dirty := False\<rparr>) s))"
    unfolding bget_def bget_cached_lru [OF assms(1)] bget_victim_lru [OF assms(1)]
    by (simp split: option.split)
qed

lemma example_cache_bufs:
  "i < NBUF \<Longrightarrow> b_dev (bufs example_cache i) = NODEV"
  by (simp add: example_cache_def binit_def Let_def binit_fold_fields)

theorem bget_brelse_lru_witness:
  "\<exists>(s :: bio_state) t. brelse 4 s = Ok t \<and> lru (bufs t) [4, 9, 8, 7, 6, 5, 3, 2, 1, 0]"
proof -
  let ?s = "set_buf 4 ((bufs example_cache 4)\<lparr>b_busy := True\<rparr>) example_cache"
  have l: "lru (bufs ?s) (rev [0..<NBUF])"
    using example_cache_rel(3) by (subst lru_cong [of _ "bufs example_cache"]) auto
  have "\<forall>i<NBUF. \<not> (b_dev (bufs ?s i) = 1 \<and> b_sector (bufs ?s i) = 3)"
    using example_cache_bufs by auto
  moreover have "4 # remove1 4 (rev [0..<NBUF]) = [4, 9, 8, 7, 6, 5, 3, 2, 1, 0]"
    by (simp add: upt_rec)
  ultimately show ?thesis
    using bget_brelse_lru [OF l, of 4 1 3] by auto
qed

end
