(* ===== verification/Xv6_Super.thy ===== *)
theory Xv6_Super
  imports Xv6_Bio
begin

text \<open>
  The super block (fs.h) and \<^verbatim>\<open>readsb\<close> (fs.c), which the log and the file system
  both start from.
\<close>

record superblock =
  sb_size :: nat
  sb_nblocks :: nat
  sb_ninodes :: nat
  sb_nlog :: nat
  sb_refCount1 :: nat
  sb_refCount2 :: nat

text \<open>The bytes of a block read as a \<^verbatim>\<open>struct superblock\<close>.\<close>

definition sb_of_block :: "block \<Rightarrow> superblock" where
  "sb_of_block d = \<lparr>sb_size = get32 d 0, sb_nblocks = get32 d 4, sb_ninodes = get32 d 8,
     sb_nlog = get32 d 12, sb_refCount1 = get32 d 16, sb_refCount2 = get32 d 20\<rparr>"

definition readsb :: "nat \<Rightarrow> 'a bio_state_scheme \<Rightarrow> (superblock \<times> 'a bio_state_scheme) outcome" where
  "readsb dev s =
     andthen (bread dev 1 s) (\<lambda>(bp, s).
       let sb = sb_of_block (b_data (bufs s bp))
       in andthen (brelse bp s) (\<lambda>s. Ok (sb, s)))"

lemma readsb_law:
  assumes "bio_rel s c H D" and "1 \<notin> H" and "1 < disksize s" and "1 \<in> D \<or> card (H \<union> D) < NBUF"
  shows "\<exists>s'. readsb 1 s = Ok (sb_of_block (c 1), s') \<and> bio_rel s' c H D \<and>
    keeps_handles s s' \<and> bio_frame s s'"
proof -
  obtain b t u where "bread 1 1 s = Ok (b, t)" "b_data (bufs t b) = c 1" "brelse b t = Ok u"
      "bio_rel u c H D" "\<forall>b' x. handle s b' x \<longrightarrow> handle u b' x" "bio_frame s u"
    using bc.peek [OF assms] unfolding bio_frame_def by metis
  then show ?thesis by (auto simp: readsb_def keeps_handles_def)
qed

text \<open>The super block that mkfs.c writes: \<^verbatim>\<open>size\<close>, \<^verbatim>\<open>nblocks\<close>, \<^verbatim>\<open>ninodes\<close>, \<^verbatim>\<open>nlog\<close> and the
  two reference count blocks after the bitmap.\<close>

definition mkfs_super :: block where
  "mkfs_super = (let bitblocks = 1026 div (512 * 8) + 1; usedblocks = 200 div 8 + 3 + bitblocks
     in put32 (put32 (put32 (put32 (put32 (put32 zero_block 0 1026) 4 985) 8 200) 12 10)
          16 usedblocks) 20 (usedblocks + 1))"

lemma mkfs_super_fields:
  "sb_of_block mkfs_super = \<lparr>sb_size = 1026, sb_nblocks = 985, sb_ninodes = 200, sb_nlog = 10,
     sb_refCount1 = 29, sb_refCount2 = 30\<rparr>"
  by (simp add: sb_of_block_def mkfs_super_def layout)

end
