(* ===== verification/Xv6_Txn_Spec.thy ===== *)
theory Xv6_Txn_Spec
  imports Xv6_Prelude
begin

text \<open>
  The contract between the log and the file system code above it. \<open>rel s base post H L\<close>
  relates a state inside a transaction to the home blocks \<open>base\<close> that a crash would
  bring back, the home blocks \<open>post\<close> that a commit would install, the held blocks
  \<open>H\<close> and the list \<open>L\<close> of logged blocks in slot order.
\<close>

definition log_add :: "nat \<Rightarrow> nat list \<Rightarrow> nat list" where
  "log_add sec L = (if sec \<in> set L then L else L @ [sec])"

lemma set_log_add [simp]: "set (log_add sec L) = insert sec (set L)"
  by (auto simp: log_add_def)

lemma length_log_add: "length (log_add sec L) \<le> length L + 1"
  by (simp add: log_add_def)

locale txn_store =
  fixes rel :: "'s \<Rightarrow> (nat \<Rightarrow> block) \<Rightarrow> (nat \<Rightarrow> block) \<Rightarrow> nat set \<Rightarrow> nat list \<Rightarrow> bool"
    and holds :: "'s \<Rightarrow> nat \<Rightarrow> nat \<Rightarrow> bool"
    and data_of :: "'s \<Rightarrow> nat \<Rightarrow> block"
    and get :: "nat \<Rightarrow> 's \<Rightarrow> (nat \<times> 's) outcome"
    and put :: "nat \<Rightarrow> 's \<Rightarrow> 's outcome"
    and flush :: "nat \<Rightarrow> 's \<Rightarrow> 's outcome"
    and logw :: "nat \<Rightarrow> 's \<Rightarrow> 's outcome"
    and change :: "nat \<Rightarrow> block \<Rightarrow> 's \<Rightarrow> 's"
    and home :: "'s \<Rightarrow> nat"
    and limit :: "'s \<Rightarrow> nat"
    and cap :: nat
    and rest :: "'s \<Rightarrow> 'r"
  assumes get_law: "rel s base post H L \<Longrightarrow> sec \<notin> H \<Longrightarrow> sec < home s \<Longrightarrow>
      sec \<in> set L \<or> card (H \<union> set L) < cap \<Longrightarrow>
      \<exists>b t. get sec s = Ok (b, t) \<and> rel t base post (insert sec H) L \<and> holds t b sec \<and>
        (\<forall>b' x. holds s b' x \<longrightarrow> holds t b' x) \<and> rest t = rest s"
    and put_law: "rel s base post H L \<Longrightarrow> holds s b sec \<Longrightarrow>
      \<exists>t. put b s = Ok t \<and> rel t base post (H - {sec}) L \<and>
        (\<forall>b' x. b' \<noteq> b \<longrightarrow> holds s b' x \<longrightarrow> holds t b' x) \<and> rest t = rest s"
    and log_law: "rel s base post H L \<Longrightarrow> holds s b sec \<Longrightarrow> length L < limit s \<Longrightarrow>
      card (H \<union> set L) < cap \<Longrightarrow>
      \<exists>t. logw b (change b d s) = Ok t \<and> rel t base (post(sec := d)) H (log_add sec L) \<and>
        (\<forall>b' x. holds s b' x \<longrightarrow> holds t b' x) \<and> rest t = rest s"
    and direct_law: "rel s base post H L \<Longrightarrow> holds s b sec \<Longrightarrow> sec \<notin> set L \<Longrightarrow>
      \<exists>t. flush b (change b d s) = Ok t \<and> rel t (base(sec := d)) (post(sec := d)) H L \<and>
        (\<forall>b' x. holds s b' x \<longrightarrow> holds t b' x) \<and> rest t = rest s"
    and data_law: "rel s base post H L \<Longrightarrow> holds s b sec \<Longrightarrow> data_of s b = post sec"
    and held_law: "rel s base post H L \<Longrightarrow> holds s b sec \<Longrightarrow> sec \<in> H"
    and holds_unique: "holds s b x \<Longrightarrow> holds s b y \<Longrightarrow> x = y"
    and finite_law: "rel s base post H L \<Longrightarrow> finite H"
    and rest_law: "rest t = rest s \<Longrightarrow> home t = home s \<and> limit t = limit s"
begin

text \<open>Holding a block and putting it back gives the held set from before.\<close>

lemma get_put:
  assumes "rel s base post H L" and "sec \<notin> H"
    and "\<forall>b' x. holds s b' x \<longrightarrow> holds t b' x" and "holds t b sec"
    and "rel t base' post' (insert sec H) L'"
  shows "\<exists>u. put b t = Ok u \<and> rel u base' post' H L' \<and> (\<forall>b' x. holds s b' x \<longrightarrow> holds u b' x) \<and>
    rest u = rest t"
proof -
  obtain u where u: "put b t = Ok u" "rel u base' post' (insert sec H - {sec}) L'"
      "\<forall>b' x. b' \<noteq> b \<longrightarrow> holds t b' x \<longrightarrow> holds u b' x" "rest u = rest t"
    using put_law [OF assms(5,4)] by blast
  have "b' \<noteq> b" if "holds s b' x" for b' x
    using that assms(2-4) holds_unique held_law [OF assms(1)] by metis
  then have "\<forall>b' x. holds s b' x \<longrightarrow> holds u b' x" using u(3) assms(3) by blast
  moreover have "insert sec H - {sec} = H" using assms(2) by auto
  ultimately show ?thesis using u by auto
qed

text \<open>Get a block, look at it, put it back.\<close>

lemma peek:
  assumes "rel s base post H L" and "sec \<notin> H" and "sec < home s"
    and "sec \<in> set L \<or> card (H \<union> set L) < cap"
  shows "\<exists>b t u. get sec s = Ok (b, t) \<and> data_of t b = post sec \<and> put b t = Ok u \<and>
    rest t = rest s \<and> rel u base post H L \<and> (\<forall>b' x. holds s b' x \<longrightarrow> holds u b' x) \<and>
    rest u = rest s"
proof -
  obtain b t where t: "get sec s = Ok (b, t)" "rel t base post (insert sec H) L" "holds t b sec"
      "\<forall>b' x. holds s b' x \<longrightarrow> holds t b' x" "rest t = rest s"
    using get_law [OF assms] by blast
  obtain u where "put b t = Ok u" "rel u base post H L" "\<forall>b' x. holds s b' x \<longrightarrow> holds u b' x"
      "rest u = rest t"
    using get_put [OF assms(1,2) t(4,3,2)] by blast
  then show ?thesis using t data_law [OF t(2,3)] by auto
qed

text \<open>Get a block, change it, log it, put it back.\<close>

lemma update:
  assumes "rel s base post H L" and "sec \<notin> H" and "sec < home s" and "length L < limit s"
    and "card (insert sec H \<union> set L) < cap"
  shows "\<exists>b t u v. get sec s = Ok (b, t) \<and> data_of t b = post sec \<and> rest t = rest s \<and>
    logw b (change b d t) = Ok u \<and> rest u = rest s \<and> put b u = Ok v \<and>
    rel v base (post(sec := d)) H (log_add sec L) \<and>
    (\<forall>b' x. holds s b' x \<longrightarrow> holds v b' x) \<and> rest v = rest s"
proof -
  have "card (H \<union> set L) \<le> card (insert sec H \<union> set L)"
    using finite_law [OF assms(1)] by (intro card_mono) auto
  then obtain b t where t: "get sec s = Ok (b, t)" "rel t base post (insert sec H) L" "holds t b sec"
      "\<forall>b' x. holds s b' x \<longrightarrow> holds t b' x" "rest t = rest s"
    using get_law [OF assms(1-3)] assms(5) by auto
  have "length L < limit t" using assms(4) rest_law [OF t(5)] by simp
  then obtain u where u: "logw b (change b d t) = Ok u"
      "rel u base (post(sec := d)) (insert sec H) (log_add sec L)"
      "\<forall>b' x. holds t b' x \<longrightarrow> holds u b' x" "rest u = rest t"
    using log_law [OF t(2,3) _ assms(5)] by blast
  have h: "\<forall>b' x. holds s b' x \<longrightarrow> holds u b' x" "holds u b sec" using t u by blast+
  obtain v where "put b u = Ok v" "rel v base (post(sec := d)) H (log_add sec L)"
      "\<forall>b' x. holds s b' x \<longrightarrow> holds v b' x" "rest v = rest u"
    using get_put [OF assms(1,2) h u(2)] by blast
  then show ?thesis using t u data_law [OF t(2,3)] by auto
qed

text \<open>Get a block, change it, write it to its home at once, put it back.\<close>

lemma direct_update:
  assumes "rel s base post H L" and "sec \<notin> H" and "sec < home s" and "sec \<notin> set L"
    and "card (H \<union> set L) < cap"
  shows "\<exists>b t u v. get sec s = Ok (b, t) \<and> data_of t b = post sec \<and> rest t = rest s \<and>
    flush b (change b d t) = Ok u \<and> rest u = rest s \<and> put b u = Ok v \<and>
    rel v (base(sec := d)) (post(sec := d)) H L \<and>
    (\<forall>b' x. holds s b' x \<longrightarrow> holds v b' x) \<and> rest v = rest s"
proof -
  obtain b t where t: "get sec s = Ok (b, t)" "rel t base post (insert sec H) L" "holds t b sec"
      "\<forall>b' x. holds s b' x \<longrightarrow> holds t b' x" "rest t = rest s"
    using get_law [OF assms(1-3)] assms(5) by auto
  obtain u where u: "flush b (change b d t) = Ok u"
      "rel u (base(sec := d)) (post(sec := d)) (insert sec H) L"
      "\<forall>b' x. holds t b' x \<longrightarrow> holds u b' x" "rest u = rest t"
    using direct_law [OF t(2,3) assms(4)] by blast
  have h: "\<forall>b' x. holds s b' x \<longrightarrow> holds u b' x" "holds u b sec" using t u by blast+
  obtain v where "put b u = Ok v" "rel v (base(sec := d)) (post(sec := d)) H L"
      "\<forall>b' x. holds s b' x \<longrightarrow> holds v b' x" "rest v = rest u"
    using get_put [OF assms(1,2) h u(2)] by blast
  then show ?thesis using t u data_law [OF t(2,3)] by auto
qed

end

end
