(* ===== verification/Xv6_Log.thy ===== *)
theory Xv6_Log
  imports Xv6_Super Xv6_Txn_Spec
begin

text \<open>
  The write-ahead log of log.c. A transaction collects changed blocks in the log
  area at the end of the disk; \<^verbatim>\<open>commit_trans\<close> writes the header block (the commit
  point), copies the blocks home and clears the header; \<^verbatim>\<open>recover_from_log\<close> redoes
  the copying after a crash.
\<close>

abbreviation LOGSIZE :: nat where "LOGSIZE \<equiv> 10"
abbreviation ROOTDEV :: nat where "ROOTDEV \<equiv> 1"

section \<open>Data\<close>

record log_state = bio_state +
  log_start :: nat
  log_size :: int
  log_busy :: bool
  log_dev :: nat
  lh_n :: int
  lh_sector :: "nat list"

section \<open>Operations\<close>

text \<open>
  The header block holds \<^verbatim>\<open>int n\<close> and \<^verbatim>\<open>int sector[LOGSIZE]\<close>. The array of the
  in-memory header has LOGSIZE elements; a larger \<^verbatim>\<open>n\<close> on disk would write past it.
\<close>

definition head_n :: "block \<Rightarrow> int" where
  "head_n d = int_of (get32 d 0)"

definition head_sector :: "block \<Rightarrow> nat \<Rightarrow> nat" where
  "head_sector d i = get32 d (4 + 4 * i)"

definition put_head :: "int \<Rightarrow> nat list \<Rightarrow> block \<Rightarrow> block" where
  "put_head n secs d =
     fold (\<lambda>i d. put32 d (4 + 4 * i) (secs ! i)) [0..<nat n] (put32 d 0 (of_int32 n))"

definition install_one :: "nat \<Rightarrow> 'a log_state_scheme \<Rightarrow> 'a log_state_scheme outcome" where
  "install_one tail s =
     andthen (bread (log_dev s) (w32 (log_start s + tail + 1)) s) (\<lambda>(lbuf, s).
     andthen (bread (log_dev s) (lh_sector s ! tail) s) (\<lambda>(dbuf, s).
       let s = set_data dbuf (b_data (bufs s lbuf)) s in
     andthen (bwrite dbuf s) (\<lambda>s.
     andthen (brelse lbuf s) (\<lambda>s.
       brelse dbuf s))))"

definition install_trans :: "'a log_state_scheme \<Rightarrow> 'a log_state_scheme outcome" where
  "install_trans s = for_each install_one [0..<nat (lh_n s)] s"

definition read_head :: "'a log_state_scheme \<Rightarrow> 'a log_state_scheme outcome" where
  "read_head s =
     andthen (bread (log_dev s) (log_start s) s) (\<lambda>(b, s).
       let d = b_data (bufs s b);
           s = s\<lparr>lh_n := head_n d\<rparr>
       in if int LOGSIZE < lh_n s then Undef
          else let s = s\<lparr>lh_sector := fold (\<lambda>i xs. xs[i := head_sector d i])
                    [0..<nat (lh_n s)] (lh_sector s)\<rparr>
               in brelse b s)"

definition write_head :: "'a log_state_scheme \<Rightarrow> 'a log_state_scheme outcome" where
  "write_head s =
     andthen (bread (log_dev s) (log_start s) s) (\<lambda>(b, s).
       let s = set_data b (put_head (lh_n s) (lh_sector s) (b_data (bufs s b))) s in
     andthen (bwrite b s) (\<lambda>s. brelse b s))"

definition recover_from_log :: "'a log_state_scheme \<Rightarrow> 'a log_state_scheme outcome" where
  "recover_from_log s =
     andthen (read_head s) (\<lambda>s.
     andthen (install_trans s) (\<lambda>s.
       write_head (s\<lparr>lh_n := 0\<rparr>)))"

definition initlog :: "'a log_state_scheme \<Rightarrow> 'a log_state_scheme outcome" where
  "initlog s =
     (if 4 + 4 * LOGSIZE \<ge> BSIZE then Panic ''initlog: too big logheader''
      else andthen (readsb ROOTDEV s) (\<lambda>(sb, s).
        recover_from_log (s\<lparr>log_start := w32 (sb_size sb + 4294967296 - sb_nlog sb),
          log_size := int_of (sb_nlog sb), log_dev := ROOTDEV\<rparr>)))"

definition begin_trans :: "'a log_state_scheme \<Rightarrow> 'a log_state_scheme outcome" where
  "begin_trans s = (if log_busy s then Blocked else Ok (s\<lparr>log_busy := True\<rparr>))"

definition commit_trans :: "'a log_state_scheme \<Rightarrow> 'a log_state_scheme outcome" where
  "commit_trans s =
     andthen
       (if 0 < lh_n s
        then andthen (write_head s) (\<lambda>s.
             andthen (install_trans s) (\<lambda>s.
               write_head (s\<lparr>lh_n := 0\<rparr>)))
        else Ok s)
       (\<lambda>s. Ok (s\<lparr>log_busy := False\<rparr>))"

text \<open>The slot of the log that \<^verbatim>\<open>log_write\<close> uses: an absorbed block keeps its slot.\<close>

definition log_slot :: "nat \<Rightarrow> 'a log_state_scheme \<Rightarrow> nat" where
  "log_slot sec s = length (takeWhile (\<lambda>x. x \<noteq> sec) (take (nat (lh_n s)) (lh_sector s)))"

definition log_write :: "nat \<Rightarrow> 'a log_state_scheme \<Rightarrow> 'a log_state_scheme outcome" where
  "log_write b s =
     (if int LOGSIZE \<le> lh_n s \<or> log_size s - 1 \<le> lh_n s then Panic ''too big a transaction''
      else if \<not> log_busy s then Panic ''write outside of trans''
      else let i = log_slot (b_sector (bufs s b)) s;
               s = s\<lparr>lh_sector := (lh_sector s)[i := b_sector (bufs s b)]\<rparr>
           in andthen (bread (b_dev (bufs s b)) (w32 (log_start s + i + 1)) s) (\<lambda>(lbuf, s).
                let s = set_data lbuf (b_data (bufs s b)) s in
              andthen (bwrite lbuf s) (\<lambda>s.
              andthen (brelse lbuf s) (\<lambda>s.
                let s = (if int i = lh_n s then s\<lparr>lh_n := lh_n s + 1\<rparr> else s)
                in Ok (set_dirty b s)))))"

section \<open>The header block\<close>

lemma length_put_fold [simp]:
  "length (fold (\<lambda>i d. put32 d (4 + 4 * i) (secs ! i)) xs d) = length d"
  by (induction xs arbitrary: d) auto

lemma length_put_head [simp]: "length (put_head n secs d) = length d"
  by (simp add: put_head_def)

lemma put_head_fold:
  assumes "length d = BSIZE" and "n \<le> LOGSIZE"
  shows "get32 (fold (\<lambda>i d. put32 d (4 + 4 * i) (secs ! i)) [0..<n] d) 0 = get32 d 0 \<and>
    (\<forall>i<n. get32 (fold (\<lambda>i d. put32 d (4 + 4 * i) (secs ! i)) [0..<n] d) (4 + 4 * i) =
       w32 (secs ! i))"
  using assms(2)
proof (induction n)
  case (Suc n)
  with assms(1) show ?case by (auto simp: less_Suc_eq layout)
qed simp

lemma put_head_n:
  assumes "length d = BSIZE" and "0 \<le> n" and "n \<le> int LOGSIZE"
  shows "head_n (put_head n secs d) = n"
  using assms put_head_fold [of "put32 d 0 (of_int32 n)" "nat n" secs]
  by (auto simp: put_head_def head_n_def layout int_of_def of_int32_def)

lemma put_head_sector:
  assumes "length d = BSIZE" and "n \<le> LOGSIZE" and "i < n" and "secs ! i < 2 ^ 32"
  shows "head_sector (put_head (int n) secs d) i = secs ! i"
  using assms put_head_fold [of "put32 d 0 (of_int32 (int n))" n secs]
  by (simp add: put_head_def head_sector_def layout)

lemma log_fields_more:
  assumes "bio_state.more s' = bio_state.more (s :: 'a log_state_scheme)"
  shows "log_start s' = log_start s" "log_size s' = log_size s" "log_busy s' = log_busy s"
    "log_dev s' = log_dev s" "lh_n s' = lh_n s" "lh_sector s' = lh_sector s"
    "log_state.more s' = log_state.more s"
  using assms by (cases s; cases s'; simp)+

lemma bio_rel_log_upd [simp]:
  "bio_rel (s\<lparr>lh_n := n\<rparr>) = bio_rel s" "bio_rel (s\<lparr>lh_sector := l\<rparr>) = bio_rel s"
  "bio_rel (s\<lparr>log_busy := x\<rparr>) = bio_rel s" "bio_rel (s\<lparr>log_start := y\<rparr>) = bio_rel s"
  "bio_rel (s\<lparr>log_size := z\<rparr>) = bio_rel s" "bio_rel (s\<lparr>log_dev := y\<rparr>) = bio_rel s"
  by (intro ext; simp add: bio_rel_def)+

lemma handle_log_upd [simp]:
  "handle (s\<lparr>lh_n := n\<rparr>) = handle s" "handle (s\<lparr>lh_sector := l\<rparr>) = handle s"
  "handle (s\<lparr>log_busy := x\<rparr>) = handle s" 
  by (intro ext; simp add: handle_def)+
section \<open>The log relation\<close>

definition log_mem :: "'a log_state_scheme \<Rightarrow> nat list \<Rightarrow> bool" where
  "log_mem s L \<longleftrightarrow> log_dev s = 1 \<and> length (lh_sector s) = LOGSIZE \<and>
     lh_n s = int (length L) \<and> take (length L) (lh_sector s) = L \<and> distinct L \<and>
     length L < NBUF \<and> int (length L) < log_size s \<and> (\<forall>x\<in>set L. x < log_start s) \<and>
     int (log_start s) + log_size s \<le> int (disksize s) \<and> disksize s < 2 ^ 32"

definition log_disk :: "'a log_state_scheme \<Rightarrow> (nat \<Rightarrow> block) \<Rightarrow> (nat \<Rightarrow> block) \<Rightarrow> nat list \<Rightarrow> bool"
  where
  "log_disk s base post L \<longleftrightarrow> (\<forall>x<log_start s. memdisk s x = base x) \<and>
     length (memdisk s (log_start s)) = BSIZE \<and> head_n (memdisk s (log_start s)) = 0 \<and>
     (\<forall>i<length L. memdisk s (log_start s + i + 1) = post (L ! i)) \<and>
     (\<forall>x. x \<notin> set L \<longrightarrow> post x = base x)"

definition log_rel :: "'a log_state_scheme \<Rightarrow> (nat \<Rightarrow> block) \<Rightarrow> (nat \<Rightarrow> block) \<Rightarrow> (nat \<Rightarrow> block) \<Rightarrow>
    nat set \<Rightarrow> nat list \<Rightarrow> bool" where
  "log_rel s base post c H L \<longleftrightarrow> bio_rel s c H (set L) \<and> log_mem s L \<and> log_disk s base post L \<and>
     (\<forall>x\<in>H. x < log_start s) \<and> (\<forall>x<log_start s. x \<notin> H \<longrightarrow> c x = post x)"

definition log_limit :: "'a log_state_scheme \<Rightarrow> nat" where
  "log_limit s = (if log_busy s then min LOGSIZE (nat (log_size s - 1)) else 0)"

definition log_rest :: "'a log_state_scheme \<Rightarrow> nat \<times> int \<times> bool \<times> nat \<times> 'a" where
  "log_rest s = (log_start s, log_size s, log_busy s, disksize s, log_state.more s)"

lemma log_restD:
  assumes "log_rest t = log_rest s"
  shows "log_start t = log_start s" "log_size t = log_size s" "log_busy t = log_busy s"
    "disksize t = disksize s" "log_state.more t = log_state.more s" "log_limit t = log_limit s"
  using assms by (simp_all add: log_rest_def log_limit_def)

lemma log_rel_frame:
  assumes "log_rel s base post c H L" and f: "bio_frame s t" and "bio_rel t c' H' (set L)"
    and "\<forall>x\<in>H'. x < log_start s" and "\<forall>x<log_start s. x \<notin> H' \<longrightarrow> c' x = post x"
  shows "log_rel t base post c' H' L \<and> log_rest t = log_rest s"
proof -
  have m: "bio_state.more t = bio_state.more s" and d: "memdisk t = memdisk s" "disksize t = disksize s"
    using f by (simp_all add: bio_frame_def)
  show ?thesis
    using assms(1,3-5) unfolding log_rel_def log_mem_def log_disk_def log_rest_def
      log_fields_more [OF m] d by blast
qed

lemma log_bread_law:
  assumes "log_rel s base post c H L" and "sec \<notin> H" and "sec < log_start s"
    and "sec \<in> set L \<or> card (H \<union> set L) < NBUF"
  shows "\<exists>b t. bread 1 sec s = Ok (b, t) \<and> log_rel t base post c (insert sec H) L \<and>
    handle t b sec \<and> keeps_handles s t \<and> log_rest t = log_rest s"
proof -
  have "sec < disksize s" "bio_rel s c H (set L)"
    using assms by (simp_all add: log_rel_def log_mem_def)
  from bread_law [OF this(2) assms(2) this(1) assms(4)] obtain b t where
    "bread 1 sec s = Ok (b, t)" "bio_rel t c (insert sec H) (set L)" "handle t b sec"
    "keeps_handles s t" "bio_frame s t" by blast
  with log_rel_frame [OF assms(1) this(5,2)] assms(1,3) show ?thesis
    unfolding log_rel_def by auto
qed

lemma log_set_data_law:
  assumes rel: "log_rel s base post c H L" and h: "handle s b sec"
  shows "log_rel (set_data b d s) base post (c(sec := d)) H L \<and>
    keeps_handles s (set_data b d s) \<and> log_rest (set_data b d s) = log_rest s"
proof -
  have b: "bio_rel s c H (set L)" using rel by (simp add: log_rel_def)
  have "sec \<in> H" using bio_rel_held [OF b h] .
  then have "\<forall>x<log_start s. x \<notin> H \<longrightarrow> (c(sec := d)) x = post x" "\<forall>x\<in>H. x < log_start s"
    using rel unfolding log_rel_def by auto
  with log_rel_frame [OF rel, of "set_data b d s" "c(sec := d)" H] set_data_law [OF b h, of d]
  show ?thesis by blast
qed

lemma log_brelse_law:
  assumes rel: "log_rel s base post c H L" and h: "handle s b sec" and eq: "c sec = post sec"
  shows "\<exists>t. brelse b s = Ok t \<and> log_rel t base post c (H - {sec}) L \<and> log_rest t = log_rest s \<and>
    (\<forall>b' x. b' \<noteq> b \<longrightarrow> handle s b' x \<longrightarrow> handle t b' x)"
proof -
  have b: "bio_rel s c H (set L)" using rel by (simp add: log_rel_def)
  have "sec \<in> H" using bio_rel_held [OF b h] .
  then have "sec < log_start s" using rel by (simp add: log_rel_def)
  then have "sec \<in> set L \<or> c sec = memdisk s sec"
    using rel eq unfolding log_rel_def log_disk_def by auto
  from brelse_law [OF b h this] obtain t where t: "brelse b s = Ok t"
    "bio_rel t c (H - {sec}) (set L)" "bio_frame s t"
    "\<forall>b' x. b' \<noteq> b \<longrightarrow> handle s b' x \<longrightarrow> handle t b' x" by blast
  show ?thesis
    using log_rel_frame [OF rel t(3,2)] t rel eq unfolding log_rel_def by auto
qed

lemma log_bwrite_law:
  assumes rel: "log_rel s base post c H L" and h: "handle s b sec" and n: "sec \<notin> set L"
  shows "\<exists>t. bwrite b s = Ok t \<and>
    log_rel t (base(sec := c sec)) (post(sec := c sec)) c H L \<and> keeps_handles s t \<and>
    log_rest t = log_rest s"
proof -
  have b: "bio_rel s c H (set L)" using rel by (simp add: log_rel_def)
  have "sec \<in> H" using bio_rel_held [OF b h] .
  then have sec: "sec < log_start s" using rel by (simp add: log_rel_def)
  from bwrite_law [OF b h] n obtain t where t: "bwrite b s = Ok t" "bio_rel t c H (set L)"
    "keeps_handles s t" "memdisk t = (memdisk s)(sec := c sec)" "disksize t = disksize s"
    and m: "bio_state.more t = bio_state.more s" by auto
  have "log_disk t (base(sec := c sec)) (post(sec := c sec)) L"
    using rel n sec unfolding log_rel_def log_disk_def t log_fields_more [OF m]
    by auto
  moreover have "log_mem t L" "log_start t = log_start s" "log_rest t = log_rest s"
    using rel unfolding log_rel_def log_mem_def log_rest_def log_fields_more [OF m] t(5) by simp_all
  ultimately show ?thesis
    using t rel unfolding log_rel_def by auto
qed

lemma log_slot_eq:
  assumes "log_mem s L"
  shows "log_slot sec s = length (takeWhile (\<lambda>x. x \<noteq> sec) L)"
  using assms by (simp add: log_slot_def log_mem_def)

lemma log_slot_new: "sec \<notin> set L \<Longrightarrow> takeWhile (\<lambda>x. x \<noteq> sec) L = L"
  by (auto simp: takeWhile_eq_all_conv)

lemma log_slot_old:
  assumes "sec \<in> set L"
  shows "length (takeWhile (\<lambda>x. x \<noteq> sec) L) < length L"
    and "L ! length (takeWhile (\<lambda>x. x \<noteq> sec) L) = sec"
proof -
  have "takeWhile (\<lambda>x. x \<noteq> sec) L \<noteq> L" using assms by (auto simp: takeWhile_eq_all_conv)
  then show "length (takeWhile (\<lambda>x. x \<noteq> sec) L) < length L"
    by (metis length_takeWhile_le nat_less_le takeWhile_eq_take take_all_iff)
  then show "L ! length (takeWhile (\<lambda>x. x \<noteq> sec) L) = sec"
    using nth_length_takeWhile by blast
qed

lemma log_add_slot:
  fixes sec :: nat
  assumes "take (length L) l = L" and "length L < length l"
  defines "i \<equiv> length (takeWhile (\<lambda>x. x \<noteq> sec) L)"
  shows "take (length (log_add sec L)) (l[i := sec]) = log_add sec L"
    and "i < length (log_add sec L)" and "log_add sec L ! i = sec"
    and "int (length (log_add sec L)) = (if i = length L then int (length L) + 1 else int (length L))"
proof -
  show "take (length (log_add sec L)) (l[i := sec]) = log_add sec L"
  proof (cases "sec \<in> set L")
    case True
    then have "L[i := sec] = L" using log_slot_old [OF True] unfolding i_def by (metis list_update_id)
    with True assms(1) show ?thesis
      by (simp add: log_add_def take_update_swap)
  next
    case False
    then show ?thesis using assms(1,2)
      by (simp add: log_add_def i_def log_slot_new take_Suc_conv_app_nth take_update_swap)
  qed
  show "i < length (log_add sec L)" "log_add sec L ! i = sec"
    "int (length (log_add sec L)) = (if i = length L then int (length L) + 1 else int (length L))"
    using log_slot_old [of sec L] by (auto simp: i_def log_add_def log_slot_new nth_append)
qed

lemma handle_fields: "handle s b sec \<Longrightarrow> b_sector (bufs s b) = sec \<and> b_dev (bufs s b) = 1"
  by (simp add: handle_def)

text \<open>The whole effect of \<^verbatim>\<open>log_write\<close> on the state, before it is read as a step of the log.\<close>

lemma log_write_effect:
  assumes b: "bio_rel s c H (set L)" and m: "log_mem s L" and Hs: "\<forall>x\<in>H. x \<le> log_start s"
    and h: "handle s b sec" and lim: "length L < log_limit s" and room: "card (H \<union> set L) < NBUF"
  defines "i \<equiv> length (takeWhile (\<lambda>x. x \<noteq> sec) L)"
  defines "a \<equiv> log_start s + i + 1"
  shows "\<exists>t. log_write b s = Ok t \<and> bio_rel t (c(a := c sec)) H (insert sec (set L)) \<and>
    keeps_handles s t \<and> memdisk t = (memdisk s)(a := c sec) \<and> log_rest t = log_rest s \<and>
    iotrace t = iotrace s @ [(a, c sec)] \<and>
    log_dev t = log_dev s \<and> lh_sector t = (lh_sector s)[i := sec] \<and>
    lh_n t = int (length (log_add sec L))"
proof -
  have lim': "lh_n s < int LOGSIZE" "lh_n s < log_size s - 1" "log_busy s" "length L < LOGSIZE"
    "int (length L) < log_size s - 1" "length (lh_sector s) = LOGSIZE"
    using lim m by (auto simp: log_limit_def log_mem_def split: if_splits)
  have i: "i \<le> length L" by (simp add: i_def length_takeWhile_le)
  have a: "a \<notin> H" "a \<notin> set L" "a < disksize s" "w32 a = a"
    using Hs m i lim'(5) unfolding a_def log_mem_def by auto
  let ?s = "s\<lparr>lh_sector := (lh_sector s)[i := sec]\<rparr>"
  have b': "bio_rel ?s c H (set L)" and h': "handle ?s b sec" and a': "a < disksize ?s"
    using b h a by simp_all
  from bc.write_through [OF b' a(1) a' room a(2), of "c sec"] obtain l t u v where
    t: "bread 1 a ?s = Ok (l, t)" "bio_rel t c (insert a H) (set L)"
      "\<forall>b' x. handle ?s b' x \<longrightarrow> handle t b' x" and
    u: "bwrite l (set_data l (c sec) t) = Ok u" and v: "brelse l u = Ok v"
      "bio_rel v (c(a := c sec)) H (set L)" "\<forall>b' x. handle ?s b' x \<longrightarrow> handle v b' x"
      "memdisk v = (memdisk ?s)(a := c sec)" "iotrace v = iotrace ?s @ [(a, c sec)]"
      "disksize v = disksize ?s" "bio_state.more v = bio_state.more ?s" by metis
  have "handle t b sec" using t(3) h' by blast
  then have d: "b_data (bufs t b) = c sec" using bio_rel_handle_data [OF t(2)] by blast
  note more = log_fields_more [OF v(7)]
  let ?v = "if i = length L then v\<lparr>lh_n := lh_n v + 1\<rparr> else v"
  have hv: "handle ?v b sec" and bv: "bio_rel ?v (c(a := c sec)) H (set L)"
    using v(2,3) h' by simp_all
  have w: "log_write b s = Ok (set_dirty b ?v)"
    using handle_fields [OF h] lim' log_slot_eq [OF m, of sec] a(4) t(1) d u v(1) m more
    unfolding i_def [symmetric] by (simp add: log_write_def a_def Let_def log_mem_def)
  have dl: "bio_rel (set_dirty b ?v) (c(a := c sec)) H (insert sec (set L))"
    "keeps_handles ?v (set_dirty b ?v)" "bio_frame ?v (set_dirty b ?v)"
    using set_dirty_law [OF bv hv] by blast+
  have "bio_state.more (set_dirty b ?v) = bio_state.more ?v"
    using dl(3) by (simp add: bio_frame_def)
  note more' = log_fields_more [OF this]
  have n: "lh_n ?v = int (length (log_add sec L))"
    using log_add_slot(4) [of L "lh_sector s" sec] m lim' more unfolding i_def log_mem_def by auto
  have "keeps_handles s (set_dirty b ?v)"
    using dl(2) v(3) by (simp add: keeps_handles_def)
  then show ?thesis
    using w dl more more' n v(4-6) by (simp add: log_rest_def bio_frame_def)
qed

lemma log_write_law:
  assumes rel: "log_rel s base post c H L" and h: "handle s b sec"
    and lim: "length L < log_limit s" and room: "card (H \<union> set L) < NBUF"
  shows "\<exists>t c'. log_write b s = Ok t \<and> (\<forall>x<log_start s. c' x = c x) \<and>
    log_rel t base (post(sec := c sec)) c' H (log_add sec L) \<and>
    keeps_handles s t \<and> log_rest t = log_rest s"
proof -
  have m: "log_mem s L" and b: "bio_rel s c H (set L)" and Hs: "\<forall>x\<in>H. x \<le> log_start s"
    using rel by (auto simp: log_rel_def)
  define i where "i = length (takeWhile (\<lambda>x. x \<noteq> sec) L)"
  define a where "a = log_start s + i + 1"
  obtain t where t: "log_write b s = Ok t" "bio_rel t (c(a := c sec)) H (insert sec (set L))"
    "keeps_handles s t" "memdisk t = (memdisk s)(a := c sec)" "log_rest t = log_rest s"
    "log_dev t = log_dev s" "lh_sector t = (lh_sector s)[i := sec]"
    "lh_n t = int (length (log_add sec L))"
    using log_write_effect [OF b m Hs h lim room] unfolding i_def a_def by blast
  have sec: "sec \<in> H" using bio_rel_held [OF b h] .
  then have sec': "sec < log_start s" using rel by (simp add: log_rel_def)
  have lim': "length L < LOGSIZE" "int (length L) < log_size s - 1"
    using lim by (auto simp: log_limit_def split: if_splits)
  note add = log_add_slot [of L "lh_sector s" sec, folded i_def]
  have len: "int (length (log_add sec L)) < log_size s" "distinct (log_add sec L)"
    using lim' m by (auto simp: log_add_def log_mem_def)
  have "card (set (log_add sec L)) \<le> card (H \<union> set L)"
    using sec bio_rel_finite(1) [OF b] by (intro card_mono) auto
  then have card: "length (log_add sec L) < NBUF"
    using room distinct_card [OF len(2)] by simp
  have mem: "log_mem t (log_add sec L)"
    using m len card add(1) t lim' sec' log_restD [OF t(5)] by (auto simp: log_mem_def)
  have blocks: "memdisk t (log_start s + j + 1) = (post(sec := c sec)) (log_add sec L ! j)"
    if j: "j < length (log_add sec L)" for j
  proof (cases "j = i")
    case True
    then show ?thesis using t(4) add(3) m lim' by (simp add: a_def log_mem_def)
  next
    case False
    then have "log_add sec L ! j \<noteq> sec"
      using nth_eq_iff_index_eq [OF len(2) j add(2)] add(3) m lim' by (auto simp: log_mem_def)
    moreover have "j < length L" "log_add sec L ! j = L ! j"
      using j False by (auto simp: log_add_def i_def nth_append log_slot_new split: if_splits)
    ultimately show ?thesis
      using rel False t(4) by (simp add: log_rel_def log_disk_def a_def)
  qed
  have "log_disk t base (post(sec := c sec)) (log_add sec L)"
    unfolding log_disk_def log_restD [OF t(5)]
    using rel blocks t(4) unfolding log_rel_def log_disk_def a_def by auto
  with t mem sec rel have "log_rel t base (post(sec := c sec)) (c(a := c sec)) H (log_add sec L)"
    unfolding log_rel_def log_restD [OF t(5)] by (auto simp: a_def)
  with t show ?thesis by (intro exI [of _ t] exI [of _ "c(a := c sec)"]) (simp add: a_def)
qed

section \<open>Commit and recovery\<close>

lemma write_head_law:
  assumes rel: "bio_rel s c H D" and "log_start s < disksize s" and room: "card (H \<union> D) < NBUF"
    and "log_start s \<notin> D" and "log_dev s = 1" and "log_start s \<notin> H"
  defines "d \<equiv> put_head (lh_n s) (lh_sector s) (c (log_start s))"
  shows "\<exists>t. write_head s = Ok t \<and> bio_rel t (c(log_start s := d)) H D \<and> keeps_handles s t \<and>
    memdisk t = (memdisk s)(log_start s := d) \<and> iotrace t = iotrace s @ [(log_start s, d)] \<and>
    disksize t = disksize s \<and> bio_state.more t = bio_state.more s"
proof -
  from bc.write_through [OF rel assms(6,2) room assms(4), of d] obtain b t u v where
    t: "bread 1 (log_start s) s = Ok (b, t)" "b_data (bufs t b) = c (log_start s)"
      "bio_state.more t = bio_state.more s" and
    u: "bwrite b (set_data b d t) = Ok u" "brelse b u = Ok v"
      "bio_rel v (c(log_start s := d)) H D" "memdisk v = (memdisk s)(log_start s := d)"
      "iotrace v = iotrace s @ [(log_start s, d)]"
      "disksize v = disksize s" "bio_state.more v = bio_state.more s" "keeps_handles s v"
    unfolding keeps_handles_def by blast
  have "write_head s = Ok v"
    using t u(1,2) assms(5) log_fields_more [OF t(3)] by (simp add: write_head_def d_def)
  with u show ?thesis by blast
qed

text \<open>The home writes of an installation: block \<open>i\<close> of the log goes to its home sector.\<close>

definition home_writes :: "nat \<Rightarrow> nat list \<Rightarrow> (nat \<Rightarrow> block) \<Rightarrow> nat \<Rightarrow> (nat \<times> block) list" where
  "home_writes st L c k = map (\<lambda>i. (L ! i, c (st + i + 1))) [0..<k]"

lemma home_writes_Suc:
  "home_writes st L c (Suc k) = home_writes st L c k @ [(L ! k, c (st + k + 1))]"
  by (simp add: home_writes_def)

lemma home_writes_keys: "k \<le> length L \<Longrightarrow> fst ` set (home_writes st L c k) = set (take k L)"
  by (force simp: home_writes_def image_iff in_set_conv_nth)

lemma install_one_law:
  assumes rel: "bio_rel s c H D" and "log_dev s = 1" and "log_start s + i + 1 < disksize s"
    and "disksize s < 2 ^ 32" and "lh_sector s ! i < log_start s"
    and "log_start s + i + 1 \<notin> D" and "card (H \<union> D) < NBUF"
    and "lh_sector s ! i \<in> D \<or> card (H \<union> D) + 1 < NBUF"
    and "log_start s + i + 1 \<notin> H" "lh_sector s ! i \<notin> H"
  defines "x \<equiv> lh_sector s ! i" and "d \<equiv> c (log_start s + i + 1)"
  shows "\<exists>t. install_one i s = Ok t \<and> bio_rel t (c(x := d)) H (D - {x}) \<and> keeps_handles s t \<and>
    memdisk t = (memdisk s)(x := d) \<and> iotrace t = iotrace s @ [(x, d)] \<and>
    disksize t = disksize s \<and> bio_state.more t = bio_state.more s"
proof -
  let ?a = "log_start s + i + 1"
  have fin: "finite (H \<union> D)" using bio_rel_finite [OF rel] by simp
  then have room: "card (H \<union> D) < NBUF" "x \<in> D \<or> card (insert ?a H \<union> D) < NBUF"
    using assms(7,8) by (auto simp: x_def card_insert_if)
  have "x \<noteq> ?a" "x < disksize s" "x \<notin> H" using assms(3,5,10) by (simp_all add: x_def)
  then obtain l t b u v w y where t: "bread 1 ?a s = Ok (l, t)" "bio_state.more t = bio_state.more s"
    and u: "bread 1 x t = Ok (b, u)" "bwrite b (set_data b (b_data (bufs u l)) u) = Ok v"
    "brelse l v = Ok w" "brelse b w = Ok y" and y: "bio_rel y (c(x := d)) H (D - {x})"
    "memdisk y = (memdisk s)(x := d)" "iotrace y = iotrace s @ [(x, d)]"
    "disksize y = disksize s" "bio_state.more y = bio_state.more s"
    "keeps_handles s y"
    using bc.copy_block [OF rel assms(9) _ assms(6) _ assms(3) _ room] unfolding d_def keeps_handles_def by blast
  have "install_one i s = Ok y"
    using t u assms(2-4) log_fields_more [OF t(2)] by (simp add: install_one_def x_def)
  with y show ?thesis by blast
qed

lemma install_law:
  assumes rel: "bio_rel s c H D" and dev: "log_dev s = 1" and n: "lh_n s = int (length L)"
    and L: "take (length L) (lh_sector s) = L" "length L \<le> length (lh_sector s)" "distinct L"
      "\<forall>x\<in>set L. x < log_start s"
    and size: "log_start s + length L < disksize s" "disksize s < 2 ^ 32"
    and D: "\<forall>x\<in>D. x < log_start s" "card (H \<union> D) < NBUF" "set L \<subseteq> D \<or> card (H \<union> D) + 1 < NBUF"
    and H: "\<forall>x\<in>H. x < log_start s" "H \<inter> set L = {}"
  defines "ws \<equiv> home_writes (log_start s) L c"
  shows "\<exists>t. install_trans s = Ok t \<and>
    bio_rel t (disk_after c (ws (length L))) H (D - set L) \<and> keeps_handles s t \<and>
    memdisk t = disk_after (memdisk s) (ws (length L)) \<and>
    iotrace t = iotrace s @ ws (length L) \<and>
    disksize t = disksize s \<and> bio_state.more t = bio_state.more s"
proof -
  define P where "P i t \<longleftrightarrow> bio_rel t (disk_after c (ws i)) H (D - set (take i L)) \<and> keeps_handles s t \<and>
    memdisk t = disk_after (memdisk s) (ws i) \<and> iotrace t = iotrace s @ ws i \<and>
    disksize t = disksize s \<and> bio_state.more t = bio_state.more s" for i t
  have fin: "finite (H \<union> D)" using bio_rel_finite [OF rel] by simp
  have step: "\<exists>t'. install_one i t = Ok t' \<and> P (Suc i) t'" if i: "i < length L" and P: "P i t" for i t
  proof -
    have m: "bio_state.more t = bio_state.more s" using P by (simp add: P_def)
    note more = log_fields_more [OF m]
    have x: "lh_sector t ! i = L ! i" using L(1) i more(6) by (metis nth_take)
    have xs: "L ! i < log_start s" using L(4) i by simp
    have xt: "L ! i \<notin> set (take i L)" using L(3) i by (auto simp: distinct_conv_nth in_set_conv_nth)
    let ?D = "D - set (take i L)"
    have c: "card (H \<union> ?D) \<le> card (H \<union> D)" using fin by (intro card_mono) auto
    have room: "card (H \<union> ?D) < NBUF" "L ! i \<in> ?D \<or> card (H \<union> ?D) + 1 < NBUF"
      using c D(2,3) xt i by auto
    have "log_start s + i + 1 \<notin> set L" using L(4) by fastforce
    then have "log_start s + i + 1 \<notin> fst ` set (ws i)"
      unfolding ws_def home_writes_keys [OF less_imp_le [OF i]] using in_set_takeD by metis
    then have d: "disk_after c (ws i) (log_start s + i + 1) = c (log_start s + i + 1)"
      by (rule disk_after_other)
    have nD: "log_start s + i + 1 \<notin> ?D" using D(1) by fastforce
    have wsS: "ws (Suc i) = ws i @ [(L ! i, c (log_start s + i + 1))]"
      by (simp add: ws_def home_writes_Suc)
    have r: "bio_rel t (disk_after c (ws i)) H ?D" using P by (simp add: P_def)
    have "?D - {L ! i} = D - set (take (Suc i) L)"
      using i by (auto simp: take_Suc_conv_app_nth)
    moreover have "log_start s + i + 1 \<notin> H" "L ! i \<notin> H" using H i by fastforce+
    moreover have "keeps_handles s u" if "keeps_handles t u" for u
      using that P by (simp add: P_def keeps_handles_def)
    ultimately show ?thesis
      using install_one_law [OF r, of i] P xs room nD d i size dev more(1,4) x
      unfolding P_def by (simp add: wsS) blast
  qed
  have "P 0 s" using rel by (simp add: P_def ws_def home_writes_def keeps_handles_def)
  from for_each_upt [of P, OF this step] have "\<exists>t. install_trans s = Ok t \<and> P (length L) t"
    unfolding install_trans_def n by simp
  then show ?thesis by (simp add: P_def)
qed

text \<open>The writes of a commit: the header, the home blocks, the cleared header.\<close>

definition commit_writes :: "'a log_state_scheme \<Rightarrow> nat list \<Rightarrow> (nat \<times> block) list" where
  "commit_writes s L = (if L = [] then [] else
     let hd = put_head (lh_n s) (lh_sector s) (memdisk s (log_start s))
     in (log_start s, hd) # home_writes (log_start s) L (memdisk s) (length L) @
        [(log_start s, put_head 0 (lh_sector s) hd)])"

lemma home_writes_cong:
  "(\<And>i. i < k \<Longrightarrow> c (st + i + 1) = c' (st + i + 1)) \<Longrightarrow> home_writes st L c k = home_writes st L c' k"
  by (simp add: home_writes_def)

lemma disk_after_home:
  assumes "distinct L" and "i < length L"
  shows "disk_after d (home_writes st L c (length L)) (L ! i) = c (st + i + 1)"
proof -
  have "disk_after d (home_writes st L c k) (L ! i) = c (st + i + 1)" if "i < k" "k \<le> length L" for k
    using that
  proof (induction k)
    case (Suc k)
    then show ?case using assms
      by (cases "i = k") (auto simp: home_writes_Suc nth_eq_iff_index_eq)
  qed simp
  then show ?thesis using assms(2) by blast
qed

lemma disk_after_home_other:
  "x \<notin> set L \<Longrightarrow> disk_after d (home_writes st L c (length L)) x = d x"
  by (rule disk_after_other) (simp add: home_writes_keys)

lemma commit_nonempty:
  assumes rel: "log_rel s base post c H L" and ne: "L \<noteq> []"
    and disj: "H \<inter> set L = {}" and card: "card (H \<union> set L) < NBUF"
  shows "\<exists>t c'. commit_trans s = Ok t \<and> bio_rel t c' H {} \<and> keeps_handles s t \<and> (\<forall>x\<in>H. c' x = c x) \<and>
    memdisk t = disk_after (memdisk s) (commit_writes s L) \<and>
    iotrace t = iotrace s @ commit_writes s L \<and> lh_n t = 0 \<and> disksize t = disksize s \<and>
    log_start t = log_start s \<and> log_size t = log_size s \<and> \<not> log_busy t \<and>
    log_dev t = log_dev s \<and> lh_sector t = lh_sector s \<and> log_state.more t = log_state.more s"
proof -
  let ?st = "log_start s"
  have b: "bio_rel s c H (set L)" and m: "log_mem s L" and lt: "\<forall>x\<in>H. x < ?st"
    using rel by (simp_all add: log_rel_def)
  have clean: "x \<ge> ?st \<Longrightarrow> x \<notin> set L" for x using m by (auto simp: log_mem_def)
  have c: "c x = memdisk s x" if "x \<ge> ?st" for x
    using bio_relD(7) [OF b, of x] clean [OF that] lt that by fastforce
  have size: "?st + length L < disksize s" using m by (auto simp: log_mem_def)
  have st: "?st \<notin> H" using lt by auto
  have "card H \<le> card (H \<union> set L)" using bio_rel_finite [OF b] by (intro card_mono) auto
  then have cardH: "card H < NBUF" using card by simp
  define h where "h = put_head (lh_n s) (lh_sector s) (memdisk s ?st)"
  obtain t where t: "write_head s = Ok t" "bio_rel t (c(?st := h)) H (set L)"
    "memdisk t = (memdisk s)(?st := h)" "iotrace t = iotrace s @ [(?st, h)]"
    "disksize t = disksize s" "keeps_handles s t" and tm: "bio_state.more t = bio_state.more s"
    using write_head_law [OF b] m card size clean [of ?st] c [of ?st] st
    unfolding h_def log_mem_def by auto
  note tf = log_fields_more [OF tm]
  define ws where "ws = home_writes ?st L (memdisk s) (length L)"
  have "home_writes ?st L (c(?st := h)) (length L) = ws"
    unfolding ws_def by (rule home_writes_cong) (simp add: c)
  then obtain u where u: "install_trans t = Ok u" "bio_rel u (disk_after (c(?st := h)) ws) H {}"
    "memdisk u = disk_after (memdisk t) ws" "iotrace u = iotrace t @ ws"
    "disksize u = disksize t" "keeps_handles t u" and um: "bio_state.more u = bio_state.more t"
    using install_law [OF t(2), of L] m card size tf t(5) lt disj unfolding log_mem_def by auto
  note uf = log_fields_more [OF um]
  have other: "disk_after f ws ?st = f ?st" for f
    unfolding ws_def using clean [of ?st] by (simp add: disk_after_home_other)
  let ?u = "u\<lparr>lh_n := 0\<rparr>"
  obtain v where v: "write_head ?u = Ok v"
    "bio_rel v ((disk_after (c(?st := h)) ws)(?st := put_head 0 (lh_sector s) h)) H {}"
    "memdisk v = (memdisk u)(?st := put_head 0 (lh_sector s) h)"
    "iotrace v = iotrace u @ [(?st, put_head 0 (lh_sector s) h)]" "disksize v = disksize u"
    "keeps_handles ?u v" and vm: "bio_state.more v = bio_state.more ?u"
    using write_head_law [of ?u "disk_after (c(?st := h)) ws" H "{}"] u(2,5) t(5) tf uf m size other cardH st
    by (auto simp: log_mem_def)
  note vf = log_fields_more [OF vm]
  have "commit_trans s = Ok (v\<lparr>log_busy := False\<rparr>)"
    using t(1) u(1) v(1) m ne by (auto simp: commit_trans_def log_mem_def)
  moreover have "keeps_handles s (v\<lparr>log_busy := False\<rparr>)"
    using t(6) u(6) v(6) by (simp add: keeps_handles_def)
  moreover have "disk_after (c(?st := h)) ws x = c x" if "x \<in> H" for x
    using that disj st unfolding ws_def by (subst disk_after_home_other) auto
  ultimately show ?thesis
    using v ne u t vf uf tf st unfolding commit_writes_def h_def [symmetric] ws_def [symmetric]
    by (intro exI [of _ "v\<lparr>log_busy := False\<rparr>"]) auto
qed

lemma fold_list_update:
  assumes "n \<le> length l"
  shows "length (fold (\<lambda>i xs. xs[i := f i]) [0..<n] l) = length l \<and>
    take n (fold (\<lambda>i xs. xs[i := f i]) [0..<n] l) = map f [0..<n]"
  using assms
proof (induction n)
  case (Suc n)
  then show ?case by (auto simp: take_Suc_conv_app_nth)
qed simp

definition log_image :: "(nat \<Rightarrow> block) \<Rightarrow> nat \<Rightarrow> nat list \<Rightarrow> bool" where
  "log_image d st L \<longleftrightarrow> length (d st) = BSIZE \<and> head_n (d st) = int (length L) \<and>
     (\<forall>i<length L. head_sector (d st) i = L ! i) \<and> distinct L \<and> length L \<le> LOGSIZE \<and>
     (\<forall>x\<in>set L. x < st)"

definition log_super :: "(nat \<Rightarrow> block) \<Rightarrow> nat \<Rightarrow> nat \<Rightarrow> nat \<Rightarrow> bool" where
  "log_super d st sz N \<longleftrightarrow> sb_size (sb_of_block (d 1)) = st + sz \<and>
     sb_nlog (sb_of_block (d 1)) = sz \<and> 1 < st \<and> 0 < sz \<and> st + sz \<le> N \<and> N < 2 ^ 31"

lemma read_head_law:
  assumes rel: "bio_rel s c {} {}" and dev: "log_dev s = 1" and st: "log_start s < disksize s"
    and len: "length (lh_sector s) = LOGSIZE" and im: "log_image c (log_start s) L"
  shows "\<exists>t. read_head s = Ok t \<and> bio_rel t c {} {} \<and> lh_n t = int (length L) \<and>
    length (lh_sector t) = LOGSIZE \<and> take (length L) (lh_sector t) = L \<and>
    memdisk t = memdisk s \<and> iotrace t = iotrace s \<and> disksize t = disksize s \<and>
    log_start t = log_start s \<and> log_size t = log_size s \<and> log_busy t = log_busy s \<and>
    log_dev t = log_dev s \<and> log_state.more t = log_state.more s"
proof -
  have room: "log_start s \<in> {} \<or> card ({} \<union> {} :: nat set) < NBUF" by simp
  obtain b t where t: "bread 1 (log_start s) s = Ok (b, t)" "bio_rel t c (insert (log_start s) {}) {}"
      "handle t b (log_start s)" and f: "bio_frame s t"
    using bread_law [OF rel _ st room] by blast
  let ?d = "c (log_start s)"
  let ?t = "t\<lparr>lh_n := int (length L), lh_sector := fold (\<lambda>i xs. xs[i := head_sector ?d i])
                    [0..<length L] (lh_sector t)\<rparr>"
  have d: "b_data (bufs t b) = ?d" using bio_rel_handle_data [OF t(2,3)] .
  have r: "bio_rel ?t c {log_start s} {}" and h: "handle ?t b (log_start s)"
    using t by simp_all
  have "?d = memdisk ?t (log_start s)" using bio_relD(7) [OF rel] f by (simp add: bio_frame_def)
  then obtain u where u: "brelse b ?t = Ok u" "bio_rel u c ({log_start s} - {log_start s}) {}"
      "bio_frame ?t u"
    using brelse_law [OF r h] by blast
  have m: "bio_state.more u = bio_state.more ?t" "bio_state.more t = bio_state.more s"
    using u(3) f by (simp_all add: bio_frame_def)
  note mf = log_fields_more [OF m(1)] log_fields_more [OF m(2)]
  have "map (head_sector ?d) [0..<length L] = L"
    using im by (intro nth_equalityI) (simp_all add: log_image_def)
  then have l: "length (lh_sector ?t) = LOGSIZE" "take (length L) (lh_sector ?t) = L"
    using fold_list_update [of "length L" "lh_sector t" "head_sector ?d"] len mf im
    by (simp_all add: log_image_def)
  have "read_head s = Ok u"
    using t(1) u(1) d dev im by (simp add: read_head_def Let_def log_image_def)
  then show ?thesis
    using u(2) l mf u(3) f by (intro exI [of _ u]) (simp add: bio_frame_def)
qed

text \<open>The writes of a recovery: the home blocks and the cleared header.\<close>

definition recovery_writes :: "(nat \<Rightarrow> block) \<Rightarrow> nat \<Rightarrow> nat list \<Rightarrow> nat list \<Rightarrow> (nat \<times> block) list" where
  "recovery_writes d st L secs = home_writes st L d (length L) @ [(st, put_head 0 secs (d st))]"

lemma recover_law:
  assumes rel: "bio_rel s (memdisk s) {} {}" and dev: "log_dev s = 1"
    and len: "length (lh_sector s) = LOGSIZE" and im: "log_image (memdisk s) (log_start s) L"
    and size: "log_start s + length L < disksize s" "disksize s < 2 ^ 32"
  shows "\<exists>t c' secs. recover_from_log s = Ok t \<and> bio_rel t c' {} {} \<and> lh_n t = 0 \<and>
    length (lh_sector t) = LOGSIZE \<and>
    memdisk t = disk_after (memdisk s) (recovery_writes (memdisk s) (log_start s) L secs) \<and>
    iotrace t = iotrace s @ recovery_writes (memdisk s) (log_start s) L secs \<and>
    disksize t = disksize s \<and> log_start t = log_start s \<and> log_size t = log_size s \<and>
    log_busy t = log_busy s \<and> log_dev t = log_dev s \<and> log_state.more t = log_state.more s"
proof -
  let ?st = "log_start s" and ?c = "memdisk s"
  have "?st < disksize s" using size by simp
  then obtain t where t: "read_head s = Ok t" "bio_rel t ?c {} {}" "lh_n t = int (length L)"
    "length (lh_sector t) = LOGSIZE" "take (length L) (lh_sector t) = L" "memdisk t = memdisk s"
    "iotrace t = iotrace s" "disksize t = disksize s" "log_start t = ?st" "log_size t = log_size s"
    "log_busy t = log_busy s" "log_dev t = log_dev s" "log_state.more t = log_state.more s"
    using read_head_law [OF rel dev _ len im] by blast
  define ws where "ws = home_writes ?st L ?c (length L)"
  obtain u where u: "install_trans t = Ok u" "bio_rel u (disk_after ?c ws) {} {}"
    "memdisk u = disk_after (memdisk t) ws" "iotrace u = iotrace t @ ws"
    "disksize u = disksize t" and um: "bio_state.more u = bio_state.more t"
    using install_law [OF t(2), of L] t dev im size unfolding ws_def log_image_def by auto
  note uf = log_fields_more [OF um]
  have "?st \<notin> set L" using im by (auto simp: log_image_def)
  then have other: "disk_after f ws ?st = f ?st" for f
    unfolding ws_def by (simp add: disk_after_home_other)
  let ?u = "u\<lparr>lh_n := 0\<rparr>" and ?h = "put_head 0 (lh_sector t) (?c ?st)"
  obtain v where v: "write_head ?u = Ok v" "bio_rel v ((disk_after ?c ws)(?st := ?h)) {} {}"
    "memdisk v = (memdisk u)(?st := ?h)" "iotrace v = iotrace u @ [(?st, ?h)]" "disksize v = disksize u"
    and vm: "bio_state.more v = bio_state.more ?u"
    using write_head_law [of ?u "disk_after ?c ws" "{}" "{}"] u(2,5) t dev uf size other by auto
  note vf = log_fields_more [OF vm]
  have "recover_from_log s = Ok v"
    using t(1) u(1) v(1) by (simp add: recover_from_log_def)
  then show ?thesis
    using v u t vf uf unfolding recovery_writes_def ws_def [symmetric]
    by (intro exI [of _ v]) (auto intro!: exI [of _ "lh_sector t"])
qed

text \<open>What the home area holds once the log described by the header is installed.\<close>

definition redo :: "(nat \<Rightarrow> block) \<Rightarrow> nat \<Rightarrow> nat list \<Rightarrow> nat \<Rightarrow> block" where
  "redo d st L = disk_after d (home_writes st L d (length L))"

lemma redo_Nil [simp]: "redo d st [] = d"
  by (simp add: redo_def home_writes_def)

lemma redo_in: "distinct L \<Longrightarrow> i < length L \<Longrightarrow> redo d st L (L ! i) = d (st + i + 1)"
  unfolding redo_def by (rule disk_after_home)

lemma redo_out: "x \<notin> set L \<Longrightarrow> redo d st L x = d x"
  unfolding redo_def by (rule disk_after_home_other)

lemma take_home_writes: "k \<le> n \<Longrightarrow> take k (home_writes st L c n) = home_writes st L c k"
  by (simp add: home_writes_def take_map)

text \<open>A partly executed installation neither changes the log nor what it will install.\<close>

lemma partial_install:
  assumes im: "log_image d st L" and k: "k \<le> length L"
  defines "e \<equiv> disk_after d (home_writes st L d k)"
  shows "log_image e st L" and "redo e st L = redo d st L" and "x \<ge> st \<Longrightarrow> e x = d x"
proof -
  have above: "e x = d x" if "x \<ge> st" for x
  proof -
    have "x \<notin> set L" using im that by (auto simp: log_image_def)
    then have "x \<notin> set (take k L)" using in_set_takeD by metis
    then show ?thesis unfolding e_def using disk_after_other home_writes_keys [OF k] by metis
  qed
  then show "x \<ge> st \<Longrightarrow> e x = d x" .
  show "log_image e st L" using im above [of st] by (simp add: log_image_def)
  show "redo e st L = redo d st L"
  proof
    fix x
    show "redo e st L x = redo d st L x"
    proof (cases "x \<in> set L")
      case True
      then obtain i where "i < length L" "x = L ! i" by (auto simp: in_set_conv_nth)
      then show ?thesis using im above by (simp add: redo_in log_image_def)
    next
      case False
      then have "x \<notin> fst ` set (home_writes st L d k)"
        unfolding home_writes_keys [OF k] by (auto dest: in_set_takeD)
      then show ?thesis unfolding redo_out [OF False] e_def by (rule disk_after_other)
    qed
  qed
qed

lemma log_image_cleared:
  assumes "length b = BSIZE"
  shows "log_image (d(st := put_head 0 secs b)) st []"
  using assms put_head_n [of b 0 secs] by (simp add: log_image_def)

text \<open>Every crash point of a recovery leaves a log that recovers to the same home area.\<close>

lemma recovery_prefix:
  fixes k :: nat and secs :: "nat list"
  assumes im: "log_image d st L"
  defines "e \<equiv> disk_after d (take k (recovery_writes d st L secs))"
  shows "\<exists>L'. log_image e st L' \<and> length L' \<le> length L \<and> (\<forall>x < st. redo e st L' x = redo d st L x)"
proof (cases "k \<le> length L")
  case True
  then have "e = disk_after d (home_writes st L d k)"
    by (simp add: e_def recovery_writes_def take_home_writes)
      (simp add: home_writes_def)
  then show ?thesis using partial_install [OF im True] by (intro exI [of _ L]) simp
next
  case False
  then have e: "e = (redo d st L)(st := put_head 0 secs (d st))"
    by (simp add: e_def recovery_writes_def redo_def home_writes_def)
  then have "log_image e st []" using im by (simp add: log_image_cleared log_image_def [of d])
  then show ?thesis by (intro exI [of _ "[]"]) (simp add: e)
qed

text \<open>The commit point is the first write of a commit, the header block.\<close>

lemma commit_prefix:
  fixes k :: nat
  assumes rel: "log_rel s base post c H L" and ne: "L \<noteq> []"
  defines "e \<equiv> disk_after (memdisk s) (take k (commit_writes s L))"
  shows "\<exists>L'. log_image e (log_start s) L' \<and> length L' \<le> length L \<and>
    (\<forall>x<log_start s. redo e (log_start s) L' x = (if k = 0 then base x else post x))"
proof -
  let ?st = "log_start s"
  define h where "h = put_head (lh_n s) (lh_sector s) (memdisk s ?st)"
  define d where "d = (memdisk s)(?st := h)"
  have m: "log_mem s L" and dk: "log_disk s base post L" using rel by (simp_all add: log_rel_def)
  have sec: "lh_sector s ! i = L ! i" if "i < length L" for i
    using m that unfolding log_mem_def by (metis nth_take)
  have "L ! i < 2 ^ 32" if "i < length L" for i
  proof -
    have "L ! i < log_start s" using m that by (simp add: log_mem_def)
    then show ?thesis using m by (simp add: log_mem_def)
  qed
  then have im: "log_image d ?st L"
    using m dk put_head_n [of "memdisk s ?st" "int (length L)" "lh_sector s"]
      put_head_sector [of "memdisk s ?st" "length L" _ "lh_sector s"] sec
    by (simp add: log_image_def d_def h_def log_mem_def log_disk_def)
  have rd: "redo d ?st L x = post x" if x: "x < ?st" for x
  proof (cases "x \<in> set L")
    case True
    then obtain i where "i < length L" "x = L ! i" by (auto simp: in_set_conv_nth)
    then show ?thesis using m dk by (simp add: redo_in d_def log_mem_def log_disk_def)
  next
    case False
    then show ?thesis using dk x by (simp add: redo_out d_def log_disk_def)
  qed
  have "home_writes ?st L (memdisk s) (length L) = home_writes ?st L d (length L)"
    by (rule home_writes_cong) (simp add: d_def)
  then have ws: "commit_writes s L = (?st, h) # recovery_writes d ?st L (lh_sector s)"
    using ne by (simp add: commit_writes_def recovery_writes_def h_def d_def Let_def)
  show ?thesis
  proof (cases k)
    case 0
    then show ?thesis
      using dk by (intro exI [of _ "[]"]) (simp add: e_def log_disk_def log_image_def)
  next
    case (Suc j)
    then have "e = disk_after d (take j (recovery_writes d ?st L (lh_sector s)))"
      by (simp add: e_def ws d_def)
    then show ?thesis using recovery_prefix [OF im, of j "lh_sector s"] rd Suc by auto
  qed
qed

lemma commit_held_law:
  assumes rel: "log_rel s base post c H L" and disj: "H \<inter> set L = {}" and room: "card (H \<union> set L) < NBUF"
    and held: "\<forall>x\<in>H. c x = post x"
  shows "\<exists>t c'. commit_trans s = Ok t \<and> log_rel t post post c' H [] \<and> (\<forall>x\<in>H. c' x = post x) \<and> keeps_handles s t \<and>
    (\<forall>x. x \<notin> H \<longrightarrow> c' x = memdisk t x) \<and> iotrace t = iotrace s @ commit_writes s L \<and>
    memdisk t = disk_after (memdisk s) (commit_writes s L) \<and>
    log_rest t = log_rest (s\<lparr>log_busy := False\<rparr>)"
proof (cases "L = []")
  case True
  have m: "log_mem s []" and d: "log_disk s base post []" and b: "bio_rel s c H {}"
    using rel True by (simp_all add: log_rel_def)
  have "\<forall>x. x \<notin> H \<longrightarrow> c x = memdisk s x" using bio_relD(7) [OF b] by simp
  moreover have "log_rel (s\<lparr>log_busy := False\<rparr>) post post c H []"
    using rel m d b True by (simp add: log_rel_def log_mem_def log_disk_def)
  ultimately show ?thesis
    using m True held by (auto simp: commit_trans_def log_mem_def commit_writes_def keeps_handles_def)
next
  case False
  obtain t c' where t: "commit_trans s = Ok t" "bio_rel t c' H {}"
    "memdisk t = disk_after (memdisk s) (commit_writes s L)"
    "iotrace t = iotrace s @ commit_writes s L" "lh_n t = 0" "disksize t = disksize s"
    "log_start t = log_start s" "log_size t = log_size s" "\<not> log_busy t" "log_dev t = log_dev s"
    "lh_sector t = lh_sector s" "log_state.more t = log_state.more s" "keeps_handles s t" "\<forall>x\<in>H. c' x = c x"
    using commit_nonempty [OF rel False disj room] by blast
  have c: "c' x = memdisk t x" if "x \<notin> H" for x using bio_relD(7) [OF t(2)] that by simp
  obtain L' where L': "log_image (memdisk t) (log_start s) L'"
    "\<forall>x<log_start s. redo (memdisk t) (log_start s) L' x = post x"
    using commit_prefix [OF rel False, of "Suc (length (commit_writes s L))"] t(3) by auto
  have m: "log_mem s L" and dk: "log_disk s base post L" and lt: "\<forall>x\<in>H. x < log_start s"
    using rel by (simp_all add: log_rel_def)
  let ?h = "put_head (lh_n s) (lh_sector s) (memdisk s (log_start s))"
  have "memdisk t (log_start s) = put_head 0 (lh_sector s) ?h"
    using t(3) False by (simp add: commit_writes_def Let_def)
  then have h: "length (memdisk t (log_start s)) = BSIZE" "head_n (memdisk t (log_start s)) = 0"
    using dk put_head_n [of ?h 0 "lh_sector s"] by (simp_all add: log_disk_def)
  with L'(1) have "L' = []" by (simp add: log_image_def)
  with L'(2) h have "log_disk t post post []" by (simp add: log_disk_def t(7))
  moreover have "log_mem t []" using m t by (auto simp: log_mem_def)
  ultimately have "log_rel t post post c' H []"
    using t(2,7) c lt by (simp add: log_rel_def log_disk_def)
  then show ?thesis using t c held by (auto simp: log_rest_def)
qed

lemma commit_law:
  assumes rel: "log_rel s base post c {} L"
  shows "\<exists>t. commit_trans s = Ok t \<and> log_rel t post post (memdisk t) {} [] \<and>
    iotrace t = iotrace s @ commit_writes s L \<and>
    memdisk t = disk_after (memdisk s) (commit_writes s L) \<and>
    log_rest t = log_rest (s\<lparr>log_busy := False\<rparr>)"
proof -
  have "card ({} \<union> set L) < NBUF" using rel distinct_card [of L] by (simp add: log_rel_def log_mem_def)
  then obtain t c' where "commit_trans s = Ok t" "log_rel t post post c' {} []" "\<forall>x. c' x = memdisk t x"
    "iotrace t = iotrace s @ commit_writes s L" "memdisk t = disk_after (memdisk s) (commit_writes s L)"
    "log_rest t = log_rest (s\<lparr>log_busy := False\<rparr>)"
    using commit_held_law [OF rel] by auto
  moreover have "c' = memdisk t" using calculation(3) by (intro ext) simp
  ultimately show ?thesis by blast
qed

text \<open>A machine that has just been switched on: every buffer is unused.\<close>

definition powered_on :: "'a log_state_scheme \<Rightarrow> bool" where
  "powered_on s \<longleftrightarrow> (\<forall>i<NBUF. \<not> b_busy (bufs s i) \<and> \<not> b_dirty (bufs s i)) \<and>
     length (lh_sector s) = LOGSIZE"

lemma initlog_law:
  assumes rel: "bio_rel s (memdisk s) {} {}" and len: "length (lh_sector s) = LOGSIZE"
    and sb: "log_super (memdisk s) st sz (disksize s)" and im: "log_image (memdisk s) st L"
    and sz: "length L < sz"
  shows "\<exists>t secs. initlog s = Ok t \<and> log_rel t (memdisk t) (memdisk t) (memdisk t) {} [] \<and>
    memdisk t = disk_after (memdisk s) (recovery_writes (memdisk s) st L secs) \<and>
    iotrace t = iotrace s @ recovery_writes (memdisk s) st L secs \<and>
    log_start t = st \<and> log_size t = int sz \<and> disksize t = disksize s \<and>
    log_busy t = log_busy s \<and> log_state.more t = log_state.more s"
proof -
  have "1 < disksize s" using sb by (simp add: log_super_def)
  then obtain r where r: "readsb 1 s = Ok (sb_of_block (memdisk s 1), r)"
    "bio_rel r (memdisk s) {} {}" and f: "bio_frame s r"
    using readsb_law [OF rel] by auto
  have m: "bio_state.more r = bio_state.more s" "memdisk r = memdisk s" "disksize r = disksize s"
    "iotrace r = iotrace s" using f by (simp_all add: bio_frame_def)
  note rf = log_fields_more [OF m(1)]
  let ?r = "r\<lparr>log_start := st, log_size := int sz, log_dev := 1\<rparr>"
  have "initlog s = recover_from_log ?r"
    using r(1) sb by (simp add: initlog_def log_super_def int_of_def)
  moreover obtain t c' secs where t: "recover_from_log ?r = Ok t" "bio_rel t c' {} {}"
    "lh_n t = 0" "length (lh_sector t) = LOGSIZE"
    "memdisk t = disk_after (memdisk s) (recovery_writes (memdisk s) st L secs)"
    "iotrace t = iotrace s @ recovery_writes (memdisk s) st L secs"
    "disksize t = disksize s" "log_start t = st" "log_size t = int sz" "log_busy t = log_busy s"
    "log_dev t = 1" "log_state.more t = log_state.more s"
    using recover_law [of ?r L] r(2) m rf len im sb sz by (auto simp: log_super_def)
  moreover have "c' = memdisk t" using bio_relD(7) [OF t(2)] by (intro ext) simp
  moreover have "memdisk t st = put_head 0 secs (memdisk s st)"
    by (simp add: t(5) recovery_writes_def)
  then have "log_disk t (memdisk t) (memdisk t) []"
    using im put_head_n [of "memdisk s st" 0 secs] t(8) by (simp add: log_disk_def log_image_def)
  moreover have "log_mem t []" using t sb sz by (simp add: log_mem_def log_super_def)
  ultimately show ?thesis
    by (intro exI [of _ t] exI [of _ secs]) (simp add: log_rel_def)
qed

text \<open>Switching on, \<^verbatim>\<open>binit\<close> and \<^verbatim>\<open>initlog\<close>: the home area is what the log says it is.\<close>

lemma boot_law:
  assumes on: "powered_on z" and sb: "log_super (memdisk z) st sz (disksize z)"
    and im: "log_image (memdisk z) st L" and sz: "length L < sz"
  shows "\<exists>t secs. initlog (binit z) = Ok t \<and>
    log_rel t (memdisk t) (memdisk t) (memdisk t) {} [] \<and>
    memdisk t = disk_after (memdisk z) (recovery_writes (memdisk z) st L secs) \<and>
    iotrace t = iotrace z @ recovery_writes (memdisk z) st L secs \<and>
    (\<forall>x < st. memdisk t x = redo (memdisk z) st L x) \<and>
    log_start t = st \<and> log_size t = int sz \<and> disksize t = disksize z \<and>
    log_busy t = log_busy z \<and> log_state.more t = log_state.more z"
proof -
  have b: "bio_rel (binit z) (memdisk z) {} {}" and f: "bio_frame z (binit z)"
    using on binit_law [of z] by (simp_all add: powered_on_def)
  have m: "bio_state.more (binit z) = bio_state.more z" "memdisk (binit z) = memdisk z"
    "disksize (binit z) = disksize z" "iotrace (binit z) = iotrace z"
    using f by (simp_all add: bio_frame_def)
  note mf = log_fields_more [OF m(1)]
  obtain t secs where t: "initlog (binit z) = Ok t"
    "log_rel t (memdisk t) (memdisk t) (memdisk t) {} []"
    "memdisk t = disk_after (memdisk z) (recovery_writes (memdisk z) st L secs)"
    "iotrace t = iotrace z @ recovery_writes (memdisk z) st L secs"
    "log_start t = st" "log_size t = int sz" "disksize t = disksize z" "log_busy t = log_busy z"
    "log_state.more t = log_state.more z"
    using initlog_law [of "binit z" st sz L, unfolded m mf, OF b _ sb im sz] on
    unfolding powered_on_def by blast
  have "memdisk t x = redo (memdisk z) st L x" if "x < st" for x
    using that by (simp add: t(3) recovery_writes_def redo_def)
  then show ?thesis using t by blast
qed

lemma log_super_home: "log_super d st sz N \<Longrightarrow> e 1 = d 1 \<Longrightarrow> log_super e st sz N"
  by (simp add: log_super_def)

lemma commit_writes_sectors:
  "x \<notin> set L \<Longrightarrow> x \<noteq> log_start s \<Longrightarrow> x \<notin> fst ` set (take k (commit_writes s L))"
  using home_writes_keys [of "length L" L "log_start s" "memdisk s"]
  by (auto simp: commit_writes_def Let_def dest!: in_set_takeD split: if_splits) force

text \<open>
  Crash atomicity in full: however many of the writes of a commit reach the disk
  before power is lost, booting gives the file system before or after the
  transaction, never a mixture.
\<close>

lemma commit_crash:
  assumes rel: "log_rel s base post c {} L" and one: "1 \<notin> set L"
    and sb: "log_super base (log_start s) (nat (log_size s)) (disksize s)"
    and on: "powered_on z" and z: "disksize z = disksize s"
      "memdisk z = disk_after (memdisk s) (take k (commit_writes s L))"
  shows "\<exists>t. initlog (binit z) = Ok t \<and> log_rel t (memdisk t) (memdisk t) (memdisk t) {} [] \<and>
    (\<forall>x < log_start s. memdisk t x = (if k = 0 then base x else post x))"
proof -
  let ?st = "log_start s"
  have m: "log_mem s L" and dk: "log_disk s base post L" using rel by (simp_all add: log_rel_def)
  have "1 < ?st" using sb by (simp add: log_super_def)
  then have "memdisk s 1 = base 1" "1 \<noteq> ?st" using dk by (auto simp: log_disk_def)
  then have sbz: "log_super (memdisk z) ?st (nat (log_size s)) (disksize z)"
    using log_super_home [OF sb, of "memdisk z"] z
      disk_after_other [OF commit_writes_sectors [OF one, of s k]] by simp
  obtain L' where L': "log_image (memdisk z) ?st L'" "length L' \<le> length L"
    "\<forall>x < ?st. redo (memdisk z) ?st L' x = (if k = 0 then base x else post x)"
  proof (cases "L = []")
    case True
    have "log_image (memdisk z) ?st []" "\<forall>x < ?st. memdisk z x = (if k = 0 then base x else post x)"
      using dk True z(2) by (simp_all add: commit_writes_def log_image_def log_disk_def)
    then show ?thesis using that [of "[]"] True by simp
  next
    case False
    then show ?thesis using commit_prefix [OF rel False, of k] z(2) that by auto
  qed
  have "length L' < nat (log_size s)" using L'(2) m by (auto simp: log_mem_def)
  then obtain t where "initlog (binit z) = Ok t" "log_rel t (memdisk t) (memdisk t) (memdisk t) {} []"
    "\<forall>x < ?st. memdisk t x = redo (memdisk z) ?st L' x"
    using boot_law [OF on sbz L'(1)] by blast
  then show ?thesis using L'(3) by simp
qed

section \<open>The log as a transactional store\<close>

text \<open>The client's view: every held block still has the contents a commit would give it.\<close>

definition log_view :: "'a log_state_scheme \<Rightarrow> (nat \<Rightarrow> block) \<Rightarrow> (nat \<Rightarrow> block) \<Rightarrow> nat set \<Rightarrow>
    nat list \<Rightarrow> bool" where
  "log_view s base post H L \<longleftrightarrow>
     (\<exists>c. log_rel s base post c H L \<and> (\<forall>x<log_start s. c x = post x))"

lemma log_view_get:
  assumes "log_view s base post H L" and "sec \<notin> H" and "sec < log_start s"
    and "sec \<in> set L \<or> card (H \<union> set L) < NBUF"
  shows "\<exists>b t. bread 1 sec s = Ok (b, t) \<and> log_view t base post (insert sec H) L \<and>
    handle t b sec \<and> keeps_handles s t \<and> log_rest t = log_rest s"
proof -
  obtain c where c: "log_rel s base post c H L" "\<forall>x<log_start s. c x = post x"
    using assms(1) by (auto simp: log_view_def)
  obtain b t where "bread 1 sec s = Ok (b, t)" "log_rel t base post c (insert sec H) L"
      "handle t b sec" "keeps_handles s t" "log_rest t = log_rest s"
    using log_bread_law [OF c(1) assms(2-4)] by blast
  then show ?thesis using c(2) log_restD(1) [of t s] unfolding log_view_def by metis
qed

lemma log_view_put:
  assumes "log_view s base post H L" and h: "handle s b sec"
  shows "\<exists>t. brelse b s = Ok t \<and> log_view t base post (H - {sec}) L \<and>
    (\<forall>b' x. b' \<noteq> b \<longrightarrow> handle s b' x \<longrightarrow> handle t b' x) \<and> log_rest t = log_rest s"
proof -
  obtain c where c: "log_rel s base post c H L" "\<forall>x<log_start s. c x = post x"
    using assms(1) by (auto simp: log_view_def)
  have "sec < log_start s" using c(1) bio_rel_held [OF _ h] by (auto simp: log_rel_def)
  then have "c sec = post sec" using c(2) by blast
  from log_brelse_law [OF c(1) h this] obtain t where "brelse b s = Ok t"
      "log_rel t base post c (H - {sec}) L" "log_rest t = log_rest s"
      "\<forall>b' x. b' \<noteq> b \<longrightarrow> handle s b' x \<longrightarrow> handle t b' x" by blast
  then show ?thesis using c(2) log_restD(1) [of t s] unfolding log_view_def by metis
qed

lemma log_view_log:
  assumes "log_view s base post H L" and h: "handle s b sec" and lim: "length L < log_limit s"
    and room: "card (H \<union> set L) < NBUF"
  shows "\<exists>t. log_write b (set_data b d s) = Ok t \<and>
    log_view t base (post(sec := d)) H (log_add sec L) \<and> keeps_handles s t \<and>
    log_rest t = log_rest s"
proof -
  obtain c where c: "log_rel s base post c H L" "\<forall>x<log_start s. c x = post x"
    using assms(1) by (auto simp: log_view_def)
  let ?s = "set_data b d s"
  have s: "log_rel ?s base post (c(sec := d)) H L" "keeps_handles s ?s" "log_rest ?s = log_rest s"
    using log_set_data_law [OF c(1) h] by blast+
  have h': "handle ?s b sec" and lim': "length L < log_limit ?s"
    using s(2,3) h lim log_restD(6) [OF s(3)] by (simp_all add: keeps_handles_def)
  obtain t c' where t: "log_write b ?s = Ok t" "\<forall>x<log_start ?s. c' x = (c(sec := d)) x"
      "log_rel t base (post(sec := d)) c' H (log_add sec L)" "keeps_handles ?s t"
      "log_rest t = log_rest ?s"
    using log_write_law [OF s(1) h' lim' room] by auto
  have "\<forall>x<log_start t. c' x = (post(sec := d)) x"
    using t(2) c(2) log_restD(1) [OF t(5)] log_restD(1) [OF s(3)] by simp
  then have "log_view t base (post(sec := d)) H (log_add sec L)"
    using t(3) unfolding log_view_def by blast
  moreover have "keeps_handles s t" using s(2) t(4) by (simp add: keeps_handles_def)
  ultimately show ?thesis using t(1,5) s(3) by simp
qed

lemma log_view_direct:
  assumes "log_view s base post H L" and h: "handle s b sec" and n: "sec \<notin> set L"
  shows "\<exists>t. bwrite b (set_data b d s) = Ok t \<and>
    log_view t (base(sec := d)) (post(sec := d)) H L \<and> keeps_handles s t \<and>
    log_rest t = log_rest s"
proof -
  obtain c where c: "log_rel s base post c H L" "\<forall>x<log_start s. c x = post x"
    using assms(1) by (auto simp: log_view_def)
  let ?s = "set_data b d s" and ?c = "c(sec := d)"
  have s: "log_rel ?s base post ?c H L" "keeps_handles s ?s" "log_rest ?s = log_rest s"
    using log_set_data_law [OF c(1) h] by blast+
  have h': "handle ?s b sec" using s(2) h by (simp add: keeps_handles_def)
  obtain t where t: "bwrite b ?s = Ok t" "log_rel t (base(sec := ?c sec)) (post(sec := ?c sec)) ?c H L"
      "keeps_handles ?s t" "log_rest t = log_rest ?s"
    using log_bwrite_law [OF s(1) h' n] by blast
  have "\<forall>x<log_start t. ?c x = (post(sec := d)) x"
    using c(2) log_restD(1) [OF t(4)] log_restD(1) [OF s(3)] by simp
  moreover have "log_rel t (base(sec := d)) (post(sec := d)) ?c H L" using t(2) by simp
  ultimately have "log_view t (base(sec := d)) (post(sec := d)) H L"
    unfolding log_view_def by blast
  moreover have "keeps_handles s t" using s(2) t(3) by (simp add: keeps_handles_def)
  ultimately show ?thesis using t(1,4) s(3) by simp
qed

lemma log_view_bio:
  assumes "log_view s base post H L"
  obtains c where "bio_rel s c H (set L)" and "\<forall>x<log_start s. c x = post x"
    and "\<forall>x\<in>H. x < log_start s"
  using assms by (auto simp: log_view_def log_rel_def)

lemma log_view_data:
  assumes "log_view s base post H L" and "handle s b sec"
  shows "b_data (bufs s b) = post sec" and "sec \<in> H"
proof -
  obtain c where c: "bio_rel s c H (set L)" "\<forall>x<log_start s. c x = post x" "\<forall>x\<in>H. x < log_start s"
    using log_view_bio [OF assms(1)] .
  show "sec \<in> H" using bio_rel_held [OF c(1) assms(2)] .
  then show "b_data (bufs s b) = post sec" using bio_rel_handle_data [OF c(1) assms(2)] c by simp
qed

interpretation tx: txn_store log_view handle "\<lambda>s b. b_data (bufs s b)" "bread 1" brelse bwrite
  log_write set_data log_start log_limit NBUF log_rest
proof (unfold_locales, goal_cases)
  case 1
  then show ?case using log_view_get unfolding keeps_handles_def by metis
next
  case 2
  then show ?case by (rule log_view_put)
next
  case 3
  then show ?case using log_view_log unfolding keeps_handles_def by metis
next
  case 4
  then show ?case using log_view_direct unfolding keeps_handles_def by metis
next
  case 5
  then show ?case by (rule log_view_data)
next
  case 6
  then show ?case by (rule log_view_data)
next
  case 7
  then show ?case by (auto simp: handle_def)
next
  case 8
  then show ?case using log_view_bio bio_rel_finite by metis
next
  case 9
  then show ?case using log_restD by blast
qed

lemma log_view_begin:
  "log_view s base post H L \<Longrightarrow> \<not> log_busy s \<Longrightarrow>
   \<exists>t. begin_trans s = Ok t \<and> log_view t base post H L \<and> log_busy t \<and> log_start t = log_start s \<and>
     log_size t = log_size s \<and> disksize t = disksize s \<and> log_state.more t = log_state.more s"
  by (simp add: begin_trans_def log_view_def log_rel_def log_mem_def log_disk_def)


text \<open>A commit with some blocks held, none of them logged.\<close>

lemma log_view_commit:
  assumes "log_view s base post H L" and "H \<inter> set L = {}" and "card (H \<union> set L) < NBUF"
  shows "\<exists>t. commit_trans s = Ok t \<and> log_view t post post H [] \<and> keeps_handles s t \<and>
    log_rest t = log_rest (s\<lparr>log_busy := False\<rparr>)"
proof -
  obtain c where c: "log_rel s base post c H L" "\<forall>x<log_start s. c x = post x"
    using assms(1) by (auto simp: log_view_def)
  then have "\<forall>x\<in>H. c x = post x" by (simp add: log_rel_def)
  then obtain t c' where t: "commit_trans s = Ok t" "log_rel t post post c' H []" "\<forall>x\<in>H. c' x = post x"
    "keeps_handles s t" "log_rest t = log_rest (s\<lparr>log_busy := False\<rparr>)"
    using commit_held_law [OF c(1) assms(2,3)] by blast
  have "\<forall>x<log_start t. c' x = post x" using t(2,3) unfolding log_rel_def by blast
  then show ?thesis using t unfolding log_view_def by blast
qed

section \<open>Transactions as sequences of steps\<close>

text \<open>
  What file system code does between \<^verbatim>\<open>begin_trans\<close> and \<^verbatim>\<open>commit_trans\<close>: it reads
  blocks, changes and logs the blocks it holds, and releases them, in any order.
\<close>

inductive tx_step :: "'a log_state_scheme \<Rightarrow> 'a log_state_scheme \<Rightarrow> bool" where
  tx_read: "sec < log_start s \<Longrightarrow> bread 1 sec s = Ok (b, t) \<Longrightarrow> tx_step s t"
| tx_log: "handle s b sec \<Longrightarrow> log_write b (set_data b d s) = Ok t \<Longrightarrow> tx_step s t"
| tx_release: "handle s b sec \<Longrightarrow> brelse b s = Ok t \<Longrightarrow> tx_step s t"

inductive_cases tx_stepE: "tx_step s t"

lemma log_write_guards:
  assumes "log_write b s = Ok t" and "log_mem s L"
  shows "length L < log_limit s"
    and "\<exists>l u. bread (b_dev (bufs s b)) (w32 (log_start s + log_slot (b_sector (bufs s b)) s + 1))
      (s\<lparr>lh_sector := (lh_sector s)[log_slot (b_sector (bufs s b)) s := b_sector (bufs s b)]\<rparr>) =
      Ok (l, u)"
  using assms
  by (auto simp: log_write_def log_limit_def log_mem_def Let_def andthen_eq_Ok split: if_splits)

text \<open>A \<^verbatim>\<open>log_write\<close> that returns had a buffer to copy the block through.\<close>

lemma log_write_room:
  assumes rel: "log_rel s base post c H L" and h: "handle s b sec" and ok: "log_write b s = Ok t"
  shows "length L < log_limit s" and "card (H \<union> set L) < NBUF"
proof -
  have b: "bio_rel s c H (set L)" and m: "log_mem s L" and Hs: "\<forall>x\<in>H. x < log_start s"
    using rel by (simp_all add: log_rel_def)
  show lim: "length L < log_limit s" using log_write_guards(1) [OF ok m] .
  let ?i = "log_slot sec s" and ?a = "log_start s + log_slot sec s + 1"
  let ?s = "s\<lparr>lh_sector := (lh_sector s)[?i := sec]\<rparr>"
  have i: "?i \<le> length L" by (simp add: log_slot_eq [OF m] length_takeWhile_le)
  have a: "?a \<notin> H" "?a \<notin> set L" "?a < disksize ?s" "w32 ?a = ?a"
    using Hs m i lim by (auto simp: log_mem_def log_limit_def split: if_splits)
  obtain l u where "bread 1 ?a ?s = Ok (l, u)"
    using log_write_guards(2) [OF ok m] handle_fields [OF h] a(4) by auto
  moreover have "bio_rel ?s c H (set L)" using b by simp
  ultimately have "bio_rel u c (insert ?a H) (set L)" using bread_ok_law a(3) by blast
  then have "card (insert ?a H \<union> set L) \<le> NBUF" by (rule bio_rel_card_le)
  moreover have "insert ?a H \<union> set L = insert ?a (H \<union> set L)" "finite (H \<union> set L)"
    using bio_rel_finite [OF b] by auto
  ultimately show "card (H \<union> set L) < NBUF" using a(1,2) by simp
qed

lemma tx_step_view:
  assumes "tx_step s t" and "log_view s base post H L"
  shows "\<exists>post' H' L'. log_view t base post' H' L' \<and> log_rest t = log_rest s"
  using assms(1)
proof cases
  case (tx_read sec b)
  obtain c where c: "log_rel s base post c H L" "\<forall>x<log_start s. c x = post x"
    using assms(2) by (auto simp: log_view_def)
  have "bio_rel s c H (set L)" "sec < disksize s"
    using c(1) tx_read(1) by (simp_all add: log_rel_def log_mem_def)
  then have t: "bio_rel t c (insert sec H) (set L)" "bio_frame s t"
    using bread_ok_law tx_read(2) by blast+
  have "log_rel t base post c (insert sec H) L \<and> log_rest t = log_rest s"
    by (rule log_rel_frame [OF c(1) t(2,1)]) (use c tx_read(1) in \<open>auto simp: log_rel_def\<close>)
  then show ?thesis using c(2) log_restD(1) unfolding log_view_def by metis
next
  case (tx_log b sec d)
  obtain c where c: "log_rel s base post c H L" using assms(2) by (auto simp: log_view_def)
  have "log_rel (set_data b d s) base post (c(sec := d)) H L" "handle (set_data b d s) b sec"
    "log_rest (set_data b d s) = log_rest s"
    using log_set_data_law [OF c tx_log(1)] tx_log(1) by (auto simp: keeps_handles_def)
  then have "length L < log_limit s" "card (H \<union> set L) < NBUF"
    using log_write_room tx_log(2) log_restD(6) by metis+
  then show ?thesis using log_view_log [OF assms(2) tx_log(1), of d] tx_log(2) by auto
next
  case (tx_release b sec)
  then show ?thesis using log_view_put [OF assms(2)] by force
qed

lemma tx_steps_view:
  assumes "tx_step\<^sup>*\<^sup>* s t" and "log_view s base post H L"
  shows "\<exists>post' H' L'. log_view t base post' H' L' \<and> log_rest t = log_rest s"
  using assms(1)
proof (induction rule: rtranclp_induct)
  case base
  then show ?case using assms(2) by blast
next
  case (step t u)
  then show ?case using tx_step_view by metis
qed

text \<open>Before the commit the disk still describes the file system from before.\<close>

lemma tx_crash:
  assumes v: "log_view s base post H L"
    and sb: "log_super base (log_start s) (nat (log_size s)) (disksize s)"
    and on: "powered_on z" and z: "memdisk z = memdisk s" "disksize z = disksize s"
  shows "\<exists>t. initlog (binit z) = Ok t \<and> (\<forall>x<log_start s. memdisk t x = base x)"
proof -
  have dk: "log_disk s base post L" using v by (auto simp: log_view_def log_rel_def)
  have "memdisk z 1 = base 1" using dk sb z(1) by (simp add: log_disk_def log_super_def)
  then have sbz: "log_super (memdisk z) (log_start s) (nat (log_size s)) (disksize z)"
    using log_super_home [OF sb] z(2) by simp
  have im: "log_image (memdisk z) (log_start s) []"
    using dk z(1) by (simp add: log_disk_def log_image_def)
  have "length [] < nat (log_size s)" using sb by (simp add: log_super_def)
  then obtain t where "initlog (binit z) = Ok t"
    "\<forall>x < log_start s. memdisk t x = redo (memdisk z) (log_start s) [] x"
    using boot_law [OF on sbz im] by blast
  then show ?thesis using dk z(1) by (simp add: log_disk_def)
qed

text \<open>The kernel's statics as the loader leaves them, on a machine with a given disk.\<close>

definition power_on :: "(nat \<Rightarrow> block) \<Rightarrow> nat \<Rightarrow> 'a \<Rightarrow> 'a log_state_scheme" where
  "power_on d n m = \<lparr>memdisk = d, disksize = n, iotrace = [],
     bufs = (\<lambda>_. \<lparr>b_busy = False, b_valid = False, b_dirty = False, b_dev = 0, b_sector = 0,
       b_prev = 0, b_next = 0, b_data = zero_block\<rparr>),
     log_start = 0, log_size = 0, log_busy = False, log_dev = 0, lh_n = 0,
     lh_sector = replicate LOGSIZE 0, \<dots> = m\<rparr>"

definition mkfs_disk :: "nat \<Rightarrow> block" where
  "mkfs_disk = (\<lambda>_. zero_block)(1 := mkfs_super)"

lemma powered_on_power_on: "powered_on (power_on d n m)"
  by (simp add: powered_on_def power_on_def)

lemma mkfs_disk_log:
  "log_super mkfs_disk 1016 10 1026" "log_image mkfs_disk 1016 []"
  by (simp_all add: log_super_def mkfs_disk_def mkfs_super_fields log_image_def head_n_def int_of_def)

text \<open>Booting from a clean disk starts the log with nothing in it.\<close>

lemma boot_view:
  assumes "log_super d st sz n" and "log_image d st []"
  shows "\<exists>s. initlog (binit (power_on d n m)) = Ok s \<and> log_view s d d {} [] \<and>
    log_start s = st \<and> log_size s = int sz \<and> disksize s = n \<and> \<not> log_busy s \<and> log_state.more s = m"
proof -
  have "length [] < sz" using assms(1) by (simp add: log_super_def)
  moreover have "memdisk (power_on d n m) = d" "disksize (power_on d n m) = n"
    "\<not> log_busy (power_on d n m)" "log_state.more (power_on d n m) = m" by (simp_all add: power_on_def)
  ultimately obtain s where s: "initlog (binit (power_on d n m)) = Ok s"
    "log_rel s (memdisk s) (memdisk s) (memdisk s) {} []" "\<forall>x < st. memdisk s x = d x"
    "log_start s = st" "log_size s = int sz" "disksize s = n" "\<not> log_busy s" "log_state.more s = m"
    using boot_law [OF powered_on_power_on, of d n m st sz "[]"] assms by auto
  have "log_rel s d d (memdisk s) {} []"
    using s(2,3,4) unfolding log_rel_def log_disk_def by simp
  then have "log_view s d d {} []"
    using s(3,4) unfolding log_view_def by blast
  with s show ?thesis by blast
qed

text \<open>A transaction that has changed one block, for the examples.\<close>

lemma example_txn:
  "\<exists>s :: log_state. log_view s mkfs_disk (mkfs_disk(100 := zero_block[0 := 7])) {} [100] \<and>
     log_start s = 1016 \<and> log_size s = 10 \<and> disksize s = 1026 \<and> log_busy s"
proof -
  obtain s :: log_state where s: "log_view s mkfs_disk mkfs_disk {} []"
    "log_start s = 1016" "log_size s = 10" "disksize s = 1026" "\<not> log_busy s"
    using boot_view [OF mkfs_disk_log, of "()"] by auto
  then obtain t :: log_state where t: "log_view t mkfs_disk mkfs_disk {} []" "log_busy t"
    "log_start t = 1016" "log_size t = 10" "disksize t = 1026"
    using log_view_begin [OF s(1)] by auto
  then obtain u :: log_state where "log_view u mkfs_disk (mkfs_disk(100 := zero_block[0 := 7])) {} (log_add 100 [])"
    "log_rest u = log_rest t"
    using tx.update [OF t(1), of 100 "zero_block[0 := 7]"] by (auto simp: log_limit_def)
  then show ?thesis using t log_restD [of u t] by (auto simp: log_add_def)
qed

section \<open>Properties of the log\<close>

text \<open>
  C1: a commit is atomic under power failure. With nothing held, \<^verbatim>\<open>commit_trans\<close>
  returns and installs the transaction; and if only the first \<open>k\<close> of the block writes
  it makes reach the disk before power is lost, booting (\<^verbatim>\<open>binit\<close>, \<^verbatim>\<open>initlog\<close>) succeeds and
  gives exactly the home blocks from before the transaction (\<open>k = 0\<close>) or exactly those
  after it (\<open>k > 0\<close>).
\<close>

theorem commit_trans_crash_atomic:
  assumes "log_view s base post {} L" and "1 \<notin> set L"
    and "log_super base (log_start s) (nat (log_size s)) (disksize s)"
  shows "\<exists>t ws. commit_trans s = Ok t \<and> iotrace t = iotrace s @ ws \<and> \<not> log_busy t \<and>
    log_view t post post {} [] \<and> (\<forall>x<log_start s. memdisk t x = post x) \<and>
    (\<forall>k (z :: 'b log_state_scheme). powered_on z \<and> disksize z = disksize s \<and>
        memdisk z = disk_after (memdisk s) (take k ws) \<longrightarrow>
      (\<exists>u. initlog (binit z) = Ok u \<and>
        (\<forall>x<log_start s. memdisk u x = (if k = 0 then base x else post x))))"
proof -
  obtain c where c: "log_rel s base post c {} L" using assms(1) by (auto simp: log_view_def)
  obtain t where t: "commit_trans s = Ok t" "log_rel t post post (memdisk t) {} []"
    "iotrace t = iotrace s @ commit_writes s L" "log_rest t = log_rest (s\<lparr>log_busy := False\<rparr>)"
    using commit_law [OF c] by blast
  have st: "log_start t = log_start s" "\<not> log_busy t" using t(4) by (simp_all add: log_rest_def)
  have post: "\<forall>x<log_start s. memdisk t x = post x"
    using t(2) st by (simp add: log_rel_def log_disk_def)
  then have "log_view t post post {} []"
    using t(2) st unfolding log_view_def by metis
  moreover have "\<forall>k (z :: 'b log_state_scheme). powered_on z \<and> disksize z = disksize s \<and>
      memdisk z = disk_after (memdisk s) (take k (commit_writes s L)) \<longrightarrow>
    (\<exists>u. initlog (binit z) = Ok u \<and>
      (\<forall>x<log_start s. memdisk u x = (if k = 0 then base x else post x)))"
    using commit_crash [OF c assms(2,3)] by blast
  ultimately show ?thesis
    using t(1,3) st(2) post by blast
qed

theorem commit_trans_crash_atomic_witness:
  "\<exists>(s :: log_state) t ws. commit_trans s = Ok t \<and> iotrace t = iotrace s @ ws \<and>
     memdisk t 100 = zero_block[0 := 7] \<and>
     (\<forall>k z. powered_on (z :: log_state) \<and> disksize z = disksize s \<and>
        memdisk z = disk_after (memdisk s) (take k ws) \<longrightarrow>
      (\<exists>u. initlog (binit z) = Ok u \<and>
        memdisk u 100 = (if k = 0 then zero_block else zero_block[0 := 7])))"
proof -
  obtain s :: log_state where s: "log_view s mkfs_disk (mkfs_disk(100 := zero_block[0 := 7])) {} [100]"
     "log_start s = 1016" "log_size s = 10" "disksize s = 1026" using example_txn by blast
  have "1 \<notin> set [100 :: nat]" "log_super mkfs_disk (log_start s) (nat (log_size s)) (disksize s)"
    using mkfs_disk_log(1) s by simp_all
  from commit_trans_crash_atomic [OF s(1) this] obtain t ws where
    t: "commit_trans s = Ok t" "iotrace t = iotrace s @ ws"
      "\<forall>x<log_start s. memdisk t x = (mkfs_disk(100 := zero_block[0 := 7])) x" and
    z: "\<forall>k (z :: log_state). powered_on z \<and> disksize z = disksize s \<and>
        memdisk z = disk_after (memdisk s) (take k ws) \<longrightarrow>
      (\<exists>u. initlog (binit z) = Ok u \<and> (\<forall>x<log_start s. memdisk u x =
        (if k = 0 then mkfs_disk x else (mkfs_disk(100 := zero_block[0 := 7])) x)))" by blast
  have 100: "100 < log_start s" "mkfs_disk 100 = zero_block"
    using s(2) by (simp_all add: mkfs_disk_def)
  have "memdisk t 100 = zero_block[0 := 7]" using t(3) 100 by simp
  moreover have "\<forall>k (z :: log_state). powered_on z \<and> disksize z = disksize s \<and>
        memdisk z = disk_after (memdisk s) (take k ws) \<longrightarrow>
      (\<exists>u. initlog (binit z) = Ok u \<and>
        memdisk u 100 = (if k = 0 then zero_block else zero_block[0 := 7]))"
    using z 100 by (metis fun_upd_same)
  ultimately show ?thesis using t(1,2) by blast
qed

text \<open>
  C2: nothing of a transaction survives a crash before its commit. After \<^verbatim>\<open>begin_trans\<close>
  and any sequence of reads, logged changes and releases, in any order, the disk
  still boots to the home blocks from before the transaction.
\<close>

theorem uncommitted_transaction_invisible:
  assumes "log_view s d d {} []" and "log_super d (log_start s) (nat (log_size s)) (disksize s)"
    and "begin_trans s = Ok t" and "tx_step\<^sup>*\<^sup>* t u"
    and "powered_on z" and "memdisk z = memdisk u" and "disksize z = disksize s"
  shows "\<exists>v. initlog (binit z) = Ok v \<and> (\<forall>x<log_start s. memdisk v x = d x)"
proof -
  have t: "log_view t d d {} []" "log_start t = log_start s" "log_size t = log_size s"
    "disksize t = disksize s"
    using log_view_begin [OF assms(1)] assms(3) by (auto simp: begin_trans_def split: if_splits)
  obtain post H L where "log_view u d post H L" "log_rest u = log_rest t"
    using tx_steps_view [OF assms(4) t(1)] by blast
  then show ?thesis
    using tx_crash [of u d post H L z] assms(2,5-7) t log_restD [of u t] by simp
qed

lemma example_boot:
  "\<exists>s :: log_state. log_view s mkfs_disk mkfs_disk {} [] \<and>
     log_start s = 1016 \<and> log_size s = 10 \<and> disksize s = 1026 \<and> \<not> log_busy s"
  using boot_view [OF mkfs_disk_log, of "()"] by auto

theorem uncommitted_transaction_invisible_witness:
  "\<exists>(s :: log_state) t b u z :: log_state. begin_trans s = Ok t \<and> bread 1 100 t = Ok (b, u) \<and>
     powered_on z \<and> memdisk z = memdisk u \<and>
     (\<exists>v. initlog (binit z) = Ok v \<and> (\<forall>x<1016. memdisk v x = mkfs_disk x))"
proof -
  obtain s :: log_state where s: "log_view s mkfs_disk mkfs_disk {} []"
    "log_start s = 1016" "log_size s = 10" "disksize s = 1026" "\<not> log_busy s"
    using example_boot by blast
  obtain t :: log_state where t: "begin_trans s = Ok t" "log_view t mkfs_disk mkfs_disk {} []"
    "log_start t = 1016"
    using log_view_begin [OF s(1,5)] s(2) by auto
  obtain b u where u: "bread 1 100 t = Ok (b, u)"
    using log_view_get [OF t(2), of 100] t(3) by auto
  have st: "tx_step\<^sup>*\<^sup>* t u" using tx_read [OF _ u] t(3) by simp
  let ?z = "power_on (memdisk u) 1026 () :: log_state"
  have z: "powered_on ?z" "memdisk ?z = memdisk u" "disksize ?z = disksize s"
    using powered_on_power_on s(4) by (auto simp: power_on_def)
  have "log_super mkfs_disk (log_start s) (nat (log_size s)) (disksize s)"
    using mkfs_disk_log(1) s by simp
  then have "\<exists>v. initlog (binit ?z) = Ok v \<and> (\<forall>x<log_start s. memdisk v x = mkfs_disk x)"
    using uncommitted_transaction_invisible [OF s(1) _ t(1) st z] by blast
  then show ?thesis using t(1) u z s(2) by metis
qed

text \<open>
  C3: recovery after a crash is complete and may itself be interrupted. From any disk
  whose log header lists the distinct home sectors \<open>L\<close>, booting copies block \<open>i\<close> of the
  log to \<open>L ! i\<close>, changes no other home block and clears the header; and if power
  is lost after any prefix of those writes, booting again ends in the same home blocks.
\<close>

theorem recovery_correct_and_restartable:
  fixes z :: "'a log_state_scheme"
  assumes "powered_on z" and "log_super (memdisk z) st sz (disksize z)"
    and "log_image (memdisk z) st L" and "length L < sz" and "1 \<notin> set L"
  shows "\<exists>t ws. initlog (binit z) = Ok t \<and> iotrace t = iotrace z @ ws \<and>
    head_n (memdisk t st) = 0 \<and>
    (\<forall>i<length L. memdisk t (L ! i) = memdisk z (st + i + 1)) \<and>
    (\<forall>x < st. x \<notin> set L \<longrightarrow> memdisk t x = memdisk z x) \<and>
    (\<forall>k (y :: 'a log_state_scheme). powered_on y \<and> disksize y = disksize z \<and>
        memdisk y = disk_after (memdisk z) (take k ws) \<longrightarrow>
      (\<exists>u. initlog (binit y) = Ok u \<and> (\<forall>x < st. memdisk u x = memdisk t x)))"
proof -
  obtain t secs where t: "initlog (binit z) = Ok t"
    "log_rel t (memdisk t) (memdisk t) (memdisk t) {} []" "log_start t = st"
    "iotrace t = iotrace z @ recovery_writes (memdisk z) st L secs"
    "\<forall>x < st. memdisk t x = redo (memdisk z) st L x"
    using boot_law [OF assms(1-4)] by blast
  let ?ws = "recovery_writes (memdisk z) st L secs"
  have L: "distinct L" "\<forall>x\<in>set L. x < st" using assms(3) by (simp_all add: log_image_def)
  have "head_n (memdisk t st) = 0" using t(2,3) by (simp add: log_rel_def log_disk_def)
  moreover have "\<forall>i<length L. memdisk t (L ! i) = memdisk z (st + i + 1)"
    "\<forall>x < st. x \<notin> set L \<longrightarrow> memdisk t x = memdisk z x"
    using t(5) L by (simp_all add: redo_in redo_out)
  moreover have "\<exists>u. initlog (binit y) = Ok u \<and> (\<forall>x < st. memdisk u x = memdisk t x)"
    if y: "powered_on y" "disksize y = disksize z" "memdisk y = disk_after (memdisk z) (take k ?ws)"
    for k and y :: "'a log_state_scheme"
  proof -
    obtain L' where L': "log_image (memdisk y) st L'" "length L' \<le> length L"
        "\<forall>x < st. redo (memdisk y) st L' x = redo (memdisk z) st L x"
      using recovery_prefix [OF assms(3), of k secs] y(3) by auto
    have "1 \<notin> fst ` set (take k ?ws)"
      using assms(2,5) home_writes_keys [of "length L" L st "memdisk z"]
      by (auto simp: recovery_writes_def log_super_def dest!: in_set_takeD)
    then have sb: "log_super (memdisk y) st sz (disksize y)"
      using log_super_home [OF assms(2)] y disk_after_other by metis
    have "length L' < sz" using L'(2) assms(4) by simp
    from boot_law [OF y(1) sb L'(1) this] L'(3) t(5) show ?thesis by (metis (no_types))
  qed
  ultimately show ?thesis using t(1,4) by blast
qed

lemma example_log_image:
  "log_image (mkfs_disk(1016 := put_head 1 [100] zero_block)) 1016 [100]"
  by (simp add: log_image_def head_n_def head_sector_def put_head_def layout int_of_def of_int32_def)

theorem recovery_correct_and_restartable_witness:
  "\<exists>t. initlog (binit (power_on (mkfs_disk(1016 := put_head 1 [100] zero_block,
      1017 := zero_block[3 := 9])) 1026 () :: log_state)) = Ok t \<and>
    head_n (memdisk t 1016) = 0 \<and> memdisk t 100 = zero_block[3 := 9] \<and> memdisk t 1 = mkfs_super"
proof -
  let ?d = "mkfs_disk(1016 := put_head 1 [100] zero_block, 1017 := zero_block[3 := 9])"
  let ?z = "power_on ?d 1026 () :: log_state"
  have d: "memdisk ?z = ?d" "disksize ?z = 1026" by (simp_all add: power_on_def)
  have im: "log_image (memdisk ?z) 1016 [100]"
    using example_log_image unfolding d by (simp add: log_image_def)
  have sb: "log_super (memdisk ?z) 1016 10 (disksize ?z)"
    using log_super_home [OF mkfs_disk_log(1), of ?d] unfolding d by (simp add: mkfs_disk_def)
  obtain t where t: "initlog (binit ?z) = Ok t" "head_n (memdisk t 1016) = 0"
    "\<forall>i<length [100 :: nat]. memdisk t ([100] ! i) = memdisk ?z (1016 + i + 1)"
    "\<forall>x < 1016. x \<notin> set [100] \<longrightarrow> memdisk t x = memdisk ?z x"
    using recovery_correct_and_restartable [OF powered_on_power_on sb im] by auto
  have "memdisk t 100 = zero_block[3 := 9]" using t(3) d(1) by (simp add: power_on_def)
  moreover have "memdisk t 1 = mkfs_super" using t(4) d(1) by (simp add: mkfs_disk_def)
  ultimately show ?thesis using t(1,2) by blast
qed


text \<open>
  C9: what \<^verbatim>\<open>log_write\<close> does with a held block, on every branch. A full log panics
  (also when the block is already logged and needs no slot), so does a call outside
  a transaction; otherwise, with a free buffer, it returns and the new contents are
  part of the transaction: in a new slot, or in the old one if the block was logged
  before (absorption), while the blocks a crash brings back are unchanged.
\<close>

theorem log_write_outcomes:
  assumes "log_view s base post H L" and "handle s b sec"
  shows "(LOGSIZE \<le> length L \<or> log_size s - 1 \<le> int (length L) \<longrightarrow>
      log_write b s = Panic ''too big a transaction'') \<and>
    (length L < LOGSIZE \<and> int (length L) < log_size s - 1 \<and> \<not> log_busy s \<longrightarrow>
      log_write b s = Panic ''write outside of trans'') \<and>
    (length L < LOGSIZE \<and> int (length L) < log_size s - 1 \<and> log_busy s \<and>
      card (H \<union> set L) < NBUF \<longrightarrow>
      (\<exists>t. log_write b (set_data b d s) = Ok t \<and> handle t b sec \<and> b_data (bufs t b) = d \<and>
        log_view t base (post(sec := d)) H (if sec \<in> set L then L else L @ [sec])))"
proof (intro conjI impI)
  have m: "lh_n s = int (length L)" using assms(1) by (auto simp: log_view_def log_rel_def log_mem_def)
  show "log_write b s = Panic ''too big a transaction''"
    if "LOGSIZE \<le> length L \<or> log_size s - 1 \<le> int (length L)"
    using that m by (auto simp: log_write_def)
  show "log_write b s = Panic ''write outside of trans''"
    if "length L < LOGSIZE \<and> int (length L) < log_size s - 1 \<and> \<not> log_busy s"
    using that m by (simp add: log_write_def)
  show "\<exists>t. log_write b (set_data b d s) = Ok t \<and> handle t b sec \<and> b_data (bufs t b) = d \<and>
        log_view t base (post(sec := d)) H (if sec \<in> set L then L else L @ [sec])"
    if a: "length L < LOGSIZE \<and> int (length L) < log_size s - 1 \<and> log_busy s \<and>
      card (H \<union> set L) < NBUF"
  proof -
    have "length L < log_limit s" using a by (auto simp: log_limit_def)
    then obtain t where t: "log_write b (set_data b d s) = Ok t"
        "log_view t base (post(sec := d)) H (log_add sec L)" "keeps_handles s t"
      using log_view_log [OF assms] a by blast
    have h: "handle t b sec" using t(3) assms(2) by (simp add: keeps_handles_def)
    have "b_data (bufs t b) = d" using log_view_data(1) [OF t(2) h] by simp
    then show ?thesis using t(1,2) h unfolding log_add_def by blast
  qed
qed

theorem log_write_outcomes_witness:
  "\<exists>(s :: log_state) b t. b_data (bufs s b) = zero_block[0 := 7] \<and>
     log_write b (set_data b (zero_block[0 := 8]) s) = Ok t \<and> lh_n t = 1 \<and>
     b_data (bufs t b) = zero_block[0 := 8]"
proof -
  obtain s :: log_state where s: "log_view s mkfs_disk (mkfs_disk(100 := zero_block[0 := 7])) {} [100]"
     "log_start s = 1016" "log_size s = 10" "disksize s = 1026" "log_busy s" using example_txn by blast
  obtain b t where t: "log_view t mkfs_disk (mkfs_disk(100 := zero_block[0 := 7])) {100} [100]"
     "handle t b 100" "log_rest t = log_rest s"
    using log_view_get [OF s(1), of 100] s(2) by auto
  have lim: "length [100 :: nat] < LOGSIZE \<and> int (length [100 :: nat]) < log_size t - 1 \<and> log_busy t \<and>
      card ({100} \<union> set [100 :: nat]) < NBUF"
    using s log_restD [OF t(3)] by simp
  obtain u where u: "log_write b (set_data b (zero_block[0 := 8]) t) = Ok u"
    "b_data (bufs u b) = zero_block[0 := 8]"
    "log_view u mkfs_disk (mkfs_disk(100 := zero_block[0 := 7], 100 := zero_block[0 := 8])) {100} [100]"
    using log_write_outcomes [OF t(1,2), of "zero_block[0 := 8]"] lim by auto
  have "lh_n u = 1" using u(3) by (auto simp: log_view_def log_rel_def log_mem_def)
  moreover have "b_data (bufs t b) = zero_block[0 := 7]" using log_view_data(1) [OF t(1,2)] by simp
  ultimately show ?thesis using u by blast
qed

text \<open>
  A transaction reads its own writes. After a block is changed, logged and released,
  \<^verbatim>\<open>bread\<close> returns the new contents although its home on disk still has the old ones.
\<close>

theorem bread_returns_logged:
  assumes "log_view s base post H L" and "sec \<notin> H" and "sec < log_start s" and "log_busy s"
    and "length L < LOGSIZE" and "int (length L) < log_size s - 1"
    and "card (insert sec (H \<union> set L)) < NBUF"
  shows "\<exists>b t u v b' w. bread 1 sec s = Ok (b, t) \<and> log_write b (set_data b d t) = Ok u \<and>
    brelse b u = Ok v \<and> memdisk v sec = base sec \<and>
    bread 1 sec v = Ok (b', w) \<and> b_data (bufs w b') = d"
proof -
  have lim: "length L < log_limit s" using assms(4-6) by (auto simp: log_limit_def)
  have room: "card (insert sec H \<union> set L) < NBUF" using assms(7) by simp
  obtain b t u v where v: "bread 1 sec s = Ok (b, t)" "log_write b (set_data b d t) = Ok u"
      "brelse b u = Ok v" "log_view v base (post(sec := d)) H (log_add sec L)"
      "log_rest v = log_rest s"
    using tx.update [OF assms(1-3) lim room] by blast
  have sec: "sec < log_start v" using assms(3) log_restD(1) [OF v(5)] by simp
  then have "memdisk v sec = base sec"
    using v(4) by (auto simp: log_view_def log_rel_def log_disk_def)
  moreover obtain b' w where w: "bread 1 sec v = Ok (b', w)"
      "log_view w base (post(sec := d)) (insert sec H) (log_add sec L)" "handle w b' sec"
    using tx.get_law [OF v(4) assms(2) sec] by auto
  moreover have "b_data (bufs w b') = d" using log_view_data(1) [OF w(2,3)] by simp
  ultimately show ?thesis using v(1-3) by blast
qed

theorem bread_returns_logged_witness:
  "\<exists>(s :: log_state) b t u v b' w. bread 1 200 s = Ok (b, t) \<and>
    log_write b (set_data b (zero_block[1 := 5]) t) = Ok u \<and> brelse b u = Ok v \<and>
    memdisk v 200 = zero_block \<and> bread 1 200 v = Ok (b', w) \<and> b_data (bufs w b') = zero_block[1 := 5]"
proof -
  obtain s :: log_state where s: "log_view s mkfs_disk (mkfs_disk(100 := zero_block[0 := 7])) {} [100]"
     "log_start s = 1016" "log_size s = 10" "disksize s = 1026" "log_busy s" using example_txn by blast
  have m: "mkfs_disk 200 = zero_block" by (simp add: mkfs_disk_def)
  have a: "(200 :: nat) \<notin> {}" "200 < log_start s" "length [100 :: nat] < LOGSIZE"
    "int (length [100 :: nat]) < log_size s - 1" "card (insert 200 ({} \<union> set [100 :: nat])) < NBUF"
    using s by simp_all
  show ?thesis
    using bread_returns_logged [OF s(1) a(1,2) s(5) a(3-5), of "zero_block[1 := 5]"]
    unfolding m by blast
qed

end
