(* ===== verification/Xv6_Blocks.thy ===== *)
theory Xv6_Blocks
  imports Xv6_Log
begin

text \<open>
  The block layer of fs.c: zeroing, allocating and freeing disk blocks through the
  free bitmap, the reference counts that de-duplication keeps in two blocks after
  the bitmap, and \<^verbatim>\<open>getFreeBlocks\<close> of file.c.
\<close>

unbundle bit_operations_syntax

abbreviation BPB :: nat where "BPB \<equiv> 4096"
abbreviation IPB :: nat where "IPB \<equiv> 8"

section \<open>Data\<close>

text \<open>The globals of fs.c beside the caches.\<close>

record fs_state = log_state +
  nextInum :: int
  refCount1 :: nat
  refCount2 :: nat

section \<open>Operations\<close>

definition BBLOCK :: "nat \<Rightarrow> nat \<Rightarrow> nat" where
  "BBLOCK b ninodes = b div BPB + ninodes div IPB + 3"

text \<open>The bit of a bitmap block for its block number \<open>bi\<close>: test, set, clear.\<close>

definition blk_used :: "block \<Rightarrow> nat \<Rightarrow> bool" where
  "blk_used d bi \<longleftrightarrow> d ! (bi div 8) AND push_bit (bi mod 8) 1 \<noteq> 0"

definition set_used :: "block \<Rightarrow> nat \<Rightarrow> block" where
  "set_used d bi = d[bi div 8 := d ! (bi div 8) OR push_bit (bi mod 8) 1]"

definition clear_used :: "block \<Rightarrow> nat \<Rightarrow> block" where
  "clear_used d bi = d[bi div 8 := d ! (bi div 8) AND NOT (push_bit (bi mod 8) 1)]"

definition bzero :: "nat \<Rightarrow> nat \<Rightarrow> 'a log_state_scheme \<Rightarrow> 'a log_state_scheme outcome" where
  "bzero dev bno s =
     andthen (bread dev bno s) (\<lambda>(bp, s).
       let s = set_data bp (replicate BSIZE 0) s in
     andthen (log_write bp s) (\<lambda>s. brelse bp s))"

text \<open>
  The two loops of \<^verbatim>\<open>balloc\<close>; the inner one is a search for the first clear bit. The
  loop counters are ints that stay below the size of the file system.
\<close>

function balloc_from :: "nat \<Rightarrow> superblock \<Rightarrow> nat \<Rightarrow> 'a log_state_scheme \<Rightarrow>
    (nat \<times> 'a log_state_scheme) outcome" where
  "balloc_from dev sb b s =
     (if b < sb_size sb then
        andthen (bread dev (BBLOCK b (sb_ninodes sb)) s) (\<lambda>(bp, s).
          case find (\<lambda>bi. \<not> blk_used (b_data (bufs s bp)) bi) [0..<min BPB (sb_size sb - b)] of
            Some bi \<Rightarrow>
              (let s = set_data bp (set_used (b_data (bufs s bp)) bi) s in
               andthen (log_write bp s) (\<lambda>s.
               andthen (brelse bp s) (\<lambda>s.
               andthen (bzero dev (b + bi) s) (\<lambda>s. Ok (b + bi, s)))))
          | None \<Rightarrow> andthen (brelse bp s) (\<lambda>s. balloc_from dev sb (b + BPB) s))
      else Panic ''balloc: out of blocks'')"
  by pat_completeness auto

termination
  by (relation "measure (\<lambda>(dev, sb, b, s). sb_size sb - b)") auto

definition balloc :: "nat \<Rightarrow> 'a log_state_scheme \<Rightarrow> (nat \<times> 'a log_state_scheme) outcome" where
  "balloc dev s = andthen (readsb dev s) (\<lambda>(sb, s). balloc_from dev sb 0 s)"

definition bfree :: "nat \<Rightarrow> nat \<Rightarrow> 'a log_state_scheme \<Rightarrow> 'a log_state_scheme outcome" where
  "bfree dev b s =
     andthen (readsb dev s) (\<lambda>(sb, s).
     andthen (bread dev (BBLOCK b (sb_ninodes sb)) s) (\<lambda>(bp, s).
       let bi = b mod BPB in
       if \<not> blk_used (b_data (bufs s bp)) bi then Panic ''freeing free block''
       else let s = set_data bp (clear_used (b_data (bufs s bp)) bi) s in
         andthen (log_write bp s) (\<lambda>s. brelse bp s)))"

function free_blocks_from :: "superblock \<Rightarrow> nat \<Rightarrow> nat \<Rightarrow> 'a bio_state_scheme \<Rightarrow>
    (nat \<times> 'a bio_state_scheme) outcome" where
  "free_blocks_from sb b count s =
     (if b < sb_size sb then
        andthen (bread 1 (BBLOCK b (sb_ninodes sb)) s) (\<lambda>(bp, s).
          let n = length (filter (\<lambda>bi. \<not> blk_used (b_data (bufs s bp)) bi)
                    [0..<min BPB (sb_size sb - b)])
          in andthen (brelse bp s) (\<lambda>s. free_blocks_from sb (b + BPB) (count + n) s))
      else Ok (count, s))"
  by pat_completeness auto

termination
  by (relation "measure (\<lambda>(sb, b, count, s). sb_size sb - b)") auto

definition getFreeBlocks :: "'a bio_state_scheme \<Rightarrow> (nat \<times> 'a bio_state_scheme) outcome" where
  "getFreeBlocks s = andthen (readsb 1 s) (\<lambda>(sb, s). free_blocks_from sb 0 0 s)"

definition getRefCount :: "nat \<Rightarrow> 'a fs_state_scheme \<Rightarrow> (nat \<times> 'a fs_state_scheme) outcome" where
  "getRefCount ref s =
     andthen (if refCount1 s = 0
       then andthen (readsb 1 s) (\<lambda>(sb, s).
         Ok (s\<lparr>refCount1 := sb_refCount1 sb, refCount2 := sb_refCount2 sb\<rparr>))
       else Ok s) (\<lambda>s. Ok (if ref = 1 then refCount1 s else refCount2 s, s))"

text \<open>\<^verbatim>\<open>bp->data[i]++\<close> on a byte wraps around at 255; the decrement stops at 0.\<close>

definition bump_ref :: "int \<Rightarrow> block \<Rightarrow> nat \<Rightarrow> block" where
  "bump_ref flag d i =
     (if flag = 1 then d[i := d ! i + 1]
      else if flag = -1 then (if d ! i > 0 then d[i := d ! i - 1] else d)
      else d)"

definition updateBlkRef :: "nat \<Rightarrow> int \<Rightarrow> 'a fs_state_scheme \<Rightarrow> 'a fs_state_scheme outcome" where
  "updateBlkRef sector flag s =
     (if sector < BSIZE then
        andthen (getRefCount 1 s) (\<lambda>(rc, s).
        andthen (bread 1 rc s) (\<lambda>(bp, s).
          let s = set_data bp (bump_ref flag (b_data (bufs s bp)) sector) s in
        andthen (bwrite bp s) (\<lambda>s. brelse bp s)))
      else if sector < BSIZE * 2 then
        andthen (getRefCount 2 s) (\<lambda>(rc, s).
        andthen (bread 1 rc s) (\<lambda>(bp, s).
          let s = set_data bp (bump_ref flag (b_data (bufs s bp)) (sector - BSIZE)) s in
        andthen (bwrite bp s) (\<lambda>s. brelse bp s)))
      else Ok s)"

text \<open>For a sector beyond the two blocks \<^verbatim>\<open>getBlkRef\<close> reads through an uninitialised pointer.\<close>

definition getBlkRef :: "nat \<Rightarrow> 'a fs_state_scheme \<Rightarrow> (int \<times> 'a fs_state_scheme) outcome" where
  "getBlkRef sector s =
     (if sector < BSIZE then
        andthen (getRefCount 1 s) (\<lambda>(rc, s).
        andthen (bread 1 rc s) (\<lambda>(bp, s).
          let ret = int (unat (b_data (bufs s bp) ! sector))
          in andthen (brelse bp s) (\<lambda>s. Ok (ret, s))))
      else if sector < BSIZE * 2 then
        andthen (getRefCount 2 s) (\<lambda>(rc, s).
        andthen (bread 1 rc s) (\<lambda>(bp, s).
          let ret = int (unat (b_data (bufs s bp) ! (sector - BSIZE)))
          in andthen (brelse bp s) (\<lambda>s. Ok (ret, s))))
      else Undef)"

declare balloc_from.simps [simp del]
declare free_blocks_from.simps [simp del]

section \<open>The bitmap\<close>

lemma blk_used_bit: "blk_used d bi \<longleftrightarrow> bit (d ! (bi div 8)) (bi mod 8)"
  by (simp add: blk_used_def bit_iff_and_push_bit_not_eq_0)

lemma div_mod_8_eq: "i div 8 = j div 8 \<Longrightarrow> i mod 8 = j mod 8 \<Longrightarrow> i = (j :: nat)"
  by (metis div_mult_mod_eq)

lemma blk_used_set_used:
  assumes "i div 8 < length d"
  shows "blk_used (set_used d i) j \<longleftrightarrow> j = i \<or> blk_used d j"
  using assms div_mod_8_eq [of j i]
  by (auto simp: blk_used_bit set_used_def nth_list_update bit_or_iff bit_exp_iff)

lemma blk_used_clear_used:
  assumes "i div 8 < length d"
  shows "blk_used (clear_used d i) j \<longleftrightarrow> j \<noteq> i \<and> blk_used d j"
  using assms div_mod_8_eq [of j i]
  by (auto simp: blk_used_bit clear_used_def nth_list_update bit_and_iff bit_not_iff bit_exp_iff)


section \<open>Access to blocks inside a transaction\<close>

text \<open>\<open>log_room s H L k\<close>: the transaction can log \<open>k\<close> more blocks.\<close>

definition log_room :: "'a log_state_scheme \<Rightarrow> nat set \<Rightarrow> nat list \<Rightarrow> nat \<Rightarrow> bool" where
  "log_room s H L k \<longleftrightarrow> (k = 0 \<or> length L + k \<le> log_limit s) \<and> card (H \<union> set L) + k < NBUF"

lemma log_room_rest: "log_rest t = log_rest s \<Longrightarrow> log_room t = log_room s"
  using log_restD(6) [of t s] by (intro ext) (simp add: log_room_def)

lemma log_room_mono: "log_room s H L k \<Longrightarrow> j \<le> k \<Longrightarrow> log_room s H L j"
  by (auto simp: log_room_def)

lemma card_insert_le_Suc: "card (insert x A) \<le> Suc (card A)"
  by (cases "finite A") (auto simp: card_insert_if)

lemma log_room_hold:
  assumes "log_room s H L (Suc k)"
  shows "log_room s (insert x H) L k"
proof -
  have "card (insert x H \<union> set L) \<le> Suc (card (H \<union> set L))"
    using card_insert_le_Suc [of x "H \<union> set L"] by simp
  then show ?thesis using assms by (auto simp: log_room_def)
qed

lemma log_room_add:
  assumes "log_room s H L (Suc k)"
  shows "log_room s H (log_add x L) k"
proof -
  have "card (H \<union> set (log_add x L)) \<le> Suc (card (H \<union> set L))"
    using card_insert_le_Suc [of x "H \<union> set L"] by simp
  then show ?thesis using assms length_log_add [of x L] by (auto simp: log_room_def)
qed

lemma log_room_get: "log_room s H L k \<Longrightarrow> sec \<in> set L \<or> card (H \<union> set L) < NBUF"
  by (simp add: log_room_def)

text \<open>The access patterns of the transactional store with room counted this way.\<close>

lemma fs_get:
  assumes "log_view s base post H L" and "sec \<notin> H" and "sec < log_start s" and "log_room s H L k"
  shows "\<exists>b t. bread 1 sec s = Ok (b, t) \<and> log_view t base post (insert sec H) L \<and>
    handle t b sec \<and> b_data (bufs t b) = post sec \<and> keeps_handles s t \<and> log_rest t = log_rest s"
proof -
  obtain b t where t: "bread 1 sec s = Ok (b, t)" "log_view t base post (insert sec H) L"
    "handle t b sec" "keeps_handles s t" "log_rest t = log_rest s"
    using log_view_get [OF assms(1-3) log_room_get [OF assms(4)]] by blast
  then show ?thesis using log_view_data(1) [OF t(2,3)] by blast
qed

lemma fs_peek:
  assumes "log_view s base post H L" and "sec \<notin> H" and "sec < log_start s" and "log_room s H L k"
  shows "\<exists>b t u. bread 1 sec s = Ok (b, t) \<and> b_data (bufs t b) = post sec \<and> brelse b t = Ok u \<and>
    log_rest t = log_rest s \<and> log_view u base post H L \<and> keeps_handles s u \<and> log_rest u = log_rest s"
  unfolding keeps_handles_def by (rule tx.peek [OF assms(1-3) log_room_get [OF assms(4)]])

lemma fs_update:
  assumes "log_view s base post H L" and "sec \<notin> H" and "sec < log_start s"
    and "log_room s H L (Suc k)"
  shows "\<exists>b t u v. bread 1 sec s = Ok (b, t) \<and> b_data (bufs t b) = post sec \<and>
    log_rest t = log_rest s \<and> log_write b (set_data b d t) = Ok u \<and> log_rest u = log_rest s \<and>
    brelse b u = Ok v \<and> log_view v base (post(sec := d)) H (log_add sec L) \<and>
    keeps_handles s v \<and> log_rest v = log_rest s"
proof -
  have "length L < log_limit s" "card (insert sec H \<union> set L) < NBUF"
    using log_room_hold [OF assms(4), of sec] assms(4) by (auto simp: log_room_def)
  then show ?thesis unfolding keeps_handles_def by (rule tx.update [OF assms(1-3)])
qed

lemma fs_update_held:
  assumes "log_view s base post H L" and "handle s b sec" and "log_room s H L (Suc k)"
  shows "\<exists>t. log_write b (set_data b d s) = Ok t \<and>
    log_view t base (post(sec := d)) H (log_add sec L) \<and> keeps_handles s t \<and>
    log_rest t = log_rest s"
proof -
  have "length L < log_limit s" "card (H \<union> set L) < NBUF" using assms(3) by (auto simp: log_room_def)
  then show ?thesis using log_view_log [OF assms(1,2)] by blast
qed

lemma fs_direct:
  assumes "log_view s base post H L" and "sec \<notin> H" and "sec < log_start s" and "sec \<notin> set L"
    and "log_room s H L k"
  shows "\<exists>b t u v. bread 1 sec s = Ok (b, t) \<and> b_data (bufs t b) = post sec \<and>
    log_rest t = log_rest s \<and> bwrite b (set_data b d t) = Ok u \<and> log_rest u = log_rest s \<and>
    brelse b u = Ok v \<and> log_view v (base(sec := d)) (post(sec := d)) H L \<and>
    keeps_handles s v \<and> log_rest v = log_rest s"
proof -
  have "card (H \<union> set L) < NBUF" using assms(5) by (simp add: log_room_def)
  then show ?thesis unfolding keeps_handles_def by (rule tx.direct_update [OF assms(1-4)])
qed

lemma readsb_view:
  assumes "log_view s base post H L" and "1 \<notin> H" and "1 < log_start s" and "log_room s H L k"
  shows "\<exists>t. readsb 1 s = Ok (sb_of_block (post 1), t) \<and> log_view t base post H L \<and>
    keeps_handles s t \<and> log_rest t = log_rest s"
proof -
  obtain b t u where "bread 1 1 s = Ok (b, t)" "b_data (bufs t b) = post 1" "brelse b t = Ok u"
    "log_view u base post H L" "keeps_handles s u" "log_rest u = log_rest s"
    using fs_peek [OF assms] by blast
  then show ?thesis by (simp add: readsb_def)
qed

section \<open>Allocation\<close>

lemma bzero_law:
  assumes "log_view s base post H L" and "b \<notin> H" and "b < log_start s" and "log_room s H L (Suc k)"
  shows "\<exists>t. bzero 1 b s = Ok t \<and> log_view t base (post(b := zero_block)) H (log_add b L) \<and>
    keeps_handles s t \<and> log_rest t = log_rest s"
proof -
  obtain bp t u v where "bread 1 b s = Ok (bp, t)" "log_write bp (set_data bp zero_block t) = Ok u"
    "brelse bp u = Ok v" "log_view v base (post(b := zero_block)) H (log_add b L)"
    "keeps_handles s v" "log_rest v = log_rest s"
    using fs_update [OF assms] by blast
  then show ?thesis unfolding bzero_def zero_block_def [symmetric] by simp
qed

text \<open>The free map as the file system sees it: is block \<open>b\<close> in use?\<close>

definition in_use :: "(nat \<Rightarrow> block) \<Rightarrow> nat \<Rightarrow> bool" where
  "in_use d b \<longleftrightarrow> blk_used (d (BBLOCK b (sb_ninodes (sb_of_block (d 1))))) (b mod BPB)"

lemma find_first:
  assumes "i < n" and "P i" and "\<And>j. j < i \<Longrightarrow> \<not> P j"
  shows "find P [0..<n] = Some i"
  unfolding find_Some_iff using assms by (intro exI [of _ i]) simp


text \<open>Where the free map lies: outside the log, and not held by the caller.\<close>

definition map_ok :: "(nat \<Rightarrow> block) \<Rightarrow> nat \<Rightarrow> nat set \<Rightarrow> bool" where
  "map_ok d home H \<longleftrightarrow> 1 < home \<and> 1 \<notin> H \<and>
     (\<forall>b < sb_size (sb_of_block (d 1)). BBLOCK b (sb_ninodes (sb_of_block (d 1))) < home \<and>
        BBLOCK b (sb_ninodes (sb_of_block (d 1))) \<notin> H)"

lemma BBLOCK_add:
  "BPB dvd b \<Longrightarrow> i < BPB \<Longrightarrow> BBLOCK (b + i) n = BBLOCK b n \<and> (b + i) mod BPB = i"
  by (auto simp: BBLOCK_def)

text \<open>The round of the outer loop of \<^verbatim>\<open>balloc\<close> that finds the first free block.\<close>

lemma balloc_from_hit:
  assumes v: "log_view s base post H L" and room: "log_room s H L (Suc (Suc k))"
    and bb: "BBLOCK b (sb_ninodes sb) < log_start s" "BBLOCK b (sb_ninodes sb) \<notin> H"
    and b: "b < sb_size sb"
    and f: "find (\<lambda>bi. \<not> blk_used (post (BBLOCK b (sb_ninodes sb))) bi)
      [0..<min BPB (sb_size sb - b)] = Some i"
    and b0: "b + i < log_start s" "b + i \<notin> H"
  shows "\<exists>t. balloc_from 1 sb b s = Ok (b + i, t) \<and>
    log_view t base (post(BBLOCK b (sb_ninodes sb) :=
        set_used (post (BBLOCK b (sb_ninodes sb))) i, b + i := zero_block)) H
      (log_add (b + i) (log_add (BBLOCK b (sb_ninodes sb)) L)) \<and>
    keeps_handles s t \<and> log_rest t = log_rest s"
proof -
  let ?bb = "BBLOCK b (sb_ninodes sb)"
  obtain bp t u v where t: "bread 1 ?bb s = Ok (bp, t)" "b_data (bufs t bp) = post ?bb"
    "log_write bp (set_data bp (set_used (post ?bb) i) t) = Ok u" "brelse bp u = Ok v"
    "log_view v base (post(?bb := set_used (post ?bb) i)) H (log_add ?bb L)"
    "keeps_handles s v" "log_rest v = log_rest s"
    using fs_update [OF v bb(2,1) room] by blast
  have "log_room v H (log_add ?bb L) (Suc k)"
    using log_room_add [OF room] log_room_rest [OF t(7)] by simp
  then obtain w where w: "bzero 1 (b + i) v = Ok w"
    "log_view w base (post(?bb := set_used (post ?bb) i, b + i := zero_block)) H
      (log_add (b + i) (log_add ?bb L))" "keeps_handles v w" "log_rest w = log_rest v"
    using bzero_law [OF t(5) b0(2)] b0(1) log_restD(1) [OF t(7)] by auto
  have "balloc_from 1 sb b s = Ok (b + i, w)"
    using t w(1) f b by (simp add: balloc_from.simps [of 1 sb b s])
  moreover have "keeps_handles s w" using t(6) w(3) by (simp add: keeps_handles_def)
  ultimately show ?thesis using w(2,4) t(7) by simp
qed

lemma balloc_from_law:
  assumes "log_view s base post H L" and "map_ok post (log_start s) H" and "log_room s H L (Suc (Suc k))"
    and "sb = sb_of_block (post 1)" and "BPB dvd b"
    and "b0 < sb_size sb" and "b \<le> b0" and "\<not> in_use post b0"
    and "\<And>x. b \<le> x \<Longrightarrow> x < b0 \<Longrightarrow> in_use post x" and "b0 < log_start s" and "b0 \<notin> H"
  shows "\<exists>t. balloc_from 1 sb b s = Ok (b0, t) \<and>
    log_view t base (post(BBLOCK b0 (sb_ninodes sb) :=
        set_used (post (BBLOCK b0 (sb_ninodes sb))) (b0 mod BPB), b0 := zero_block)) H
      (log_add b0 (log_add (BBLOCK b0 (sb_ninodes sb)) L)) \<and>
    keeps_handles s t \<and> log_rest t = log_rest s"
  using assms
proof (induction "sb_size sb - b" arbitrary: b s rule: less_induct)
  case less
  let ?bb = "BBLOCK b (sb_ninodes sb)" and ?n = "min BPB (sb_size sb - b)"
  have bb: "?bb < log_start s" "?bb \<notin> H" "b < sb_size sb"
    using less.prems(2,4,6,7) by (auto simp: map_ok_def)
  note blk = BBLOCK_add [OF less.prems(5), of _ "sb_ninodes sb"]
  have un: "blk_used (post ?bb) j \<longleftrightarrow> in_use post (b + j)" if "j < BPB" for j
    using blk [OF that] less.prems(4) by (simp add: in_use_def)
  show ?case
  proof (cases "b0 < b + BPB")
    case True
    define i where "i = b0 - b"
    have i: "b0 = b + i" "i < BPB" "i < ?n" using True less.prems(6,7) by (auto simp: i_def)
    have "find (\<lambda>bi. \<not> blk_used (post ?bb) bi) [0..<?n] = Some i"
      using i less.prems(8,9) un by (intro find_first) auto
    then show ?thesis
      using balloc_from_hit [OF less.prems(1,3) bb] less.prems(10,11) i(1) blk [OF i(2)] by simp
  next
    case False
    have "blk_used (post ?bb) j" if "j < BPB" for j
      using un [OF that] less.prems(9) [of "b + j"] that False by simp
    then have "find (\<lambda>bi. \<not> blk_used (post ?bb) bi) [0..<?n] = None"
      by (auto simp: find_None_iff)
    moreover obtain bp t u where t: "bread 1 ?bb s = Ok (bp, t)" "b_data (bufs t bp) = post ?bb"
      "brelse bp t = Ok u" "log_view u base post H L" "keeps_handles s u" "log_rest u = log_rest s"
      using fs_peek [OF less.prems(1) bb(2,1) less.prems(3)] by blast
    ultimately have eq: "balloc_from 1 sb b s = balloc_from 1 sb (b + BPB) u"
      using bb(3) by (simp add: balloc_from.simps [of 1 sb b s])
    have "\<exists>t. balloc_from 1 sb (b + BPB) u = Ok (b0, t) \<and>
      log_view t base (post(BBLOCK b0 (sb_ninodes sb) :=
          set_used (post (BBLOCK b0 (sb_ninodes sb))) (b0 mod BPB), b0 := zero_block)) H
        (log_add b0 (log_add (BBLOCK b0 (sb_ninodes sb)) L)) \<and>
      keeps_handles u t \<and> log_rest t = log_rest u"
      using less.prems(2-11) False bb(3) log_room_rest [OF t(6)] log_restD(1) [OF t(6)]
      by (intro less.hyps t(4)) auto
    then show ?thesis using eq t(5,6) by (auto simp: keeps_handles_def)
  qed
qed

lemma balloc_law:
  assumes v: "log_view s base post H L" and m: "map_ok post (log_start s) H"
    and room: "log_room s H L (Suc (Suc k))"
    and b: "b < sb_size (sb_of_block (post 1))" "\<not> in_use post b" "\<And>x. x < b \<Longrightarrow> in_use post x"
      "b < log_start s" "b \<notin> H"
  defines "bb \<equiv> BBLOCK b (sb_ninodes (sb_of_block (post 1)))"
  shows "\<exists>t. balloc 1 s = Ok (b, t) \<and>
    log_view t base (post(bb := set_used (post bb) (b mod BPB), b := zero_block)) H
      (log_add b (log_add bb L)) \<and> keeps_handles s t \<and> log_rest t = log_rest s"
proof -
  obtain t where t: "readsb 1 s = Ok (sb_of_block (post 1), t)" "log_view t base post H L"
    "keeps_handles s t" "log_rest t = log_rest s"
    using readsb_view [OF v _ _ room] m by (auto simp: map_ok_def)
  have m': "map_ok post (log_start t) H" "log_room t H L (Suc (Suc k))" "b < log_start t"
    using m room b(4) log_restD(1) [OF t(4)] log_room_rest [OF t(4)] by simp_all
  obtain u where "balloc_from 1 (sb_of_block (post 1)) 0 t = Ok (b, u)"
    "log_view u base (post(bb := set_used (post bb) (b mod BPB), b := zero_block)) H
      (log_add b (log_add bb L))" "keeps_handles t u" "log_rest u = log_rest t"
    using balloc_from_law [OF t(2) m'(1,2) refl _ b(1) _ b(2) _ m'(3) b(5)] b(3)
    unfolding bb_def by auto
  then show ?thesis using t by (auto simp: balloc_def keeps_handles_def)
qed

lemma balloc_from_full:
  assumes "log_view s base post H L" and "map_ok post (log_start s) H" and "log_room s H L k"
    and "sb = sb_of_block (post 1)" and "BPB dvd b"
    and "\<And>x. b \<le> x \<Longrightarrow> x < sb_size sb \<Longrightarrow> in_use post x"
  shows "balloc_from 1 sb b s = Panic ''balloc: out of blocks''"
  using assms
proof (induction "sb_size sb - b" arbitrary: b s rule: less_induct)
  case less
  show ?case
  proof (cases "b < sb_size sb")
    case True
    let ?bb = "BBLOCK b (sb_ninodes sb)" and ?n = "min BPB (sb_size sb - b)"
    have bb: "?bb < log_start s" "?bb \<notin> H"
      using less.prems(2,4) True by (auto simp: map_ok_def)
    have "blk_used (post ?bb) j" if j: "j < BPB \<and> b + j < sb_size sb" for j
      using less.prems(4) less.prems(6) [of "b + j"] j BBLOCK_add [OF less.prems(5), of j "sb_ninodes sb"]
      by (simp add: in_use_def)
    then have "find (\<lambda>bi. \<not> blk_used (post ?bb) bi) [0..<?n] = None"
      by (auto simp: find_None_iff)
    moreover obtain bp t u where t: "bread 1 ?bb s = Ok (bp, t)" "b_data (bufs t bp) = post ?bb"
      "brelse bp t = Ok u" "log_view u base post H L" "log_rest u = log_rest s"
      using fs_peek [OF less.prems(1) bb(2,1) less.prems(3)] by blast
    ultimately have "balloc_from 1 sb b s = balloc_from 1 sb (b + BPB) u"
      using True by (simp add: balloc_from.simps [of 1 sb b s])
    also have "\<dots> = Panic ''balloc: out of blocks''"
      using less.prems(2-6) True log_room_rest [OF t(5)] log_restD(1) [OF t(5)]
      by (intro less.hyps t(4)) auto
    finally show ?thesis .
  qed (simp add: balloc_from.simps)
qed


text \<open>The free blocks, and how the operations change them.\<close>

definition free_set :: "(nat \<Rightarrow> block) \<Rightarrow> nat set" where
  "free_set d = {b. b < sb_size (sb_of_block (d 1)) \<and> \<not> in_use d b}"

text \<open>
  The disk layout: the bitmap has whole blocks; data blocks are neither the super
  block nor part of the bitmap.
\<close>

definition bitmap_ok :: "(nat \<Rightarrow> block) \<Rightarrow> bool" where
  "bitmap_ok d \<longleftrightarrow> (\<forall>b < sb_size (sb_of_block (d 1)).
     length (d (BBLOCK b (sb_ninodes (sb_of_block (d 1))))) = BSIZE \<and>
     BBLOCK b (sb_ninodes (sb_of_block (d 1))) \<noteq> 1)"

definition data_block :: "(nat \<Rightarrow> block) \<Rightarrow> nat \<Rightarrow> bool" where
  "data_block d b \<longleftrightarrow> b \<noteq> 1 \<and> (\<forall>x < sb_size (sb_of_block (d 1)).
     b \<noteq> BBLOCK x (sb_ninodes (sb_of_block (d 1))))"

lemma BBLOCK_eq_iff: "BBLOCK x n = BBLOCK b n \<longleftrightarrow> x div BPB = b div BPB"
  by (simp add: BBLOCK_def)

lemma div_mod_BPB_eq: "x div BPB = b div BPB \<Longrightarrow> x mod BPB = b mod BPB \<Longrightarrow> x = (b :: nat)"
  by (metis div_mult_mod_eq)

lemma in_use_upd_data:
  assumes "data_block d b" and "x < sb_size (sb_of_block (d 1))"
  shows "in_use (d(b := v)) x = in_use d x"
  using assms by (auto simp: in_use_def data_block_def)

lemma in_use_mark:
  assumes ok: "bitmap_ok d" and b: "b < sb_size (sb_of_block (d 1))"
    and x: "x < sb_size (sb_of_block (d 1))"
    and f: "\<And>j. j < BPB \<Longrightarrow> blk_used v j = g j (blk_used (d (BBLOCK b (sb_ninodes (sb_of_block (d 1))))) j)"
  shows "in_use (d(BBLOCK b (sb_ninodes (sb_of_block (d 1))) := v)) x =
    (if x div BPB = b div BPB then g (x mod BPB) (in_use d x) else in_use d x)"
proof -
  have "BBLOCK b (sb_ninodes (sb_of_block (d 1))) \<noteq> 1" using ok b by (simp add: bitmap_ok_def)
  then show ?thesis
    using f [of "x mod BPB"] by (simp add: in_use_def BBLOCK_eq_iff) (auto simp: BBLOCK_def)
qed

lemma mark_index: "(b mod BPB) div 8 < BSIZE"
  by (simp add: less_mult_imp_div_less)

lemma free_set_alloc:
  assumes ok: "bitmap_ok d" and b: "b < sb_size (sb_of_block (d 1))" and db: "data_block d b"
  defines "bb \<equiv> BBLOCK b (sb_ninodes (sb_of_block (d 1)))"
  shows "free_set (d(bb := set_used (d bb) (b mod BPB), b := v)) = free_set d - {b}"
proof -
  let ?e = "d(bb := set_used (d bb) (b mod BPB))"
  have ne: "bb \<noteq> 1" "b \<noteq> 1" "length (d bb) = BSIZE"
    using ok b db by (simp_all add: bb_def bitmap_ok_def data_block_def)
  have e: "in_use ?e x = (x = b \<or> in_use d x)" if x: "x < sb_size (sb_of_block (d 1))" for x
  proof -
    have "blk_used (set_used (d bb) (b mod BPB)) j = (j = b mod BPB \<or> blk_used (d bb) j)" for j
      using blk_used_set_used [of "b mod BPB" "d bb" j] mark_index [of b] ne(3) by simp
    from in_use_mark [OF ok b x, folded bb_def, of _ "\<lambda>j u. j = b mod BPB \<or> u", OF this]
    show ?thesis using div_mod_BPB_eq [of x b] by auto
  qed
  have "data_block ?e b" using db ne(1) by (simp add: data_block_def)
  then have "in_use (?e(b := v)) x = in_use ?e x" if "x < sb_size (sb_of_block (d 1))" for x
    using in_use_upd_data [of ?e b x v] that ne(1) by simp
  then show ?thesis using e ne by (auto simp: free_set_def)
qed

lemma free_set_clear:
  assumes ok: "bitmap_ok d" and b: "b < sb_size (sb_of_block (d 1))"
  defines "bb \<equiv> BBLOCK b (sb_ninodes (sb_of_block (d 1)))"
  shows "free_set (d(bb := clear_used (d bb) (b mod BPB))) = insert b (free_set d)"
proof -
  let ?e = "d(bb := clear_used (d bb) (b mod BPB))"
  have ne: "bb \<noteq> 1" "length (d bb) = BSIZE"
    using ok b by (simp_all add: bb_def bitmap_ok_def)
  have "in_use ?e x = (x \<noteq> b \<and> in_use d x)" if x: "x < sb_size (sb_of_block (d 1))" for x
  proof -
    have "blk_used (clear_used (d bb) (b mod BPB)) j = (j \<noteq> b mod BPB \<and> blk_used (d bb) j)" for j
      using blk_used_clear_used [of "b mod BPB" "d bb" j] mark_index [of b] ne(2) by simp
    from in_use_mark [OF ok b x, folded bb_def, of _ "\<lambda>j u. j \<noteq> b mod BPB \<and> u", OF this]
    show ?thesis using div_mod_BPB_eq [of x b] by auto
  qed
  then show ?thesis using b ne by (auto simp: free_set_def)
qed

lemma bfree_law:
  assumes v: "log_view s base post H L" and m: "map_ok post (log_start s) H"
    and room: "log_room s H L (Suc k)" and b: "b < sb_size (sb_of_block (post 1))"
  defines "bb \<equiv> BBLOCK b (sb_ninodes (sb_of_block (post 1)))"
  shows "in_use post b \<Longrightarrow> \<exists>t. bfree 1 b s = Ok t \<and>
      log_view t base (post(bb := clear_used (post bb) (b mod BPB))) H (log_add bb L) \<and>
      keeps_handles s t \<and> log_rest t = log_rest s"
    and "\<not> in_use post b \<Longrightarrow> bfree 1 b s = Panic ''freeing free block''"
proof -
  obtain r where r: "readsb 1 s = Ok (sb_of_block (post 1), r)" "log_view r base post H L"
    "keeps_handles s r" "log_rest r = log_rest s"
    using readsb_view [OF v _ _ room] m by (auto simp: map_ok_def)
  have room': "log_room r H L (Suc k)" and bb: "bb \<notin> H" "bb < log_start r"
    using room m b log_restD(1) [OF r(4)] log_room_rest [OF r(4)] by (auto simp: bb_def map_ok_def)
  obtain bp t u w where t: "bread 1 bb r = Ok (bp, t)" "b_data (bufs t bp) = post bb"
    "log_write bp (set_data bp (clear_used (post bb) (b mod BPB)) t) = Ok u" "brelse bp u = Ok w"
    "log_view w base (post(bb := clear_used (post bb) (b mod BPB))) H (log_add bb L)"
    "keeps_handles r w" "log_rest w = log_rest r"
    using fs_update [OF r(2) bb room'] by blast
  have "in_use post b \<longleftrightarrow> blk_used (post bb) (b mod BPB)" by (simp add: in_use_def bb_def)
  then show "in_use post b \<Longrightarrow> \<exists>t. bfree 1 b s = Ok t \<and>
      log_view t base (post(bb := clear_used (post bb) (b mod BPB))) H (log_add bb L) \<and>
      keeps_handles s t \<and> log_rest t = log_rest s"
    and "\<not> in_use post b \<Longrightarrow> bfree 1 b s = Panic ''freeing free block''"
    using r t by (auto simp: bfree_def bb_def [symmetric] keeps_handles_def)
qed

section \<open>Counting free blocks\<close>

lemma free_chunk:
  assumes sb: "sb = sb_of_block (post 1)" and b: "BPB dvd b"
  defines "F \<equiv> \<lambda>b. {x \<in> free_set post. b \<le> x}"
  shows "length (filter (\<lambda>bi. \<not> blk_used (post (BBLOCK b (sb_ninodes sb))) bi)
      [0..<min BPB (sb_size sb - b)]) + card (F (b + BPB)) = card (F b)"
proof -
  let ?A = "{i. i < min BPB (sb_size sb - b) \<and> \<not> blk_used (post (BBLOCK b (sb_ninodes sb))) i}"
  have fin: "finite (F (b + BPB))"
    by (rule finite_subset [of _ "{..<sb_size sb}"]) (auto simp: F_def free_set_def sb)
  have "F b = (\<lambda>i. b + i) ` ?A \<union> F (b + BPB)"
  proof (intro set_eqI iffI)
    fix x
    assume x: "x \<in> F b"
    show "x \<in> (\<lambda>i. b + i) ` ?A \<union> F (b + BPB)"
    proof (cases "b + BPB \<le> x")
      case False
      then have "x - b \<in> ?A" "x = b + (x - b)"
        using x BBLOCK_add [OF b, of "x - b" "sb_ninodes sb"] sb
        by (auto simp: F_def free_set_def in_use_def)
      then show ?thesis by blast
    qed (use x in \<open>simp add: F_def\<close>)
  next
    fix x
    assume "x \<in> (\<lambda>i. b + i) ` ?A \<union> F (b + BPB)"
    then show "x \<in> F b"
      using BBLOCK_add [OF b, of _ "sb_ninodes sb"] sb
      by (auto simp: F_def free_set_def in_use_def)
  qed
  moreover have "(\<lambda>i. b + i) ` ?A \<inter> F (b + BPB) = {}" by (auto simp: F_def)
  ultimately have "card (F b) = card ((\<lambda>i. b + i) ` ?A) + card (F (b + BPB))"
    using fin by (simp add: card_Un_disjoint)
  moreover have "card ((\<lambda>i. b + i) ` ?A) = card ?A" by (rule card_image) simp
  moreover have "card ?A = length (filter (\<lambda>bi. \<not> blk_used (post (BBLOCK b (sb_ninodes sb))) bi)
      [0..<min BPB (sb_size sb - b)])"
    by (subst distinct_card [symmetric]) (auto intro!: arg_cong [where f = card])
  ultimately show ?thesis by simp
qed

lemma free_blocks_from_law:
  assumes "log_view s base post H L" and "map_ok post (log_start s) H" and "log_room s H L k"
    and "sb = sb_of_block (post 1)" and "BPB dvd b"
  shows "\<exists>t. free_blocks_from sb b n s = Ok (n + card {x \<in> free_set post. b \<le> x}, t) \<and>
    log_view t base post H L \<and> keeps_handles s t \<and> log_rest t = log_rest s"
  using assms
proof (induction "sb_size sb - b" arbitrary: b n s rule: less_induct)
  case less
  show ?case
  proof (cases "b < sb_size sb")
    case True
    let ?bb = "BBLOCK b (sb_ninodes sb)" and ?n = "min BPB (sb_size sb - b)"
    let ?F = "\<lambda>b. {x \<in> free_set post. b \<le> x}"
    have bb: "?bb < log_start s" "?bb \<notin> H"
      using less.prems(2,4) True by (auto simp: map_ok_def)
    obtain bp t u where t: "bread 1 ?bb s = Ok (bp, t)" "b_data (bufs t bp) = post ?bb"
      "brelse bp t = Ok u" "log_view u base post H L" "keeps_handles s u" "log_rest u = log_rest s"
      using fs_peek [OF less.prems(1) bb(2,1) less.prems(3)] by blast
    have dec: "sb_size sb - (b + BPB) < sb_size sb - b" using True by simp
    have u: "map_ok post (log_start u) H" "log_room u H L k" "BPB dvd b + BPB"
      using less.prems(2,3,5) log_room_rest [OF t(6)] log_restD(1) [OF t(6)] by simp_all
    let ?m = "length (filter (\<lambda>bi. \<not> blk_used (post ?bb) bi) [0..<?n])"
    obtain v where v: "free_blocks_from sb (b + BPB) (n + ?m) u = Ok (n + ?m + card (?F (b + BPB)), v)"
      "log_view v base post H L" "keeps_handles u v" "log_rest v = log_rest u"
      using less.hyps [OF dec t(4) u(1,2) less.prems(4) u(3)] by blast
    have "free_blocks_from sb b n s = Ok (n + ?m + card (?F (b + BPB)), v)"
      using True t v(1) by (simp add: free_blocks_from.simps [of sb b n s])
    moreover have "?m + card (?F (b + BPB)) = card (?F b)"
      by (rule free_chunk [where post = post, OF less.prems(4,5)])
    ultimately show ?thesis using v t(5,6) by (auto simp: keeps_handles_def add.assoc)
  next
    case False
    then have "{x \<in> free_set post. b \<le> x} = {}" using less.prems(4) by (auto simp: free_set_def)
    then have "card {x \<in> free_set post. b \<le> x} = 0" by (simp only: card.empty)
    then show ?thesis
      using False less.prems(1) by (simp add: free_blocks_from.simps [of sb b n s] keeps_handles_def)
  qed
qed


lemma getFreeBlocks_law:
  assumes v: "log_view s base post H L" and m: "map_ok post (log_start s) H" and room: "log_room s H L k"
  shows "\<exists>t. getFreeBlocks s = Ok (card (free_set post), t) \<and> log_view t base post H L \<and>
    keeps_handles s t \<and> log_rest t = log_rest s"
proof -
  obtain r where r: "readsb 1 s = Ok (sb_of_block (post 1), r)" "log_view r base post H L"
    "keeps_handles s r" "log_rest r = log_rest s"
    using readsb_view [OF v _ _ room] m by (auto simp: map_ok_def)
  have m': "map_ok post (log_start r) H" "log_room r H L k"
    using m room log_restD(1) [OF r(4)] log_room_rest [OF r(4)] by simp_all
  have "\<exists>t. free_blocks_from (sb_of_block (post 1)) 0 0 r = Ok (card (free_set post), t) \<and>
    log_view t base post H L \<and> keeps_handles r t \<and> log_rest t = log_rest r"
    using free_blocks_from_law [OF r(2) m' refl, of 0 0] by simp
  then show ?thesis using r by (auto simp: getFreeBlocks_def keeps_handles_def)
qed

section \<open>Reference counts\<close>

lemma fs_fields_more:
  assumes "log_state.more t = log_state.more (s :: 'a fs_state_scheme)"
  shows "nextInum t = nextInum s" "refCount1 t = refCount1 s" "refCount2 t = refCount2 s"
    "fs_state.more t = fs_state.more s"
  using assms by (cases s; cases t; simp)+

lemma log_view_fs_upd [simp]:
  "log_view (s\<lparr>refCount1 := x\<rparr>) = log_view s" "log_view (s\<lparr>refCount2 := x\<rparr>) = log_view s"
  "log_view (s\<lparr>nextInum := n\<rparr>) = log_view s"
  by (intro ext; simp add: log_view_def log_rel_def bio_rel_def log_mem_def log_disk_def)+

lemma handle_fs_upd [simp]:
  "handle (s\<lparr>refCount1 := x\<rparr>) = handle s" "handle (s\<lparr>refCount2 := x\<rparr>) = handle s"
  "handle (s\<lparr>nextInum := n\<rparr>) = handle s"
  by (intro ext; simp add: handle_def)+

lemma log_room_fs_upd [simp]:
  "log_room (s\<lparr>refCount1 := x\<rparr>) = log_room s" "log_room (s\<lparr>refCount2 := x\<rparr>) = log_room s"
  by (intro ext; simp add: log_room_def log_limit_def)+

text \<open>The reference count of a block as the file system sees it.\<close>

definition ref_block :: "(nat \<Rightarrow> block) \<Rightarrow> nat \<Rightarrow> nat" where
  "ref_block d sector = (if sector < BSIZE then sb_refCount1 (sb_of_block (d 1))
     else sb_refCount2 (sb_of_block (d 1)))"

definition blk_ref :: "(nat \<Rightarrow> block) \<Rightarrow> nat \<Rightarrow> u8" where
  "blk_ref d sector = d (ref_block d sector) ! (sector mod BSIZE)"

text \<open>
  The two numbers cached in \<^verbatim>\<open>refCount1\<close> and \<^verbatim>\<open>refCount2\<close> are those of the super block
  once they have been read. The log state apart, nothing else of the state changes.
\<close>

definition rc_cached :: "'a fs_state_scheme \<Rightarrow> (nat \<Rightarrow> block) \<Rightarrow> bool" where
  "rc_cached s d \<longleftrightarrow> refCount1 s = 0 \<or> refCount1 s = sb_refCount1 (sb_of_block (d 1)) \<and>
     refCount2 s = sb_refCount2 (sb_of_block (d 1))"

definition fs_rest :: "'a fs_state_scheme \<Rightarrow> nat \<times> int \<times> bool \<times> nat \<times> int \<times> 'a" where
  "fs_rest s = (log_start s, log_size s, log_busy s, disksize s, nextInum s, fs_state.more s)"

lemma fs_rest_log: "log_rest t = log_rest s \<Longrightarrow> fs_rest t = fs_rest s \<and> refCount1 t = refCount1 s \<and>
    refCount2 t = refCount2 s"
  using fs_fields_more [of t s] by (simp add: log_rest_def fs_rest_def)

lemma fs_restD:
  assumes "fs_rest t = fs_rest s"
  shows "log_start t = log_start s" "log_room t = log_room s" "log_busy t = log_busy s"
    "nextInum t = nextInum s" "fs_state.more t = fs_state.more s" "disksize t = disksize s"
    "log_size t = log_size s"
  using assms by (auto simp: fs_rest_def log_room_def log_limit_def intro!: ext)

lemma getRefCount_law:
  assumes v: "log_view s base post H L" and sb: "1 < log_start s" "1 \<notin> H" and room: "log_room s H L k"
    and rc: "rc_cached s post"
  shows "\<exists>t. getRefCount ref s = Ok (if ref = 1 then sb_refCount1 (sb_of_block (post 1))
      else sb_refCount2 (sb_of_block (post 1)), t) \<and> log_view t base post H L \<and>
    keeps_handles s t \<and> fs_rest t = fs_rest s \<and> rc_cached t post"
proof (cases "refCount1 s = 0")
  case True
  obtain r where r: "readsb 1 s = Ok (sb_of_block (post 1), r)" "log_view r base post H L"
    "keeps_handles s r" "log_rest r = log_rest s"
    using readsb_view [OF v sb(2,1) room] by blast
  then show ?thesis
    using True fs_rest_log [OF r(4)]
    by (auto simp: getRefCount_def rc_cached_def fs_rest_def keeps_handles_def)
next
  case False
  then show ?thesis using v rc by (auto simp: getRefCount_def rc_cached_def keeps_handles_def)
qed


text \<open>Where the reference counts lie: outside the log area, not held, not logged.\<close>

definition ref_ok :: "(nat \<Rightarrow> block) \<Rightarrow> nat \<Rightarrow> nat set \<Rightarrow> nat list \<Rightarrow> bool" where
  "ref_ok d home H L \<longleftrightarrow> 1 < home \<and> 1 \<notin> H \<and>
     (\<forall>r \<in> {sb_refCount1 (sb_of_block (d 1)), sb_refCount2 (sb_of_block (d 1))}.
        r < home \<and> r \<notin> H \<and> r \<notin> set L \<and> r \<noteq> 1 \<and> length (d r) = BSIZE) \<and>
     sb_refCount1 (sb_of_block (d 1)) \<noteq> sb_refCount2 (sb_of_block (d 1))"

lemma updateBlkRef_law:
  fixes flag :: int
  assumes v: "log_view s base post H L" and ok: "ref_ok post (log_start s) H L"
    and room: "log_room s H L k" and rc: "rc_cached s post" and sec: "sector < 2 * BSIZE"
  defines "r \<equiv> ref_block post sector"
  defines "d \<equiv> bump_ref flag (post r) (sector mod BSIZE)"
  shows "\<exists>t. updateBlkRef sector flag s = Ok t \<and>
    log_view t (base(r := d)) (post(r := d)) H L \<and> keeps_handles s t \<and> fs_rest t = fs_rest s \<and>
    rc_cached t (post(r := d))"
proof -
  let ?ref = "if sector < BSIZE then 1 else 2"
  have r: "r < log_start s" "r \<notin> H" "r \<notin> set L" "r \<noteq> 1"
    using ok by (auto simp: ref_ok_def r_def ref_block_def)
  obtain g where g: "getRefCount ?ref s = Ok (r, g)" "log_view g base post H L"
    "keeps_handles s g" "fs_rest g = fs_rest s" "rc_cached g post"
    using getRefCount_law [OF v _ _ room rc, of ?ref] ok unfolding ref_ok_def r_def ref_block_def
    by (auto split: if_splits)
  have rg: "r < log_start g" "log_room g H L k" using r room fs_restD [OF g(4)] by simp_all
  obtain b t u w where t: "bread 1 r g = Ok (b, t)" "b_data (bufs t b) = post r"
    "bwrite b (set_data b d t) = Ok u" "brelse b u = Ok w"
    "log_view w (base(r := d)) (post(r := d)) H L" "keeps_handles g w" "log_rest w = log_rest g"
    using fs_direct [OF g(2) r(2) rg(1) r(3) rg(2)] by blast
  have "sector mod BSIZE = (if sector < BSIZE then sector else sector - BSIZE)"
    using sec by (auto simp: mod_if)
  then have "updateBlkRef sector flag s = Ok w"
    using g(1) t(1-4) sec by (auto simp: updateBlkRef_def d_def split: if_splits)
  moreover have "rc_cached w (post(r := d))" "fs_rest w = fs_rest s" "keeps_handles s w"
    using fs_rest_log [OF t(7)] g r(4) t(6) by (auto simp: rc_cached_def keeps_handles_def)
  ultimately show ?thesis using t(5) by blast
qed

lemma getBlkRef_law:
  assumes v: "log_view s base post H L" and ok: "ref_ok post (log_start s) H L'"
    and room: "log_room s H L k" and rc: "rc_cached s post" and sec: "sector < 2 * BSIZE"
  shows "\<exists>t. getBlkRef sector s = Ok (int (unat (blk_ref post sector)), t) \<and>
    log_view t base post H L \<and> keeps_handles s t \<and> fs_rest t = fs_rest s \<and> rc_cached t post"
proof -
  let ?ref = "if sector < BSIZE then 1 else 2" and ?r = "ref_block post sector"
  have r: "?r < log_start s" "?r \<notin> H"
    using ok by (auto simp: ref_ok_def ref_block_def)
  obtain g where g: "getRefCount ?ref s = Ok (?r, g)" "log_view g base post H L"
    "keeps_handles s g" "fs_rest g = fs_rest s" "rc_cached g post"
    using getRefCount_law [OF v _ _ room rc, of ?ref] ok unfolding ref_ok_def ref_block_def
    by (auto split: if_splits)
  have rg: "?r < log_start g" "log_room g H L k" using r room fs_restD [OF g(4)] by simp_all
  obtain b t u where t: "bread 1 ?r g = Ok (b, t)" "b_data (bufs t b) = post ?r"
    "brelse b t = Ok u" "log_view u base post H L" "keeps_handles g u" "log_rest u = log_rest g"
    using fs_peek [OF g(2) r(2) rg] by blast
  have "sector mod BSIZE = (if sector < BSIZE then sector else sector - BSIZE)"
    using sec by (auto simp: mod_if)
  then have "getBlkRef sector s = Ok (int (unat (blk_ref post sector)), u)"
    using g(1) t(1-3) sec by (auto simp: getBlkRef_def blk_ref_def split: if_splits)
  moreover have "rc_cached u post" "fs_rest u = fs_rest s" "keeps_handles s u"
    using fs_rest_log [OF t(6)] g t(5) by (auto simp: rc_cached_def keeps_handles_def)
  ultimately show ?thesis using t(4) by blast
qed

text \<open>One update changes the count of its own block only.\<close>

lemma blk_ref_update:
  assumes ok: "ref_ok d home H L" and sec: "sector < 2 * BSIZE" "x < 2 * BSIZE"
  defines "r \<equiv> ref_block d sector"
  shows "blk_ref (d(r := bump_ref flag (d r) (sector mod BSIZE))) x =
    (if x = sector then (if flag = 1 then blk_ref d x + 1
        else if flag = -1 \<and> blk_ref d x > 0 then blk_ref d x - 1 else blk_ref d x)
     else blk_ref d x)"
proof -
  have r: "r \<noteq> 1" "length (d r) = BSIZE" using ok by (auto simp: ref_ok_def r_def ref_block_def)
  have rb: "ref_block (d(r := v)) x = ref_block d x" for v x using r(1) by (simp add: ref_block_def)
  have same: "ref_block d x = r \<longleftrightarrow> (x < BSIZE \<longleftrightarrow> sector < BSIZE)"
    using ok by (auto simp: r_def ref_block_def ref_ok_def)
  show ?thesis
  proof (cases "x = sector")
    case True
    then show ?thesis using r(2) rb by (simp add: blk_ref_def bump_ref_def r_def)
  next
    case False
    have "bump_ref flag (d r) (sector mod BSIZE) ! (x mod BSIZE) = d r ! (x mod BSIZE)"
      if "ref_block d x = r"
    proof -
      have "x mod BSIZE \<noteq> sector mod BSIZE"
        using that same sec False by (auto simp: mod_if split: if_splits)
      then show ?thesis by (simp add: bump_ref_def)
    qed
    then show ?thesis using False rb by (simp add: blk_ref_def)
  qed
qed

end
