(* ===== verification/Xv6_Inode.thy ===== *)
theory Xv6_Inode
  imports Xv6_Blocks
begin

text \<open>
  The inode layer of fs.c: the on-disk inode and its in-memory copy, the inode cache,
  locking and reference counting, the block map of a file, and reading and writing
  its contents with the copy-on-write of blocks that de-duplication has shared.
  An inode pointer is an index into \<^verbatim>\<open>icache.inode\<close>; a null pointer is \<open>None\<close> wherever
  a function may return one.
\<close>

abbreviation NINODE :: nat where "NINODE \<equiv> 50"
abbreviation NDIRECT :: nat where "NDIRECT \<equiv> 12"
abbreviation NINDIRECT :: nat where "NINDIRECT \<equiv> 128"
abbreviation MAXFILE :: nat where "MAXFILE \<equiv> 140"
abbreviation NDEV :: int where "NDEV \<equiv> 10"
abbreviation T_DIR :: int where "T_DIR \<equiv> 1"
abbreviation T_FILE :: int where "T_FILE \<equiv> 2"
abbreviation T_DEV :: int where "T_DEV \<equiv> 3"

section \<open>Data\<close>

record dinode =
  di_type :: int
  di_major :: int
  di_minor :: int
  di_nlink :: int
  di_size :: nat
  di_addrs :: "nat list"

text \<open>The bits I\_BUSY and I\_VALID of \<^verbatim>\<open>flags\<close> are two fields.\<close>

record inode =
  i_dev :: nat
  i_inum :: nat
  i_ref :: int
  i_busy :: bool
  i_valid :: bool
  i_type :: int
  i_major :: int
  i_minor :: int
  i_nlink :: int
  i_size :: nat
  i_addrs :: "nat list"

record ino_state = fs_state +
  icache :: "nat \<Rightarrow> inode"

record stat =
  st_type :: int
  st_dev :: nat
  st_ino :: nat
  st_nlink :: int
  st_size :: nat

definition set_inode :: "nat \<Rightarrow> inode \<Rightarrow> 'a ino_state_scheme \<Rightarrow> 'a ino_state_scheme" where
  "set_inode ip v s = s\<lparr>icache := (icache s)(ip := v)\<rparr>"

definition set_addr :: "nat \<Rightarrow> nat \<Rightarrow> nat \<Rightarrow> 'a ino_state_scheme \<Rightarrow> 'a ino_state_scheme" where
  "set_addr ip i a s = set_inode ip ((icache s ip)\<lparr>i_addrs := (i_addrs (icache s ip))[i := a]\<rparr>) s"

section \<open>The on-disk inode\<close>

definition IBLOCK :: "nat \<Rightarrow> nat" where
  "IBLOCK inum = inum div IPB + 2"

text \<open>Inode number \<open>k\<close> of a block, 64 bytes each, and writing its fields.\<close>

definition get_dinode :: "block \<Rightarrow> nat \<Rightarrow> dinode" where
  "get_dinode d k = \<lparr>di_type = short_of (get16 d (64 * k)), di_major = short_of (get16 d (64 * k + 2)),
     di_minor = short_of (get16 d (64 * k + 4)), di_nlink = short_of (get16 d (64 * k + 6)),
     di_size = get32 d (64 * k + 8),
     di_addrs = map (\<lambda>i. get32 d (64 * k + 12 + 4 * i)) [0..<NDIRECT + 1]\<rparr>"

definition put_addrs :: "block \<Rightarrow> nat \<Rightarrow> nat list \<Rightarrow> block" where
  "put_addrs d off as = fold (\<lambda>i d. put32 d (off + 4 * i) (as ! i)) [0..<NDIRECT + 1] d"

definition put_dinode :: "block \<Rightarrow> nat \<Rightarrow> inode \<Rightarrow> block" where
  "put_dinode d k v =
     (let d = put16 d (64 * k) (of_short (i_type v));
          d = put16 d (64 * k + 2) (of_short (i_major v));
          d = put16 d (64 * k + 4) (of_short (i_minor v));
          d = put16 d (64 * k + 6) (of_short (i_nlink v));
          d = put32 d (64 * k + 8) (i_size v)
      in put_addrs d (64 * k + 12) (i_addrs v))"

section \<open>The inode cache\<close>

definition iget :: "nat \<Rightarrow> nat \<Rightarrow> 'a ino_state_scheme \<Rightarrow> (nat \<times> 'a ino_state_scheme) outcome" where
  "iget dev inum s =
     (case find (\<lambda>ip. 0 < i_ref (icache s ip) \<and> i_dev (icache s ip) = dev \<and>
             i_inum (icache s ip) = inum) [0..<NINODE] of
        Some ip \<Rightarrow> Ok (ip, set_inode ip ((icache s ip)\<lparr>i_ref := i_ref (icache s ip) + 1\<rparr>) s)
      | None \<Rightarrow>
          (case find (\<lambda>ip. i_ref (icache s ip) = 0) [0..<NINODE] of
             None \<Rightarrow> Panic ''iget: no inodes''
           | Some ip \<Rightarrow> Ok (ip, set_inode ip ((icache s ip)\<lparr>i_dev := dev, i_inum := inum, i_ref := 1,
               i_busy := False, i_valid := False\<rparr>) s)))"

definition idup :: "nat \<Rightarrow> 'a ino_state_scheme \<Rightarrow> 'a ino_state_scheme" where
  "idup ip s = set_inode ip ((icache s ip)\<lparr>i_ref := i_ref (icache s ip) + 1\<rparr>) s"

function ialloc_from :: "nat \<Rightarrow> int \<Rightarrow> nat \<Rightarrow> nat \<Rightarrow> 'a ino_state_scheme \<Rightarrow>
    (nat \<times> 'a ino_state_scheme) outcome" where
  "ialloc_from dev ty ninodes inum s =
     (if inum < ninodes then
        andthen (bread dev (IBLOCK inum) s) (\<lambda>(bp, s).
          let d = b_data (bufs s bp); k = inum mod IPB in
          if di_type (get_dinode d k) = 0 then
            let s = set_data bp (put16 (blit d (64 * k) (replicate 64 0)) (64 * k) (of_short ty)) s in
            andthen (log_write bp s) (\<lambda>s.
            andthen (brelse bp s) (\<lambda>s. iget dev inum s))
          else andthen (brelse bp s) (\<lambda>s. ialloc_from dev ty ninodes (inum + 1) s))
      else Panic ''ialloc: no inodes'')"
  by pat_completeness auto

termination
  by (relation "measure (\<lambda>(dev, ty, ninodes, inum, s). ninodes - inum)") auto

definition ialloc :: "nat \<Rightarrow> int \<Rightarrow> 'a ino_state_scheme \<Rightarrow> (nat \<times> 'a ino_state_scheme) outcome" where
  "ialloc dev ty s = andthen (readsb dev s) (\<lambda>(sb, s). ialloc_from dev ty (sb_ninodes sb) 1 s)"

definition iupdate :: "nat \<Rightarrow> 'a ino_state_scheme \<Rightarrow> 'a ino_state_scheme outcome" where
  "iupdate ip s =
     andthen (bread (i_dev (icache s ip)) (IBLOCK (i_inum (icache s ip))) s) (\<lambda>(bp, s).
       let s = set_data bp (put_dinode (b_data (bufs s bp)) (i_inum (icache s ip) mod IPB) (icache s ip)) s in
     andthen (log_write bp s) (\<lambda>s. brelse bp s))"

definition load_dinode :: "dinode \<Rightarrow> inode \<Rightarrow> inode" where
  "load_dinode di v = v\<lparr>i_type := di_type di, i_major := di_major di, i_minor := di_minor di,
     i_nlink := di_nlink di, i_size := di_size di, i_addrs := di_addrs di\<rparr>"

definition ilock :: "nat \<Rightarrow> 'a ino_state_scheme \<Rightarrow> 'a ino_state_scheme outcome" where
  "ilock ip s =
     (if i_ref (icache s ip) < 1 then Panic ''ilock''
      else if i_busy (icache s ip) then Blocked
      else let s = set_inode ip ((icache s ip)\<lparr>i_busy := True\<rparr>) s in
        if \<not> i_valid (icache s ip) then
          andthen (bread (i_dev (icache s ip)) (IBLOCK (i_inum (icache s ip))) s) (\<lambda>(bp, s).
            let di = get_dinode (b_data (bufs s bp)) (i_inum (icache s ip) mod IPB);
                s = set_inode ip (load_dinode di (icache s ip)) s in
          andthen (brelse bp s) (\<lambda>s.
            let s = set_inode ip ((icache s ip)\<lparr>i_valid := True\<rparr>) s in
            if i_type (icache s ip) = 0 then Panic ''ilock: no type'' else Ok s))
        else Ok s)"

definition iunlock :: "nat \<Rightarrow> 'a ino_state_scheme \<Rightarrow> 'a ino_state_scheme outcome" where
  "iunlock ip s =
     (if \<not> i_busy (icache s ip) \<or> i_ref (icache s ip) < 1 then Panic ''iunlock''
      else Ok (set_inode ip ((icache s ip)\<lparr>i_busy := False\<rparr>) s))"

section \<open>Truncation and release\<close>

text \<open>Drop one use of a block: a shared block loses a reference, an unshared one is freed.\<close>

definition drop_block :: "nat \<Rightarrow> nat \<Rightarrow> 'a fs_state_scheme \<Rightarrow> 'a fs_state_scheme outcome" where
  "drop_block dev a s =
     andthen (getBlkRef a s) (\<lambda>(ref, s).
       if 0 < ref then updateBlkRef a (-1) s else bfree dev a s)"

definition itrunc_direct :: "nat \<Rightarrow> nat \<Rightarrow> 'a ino_state_scheme \<Rightarrow> 'a ino_state_scheme outcome" where
  "itrunc_direct ip i s =
     (let a = i_addrs (icache s ip) ! i in
      if a \<noteq> 0 then andthen (drop_block (i_dev (icache s ip)) a s) (\<lambda>s. Ok (set_addr ip i 0 s))
      else Ok s)"

definition itrunc_indirect :: "nat \<Rightarrow> nat \<Rightarrow> nat \<Rightarrow> 'a ino_state_scheme \<Rightarrow> 'a ino_state_scheme outcome" where
  "itrunc_indirect ip bp j s =
     (let a = get32 (b_data (bufs s bp)) (4 * j) in
      if a \<noteq> 0 then drop_block (i_dev (icache s ip)) a s else Ok s)"

definition itrunc :: "nat \<Rightarrow> 'a ino_state_scheme \<Rightarrow> 'a ino_state_scheme outcome" where
  "itrunc ip s =
     andthen (for_each (itrunc_direct ip) [0..<NDIRECT] s) (\<lambda>s.
     andthen
       (if i_addrs (icache s ip) ! NDIRECT \<noteq> 0 then
          andthen (bread (i_dev (icache s ip)) (i_addrs (icache s ip) ! NDIRECT) s) (\<lambda>(bp, s).
          andthen (for_each (itrunc_indirect ip bp) [0..<NINDIRECT] s) (\<lambda>s.
          andthen (brelse bp s) (\<lambda>s.
          andthen (bfree (i_dev (icache s ip)) (i_addrs (icache s ip) ! NDIRECT) s) (\<lambda>s.
            Ok (set_addr ip NDIRECT 0 s)))))
        else Ok s) (\<lambda>s.
       iupdate ip (set_inode ip ((icache s ip)\<lparr>i_size := 0\<rparr>) s)))"

definition iput :: "nat \<Rightarrow> 'a ino_state_scheme \<Rightarrow> 'a ino_state_scheme outcome" where
  "iput ip s =
     andthen
       (if i_ref (icache s ip) = 1 \<and> i_valid (icache s ip) \<and> i_nlink (icache s ip) = 0 then
          if i_busy (icache s ip) then Panic ''iput busy''
          else andthen (itrunc ip (set_inode ip ((icache s ip)\<lparr>i_busy := True\<rparr>) s)) (\<lambda>s.
               andthen (iupdate ip (set_inode ip ((icache s ip)\<lparr>i_type := 0\<rparr>) s)) (\<lambda>s.
                 Ok (set_inode ip ((icache s ip)\<lparr>i_busy := False, i_valid := False\<rparr>) s)))
        else Ok s)
       (\<lambda>s. Ok (set_inode ip ((icache s ip)\<lparr>i_ref := i_ref (icache s ip) - 1\<rparr>) s))"

definition iunlockput :: "nat \<Rightarrow> 'a ino_state_scheme \<Rightarrow> 'a ino_state_scheme outcome" where
  "iunlockput ip s = andthen (iunlock ip s) (iput ip)"

section \<open>The block map of a file\<close>

definition bmap :: "nat \<Rightarrow> nat \<Rightarrow> 'a ino_state_scheme \<Rightarrow> (nat \<times> 'a ino_state_scheme) outcome" where
  "bmap ip bn s =
     (if bn < NDIRECT then
        let addr = i_addrs (icache s ip) ! bn in
        if addr = 0 then andthen (balloc (i_dev (icache s ip)) s) (\<lambda>(addr, s).
          Ok (addr, set_addr ip bn addr s))
        else Ok (addr, s)
      else let bn = bn - NDIRECT in
      if bn < NINDIRECT then
        andthen
          (let addr = i_addrs (icache s ip) ! NDIRECT in
           if addr = 0 then andthen (balloc (i_dev (icache s ip)) s) (\<lambda>(addr, s).
             Ok (addr, set_addr ip NDIRECT addr s))
           else Ok (addr, s)) (\<lambda>(addr, s).
        andthen (bread (i_dev (icache s ip)) addr s) (\<lambda>(bp, s).
        andthen
          (let addr = get32 (b_data (bufs s bp)) (4 * bn) in
           if addr = 0 then andthen (balloc (i_dev (icache s ip)) s) (\<lambda>(addr, s).
             andthen (log_write bp (set_data bp (put32 (b_data (bufs s bp)) (4 * bn) addr) s)) (\<lambda>s.
               Ok (addr, s)))
           else Ok (addr, s)) (\<lambda>(addr, s).
        andthen (brelse bp s) (\<lambda>s. Ok (addr, s)))))
      else Panic ''bmap: out of range'')"

text \<open>
  Copy-on-write redirects every slot of the file that holds \<open>old\<close>. The changed indirect
  block is released without being logged or written.
\<close>

definition replace_indirect :: "nat \<Rightarrow> nat \<Rightarrow> block \<Rightarrow> block" where
  "replace_indirect old new d =
     fold (\<lambda>j d. if get32 d (4 * j) \<noteq> 0 \<and> get32 d (4 * j) = old then put32 d (4 * j) new else d)
       [0..<NINDIRECT] d"

definition replaceBlk :: "nat \<Rightarrow> nat \<Rightarrow> nat \<Rightarrow> 'a ino_state_scheme \<Rightarrow> 'a ino_state_scheme outcome" where
  "replaceBlk ip old new s =
     (let s = fold (\<lambda>i s. if i_addrs (icache s ip) ! i \<noteq> 0 \<and> i_addrs (icache s ip) ! i = old
              then set_addr ip i new s else s) [0..<NDIRECT] s in
      if i_addrs (icache s ip) ! NDIRECT \<noteq> 0 then
        andthen (bread (i_dev (icache s ip)) (i_addrs (icache s ip) ! NDIRECT) s) (\<lambda>(bp, s).
          brelse bp (set_data bp (replace_indirect old new (b_data (bufs s bp))) s))
      else Ok s)"

definition stati :: "nat \<Rightarrow> 'a ino_state_scheme \<Rightarrow> stat" where
  "stati ip s = \<lparr>st_type = i_type (icache s ip), st_dev = i_dev (icache s ip),
     st_ino = i_inum (icache s ip), st_nlink = i_nlink (icache s ip), st_size = i_size (icache s ip)\<rparr>"

section \<open>Reading and writing\<close>

text \<open>
  \<^verbatim>\<open>devsw\<close> is a table of device routines, indexed by the major number; a null entry
  is \<open>None\<close>. A read delivers the bytes it stores at \<^verbatim>\<open>dst\<close> with its result.
\<close>

type_synonym 's dev_read = "nat \<Rightarrow> nat \<Rightarrow> 's \<Rightarrow> ((int \<times> u8 list) \<times> 's) outcome"
type_synonym 's dev_write = "nat \<Rightarrow> u8 list \<Rightarrow> 's \<Rightarrow> (int \<times> 's) outcome"

function readi_loop :: "nat \<Rightarrow> nat \<Rightarrow> nat \<Rightarrow> nat \<Rightarrow> u8 list \<Rightarrow> 'a ino_state_scheme \<Rightarrow>
    ((int \<times> u8 list) \<times> 'a ino_state_scheme) outcome" where
  "readi_loop ip off tot n dst s =
     (if tot < n then
        andthen (bmap ip (off div BSIZE) s) (\<lambda>(addr, s).
        andthen (bread (i_dev (icache s ip)) addr s) (\<lambda>(bp, s).
          let m = min (n - tot) (BSIZE - off mod BSIZE);
              dst = dst @ take m (drop (off mod BSIZE) (b_data (bufs s bp)))
          in andthen (brelse bp s) (\<lambda>s. readi_loop ip (off + m) (tot + m) n dst s)))
      else Ok ((int_of n, dst), s))"
  by pat_completeness auto

termination
  by (relation "measure (\<lambda>(ip, off, tot, n, dst, s). n - tot)") (auto simp: min_def)

definition readi :: "(int \<Rightarrow> 'a ino_state_scheme dev_read option) \<Rightarrow> nat \<Rightarrow> nat \<Rightarrow> nat \<Rightarrow>
    'a ino_state_scheme \<Rightarrow> ((int \<times> u8 list) \<times> 'a ino_state_scheme) outcome" where
  "readi devsw ip off n s =
     (if i_type (icache s ip) = T_DEV then
        let major = i_major (icache s ip) in
        if major < 0 \<or> NDEV \<le> major then Ok ((-1, []), s)
        else (case devsw major of None \<Rightarrow> Ok ((-1, []), s) | Some f \<Rightarrow> f ip n s)
      else if i_size (icache s ip) < off \<or> w32 (off + n) < off then Ok ((-1, []), s)
      else let n = (if i_size (icache s ip) < w32 (off + n) then i_size (icache s ip) - off else n)
        in readi_loop ip off 0 n [] s)"

text \<open>One round of the loop of \<^verbatim>\<open>writei\<close>: at most one block, copied first if it is shared.\<close>

definition writei_block :: "nat \<Rightarrow> nat \<Rightarrow> u8 list \<Rightarrow> 'a ino_state_scheme \<Rightarrow>
    'a ino_state_scheme outcome" where
  "writei_block ip off src s =
     andthen (bmap ip (off div BSIZE) s) (\<lambda>(addr, s).
     andthen (bread (i_dev (icache s ip)) addr s) (\<lambda>(bp, s).
     andthen (getBlkRef (b_sector (bufs s bp)) s) (\<lambda>(ref, s).
     andthen
       (if 0 < ref then
          let old = b_sector (bufs s bp) in
          andthen (updateBlkRef old (-1) s) (\<lambda>s.
            let tmp = b_data (bufs s bp) in
          andthen (brelse bp s) (\<lambda>s.
          andthen (balloc (i_dev (icache s ip)) s) (\<lambda>(new, s).
          andthen (replaceBlk ip old new s) (\<lambda>s.
          andthen (bread (i_dev (icache s ip)) new s) (\<lambda>(bp, s).
            Ok (bp, set_data bp tmp s))))))
        else Ok (bp, s)) (\<lambda>(bp, s).
       let s = set_data bp (blit (b_data (bufs s bp)) (off mod BSIZE) src) s in
     andthen (log_write bp s) (\<lambda>s. brelse bp s)))))"

function writei_loop :: "nat \<Rightarrow> nat \<Rightarrow> nat \<Rightarrow> u8 list \<Rightarrow> 'a ino_state_scheme \<Rightarrow>
    (nat \<times> 'a ino_state_scheme) outcome" where
  "writei_loop ip off tot src s =
     (if tot < length src then
        let m = min (length src - tot) (BSIZE - off mod BSIZE) in
        andthen (writei_block ip off (take m (drop tot src)) s) (\<lambda>s.
          writei_loop ip (off + m) (tot + m) src s)
      else Ok (off, s))"
  by pat_completeness auto

termination
  by (relation "measure (\<lambda>(ip, off, tot, src, s). length src - tot)") (auto simp: min_def)

text \<open>The \<open>n\<close> bytes at \<^verbatim>\<open>src\<close> are the list \<open>src\<close>.\<close>

definition writei :: "(int \<Rightarrow> 'a ino_state_scheme dev_write option) \<Rightarrow> nat \<Rightarrow> u8 list \<Rightarrow> nat \<Rightarrow>
    'a ino_state_scheme \<Rightarrow> (int \<times> 'a ino_state_scheme) outcome" where
  "writei devsw ip src off s =
     (if i_type (icache s ip) = T_DEV then
        let major = i_major (icache s ip) in
        if major < 0 \<or> NDEV \<le> major then Ok (-1, s)
        else (case devsw major of None \<Rightarrow> Ok (-1, s) | Some f \<Rightarrow> f ip src s)
      else if i_size (icache s ip) < off \<or> w32 (off + length src) < off then Ok (-1, s)
      else if MAXFILE * BSIZE < w32 (off + length src) then Ok (-1, s)
      else andthen (writei_loop ip off 0 src s) (\<lambda>(off, s).
        andthen
          (if 0 < length src \<and> i_size (icache s ip) < off
           then iupdate ip (set_inode ip ((icache s ip)\<lparr>i_size := off\<rparr>) s)
           else Ok s) (\<lambda>s. Ok (int_of (length src), s))))"

section \<open>Walking the inodes\<close>

text \<open>\<^verbatim>\<open>getNextInode\<close> and \<^verbatim>\<open>getPrevInode\<close> enumerate the regular files for de-duplication.\<close>

function next_inode_from :: "nat \<Rightarrow> nat \<Rightarrow> 'a ino_state_scheme \<Rightarrow>
    (nat option \<times> 'a ino_state_scheme) outcome" where
  "next_inode_from ninodes inum s =
     (if inum < ninodes then
        andthen (bread 1 (IBLOCK inum) s) (\<lambda>(bp, s).
          if di_type (get_dinode (b_data (bufs s bp)) (inum mod IPB)) = T_FILE then
            andthen (iget 1 inum (s\<lparr>nextInum := int inum\<rparr>)) (\<lambda>(ip, s).
            andthen (brelse bp s) (\<lambda>s. Ok (Some ip, s)))
          else andthen (brelse bp s) (\<lambda>s. next_inode_from ninodes (inum + 1) s))
      else Ok (None, s))"
  by pat_completeness auto

termination
  by (relation "measure (\<lambda>(ninodes, inum, s). ninodes - inum)") auto

definition getNextInode :: "'a ino_state_scheme \<Rightarrow> (nat option \<times> 'a ino_state_scheme) outcome" where
  "getNextInode s = andthen (readsb 1 s) (\<lambda>(sb, s).
     next_inode_from (sb_ninodes sb) (nat (nextInum s + 1)) s)"

text \<open>The lower bound \<open>lo\<close> of the scan is \<^verbatim>\<open>nextInum\<close>, which reading a block does not change.\<close>

function prev_inode_from :: "int \<Rightarrow> int \<Rightarrow> 'a ino_state_scheme \<Rightarrow>
    ((nat option \<times> int) \<times> 'a ino_state_scheme) outcome" where
  "prev_inode_from lo prevInum s =
     (if lo < prevInum then
        andthen (bread 1 (IBLOCK (nat prevInum)) s) (\<lambda>(bp, s).
          if di_type (get_dinode (b_data (bufs s bp)) (nat prevInum mod IPB)) = T_FILE then
            andthen (iget 1 (nat prevInum) s) (\<lambda>(ip, s).
            andthen (brelse bp s) (\<lambda>s. Ok ((Some ip, prevInum - 1), s)))
          else andthen (brelse bp s) (\<lambda>s. prev_inode_from lo (prevInum - 1) s))
      else Ok ((None, prevInum), s))"
  by pat_completeness auto

termination
  by (relation "measure (\<lambda>(lo, p, s). nat (p - lo))") auto

definition getPrevInode :: "int \<Rightarrow> 'a ino_state_scheme \<Rightarrow>
    ((nat option \<times> int) \<times> 'a ino_state_scheme) outcome" where
  "getPrevInode prevInum s = prev_inode_from (nextInum s) prevInum s"

definition zeroNextInum :: "'a ino_state_scheme \<Rightarrow> 'a ino_state_scheme" where
  "zeroNextInum s = s\<lparr>nextInum := 0\<rparr>"

declare readi_loop.simps [simp del]
declare writei_loop.simps [simp del]
declare next_inode_from.simps [simp del]
declare prev_inode_from.simps [simp del]
declare ialloc_from.simps [simp del]

end
