(* ===== verification/Xv6_Dedup.thy ===== *)
theory Xv6_Dedup
  imports Xv6_Inode
begin

text \<open>
  De-duplication of file blocks (file.c: \<^verbatim>\<open>blkcmp\<close>, \<^verbatim>\<open>deletedups\<close>, \<^verbatim>\<open>dedup\<close>). A pointer to the
  entries of an indirect block is the buffer that holds the block, \<open>None\<close> for a null
  pointer. For a block of the indirect part of a file the code also looks at
  \<^verbatim>\<open>ip1->addrs\<close> at the index within the indirect block, which lies beyond the array from
  13 on; \<open>oob\<close> is the word it finds there. Messages to the console are left out.
\<close>

record dd_state = ino_state +
  directChanged :: bool
  indirectChanged :: bool

section \<open>One pair of blocks\<close>

definition blkcmp :: "block \<Rightarrow> block \<Rightarrow> bool" where
  "blkcmp d1 d2 \<longleftrightarrow> list_all (\<lambda>i. d1 ! i = d2 ! i) [0..<BSIZE]"

text \<open>Slot \<open>i\<close> of a file: of the inode, or of its indirect block in buffer \<open>bp\<close>.\<close>

definition slot :: "nat \<Rightarrow> nat option \<Rightarrow> nat \<Rightarrow> 'a ino_state_scheme \<Rightarrow> nat" where
  "slot ip a i s = (case a of None \<Rightarrow> i_addrs (icache s ip) ! i | Some bp \<Rightarrow> get32 (b_data (bufs s bp)) (4 * i))"

definition deletedups :: "nat \<Rightarrow> nat \<Rightarrow> nat \<Rightarrow> nat \<Rightarrow> nat \<Rightarrow> nat \<Rightarrow> nat option \<Rightarrow> nat option \<Rightarrow>
    'a dd_state_scheme \<Rightarrow> 'a dd_state_scheme outcome" where
  "deletedups ip1 ip2 b1 b2 b1Index b2Index a b s =
     (let v = slot ip2 b b2Index s;
          s = (case a of
                 None \<Rightarrow> (set_addr ip1 b1Index v s)\<lparr>directChanged := True\<rparr>
               | Some bp \<Rightarrow> (set_data bp (put32 (b_data (bufs s bp)) (4 * b1Index) v) s)\<lparr>indirectChanged := True\<rparr>)
      in andthen (updateBlkRef (b_sector (bufs s b2)) 1 s) (\<lambda>s.
         andthen (getBlkRef (b_sector (bufs s b1)) s) (\<lambda>(ref, s).
           if 0 < ref then updateBlkRef (b_sector (bufs s b1)) (-1) s
           else if ref = 0 then
             andthen (begin_trans s) (\<lambda>s.
             andthen (bfree (b_dev (bufs s b1)) (b_sector (bufs s b1)) s) commit_trans)
           else Ok s)))"

text \<open>
  The body shared by the four inner loops: compare block \<open>b1\<close> with the block in slot \<open>i2\<close> of
  \<open>ip2\<close>; on a match redirect slot \<open>i1\<close> of \<open>ip1\<close> and release both buffers.
\<close>

definition try_pair :: "nat \<Rightarrow> nat \<Rightarrow> nat \<Rightarrow> nat \<Rightarrow> nat \<Rightarrow> nat option \<Rightarrow> nat option \<Rightarrow>
    'a dd_state_scheme \<Rightarrow> (bool \<times> 'a dd_state_scheme) outcome" where
  "try_pair ip1 ip2 b1 i1 i2 a b s =
     andthen (bread (i_dev (icache s ip2)) (slot ip2 b i2 s) s) (\<lambda>(b2, s).
       if blkcmp (b_data (bufs s b1)) (b_data (bufs s b2)) then
         andthen (deletedups ip1 ip2 b1 b2 i1 i2 a b s) (\<lambda>s.
         andthen (brelse b1 s) (\<lambda>s.
         andthen (brelse b2 s) (\<lambda>s. Ok (True, s))))
       else andthen (brelse b2 s) (\<lambda>s. Ok (False, s)))"

section \<open>Blocks of the same file\<close>

text \<open>A direct block against the later blocks of the file, from block \<open>i2 - 1\<close> down to \<open>i1 + 1\<close>.\<close>

fun own_direct :: "nat \<Rightarrow> nat option \<Rightarrow> nat \<Rightarrow> nat \<Rightarrow> nat \<Rightarrow> 'a dd_state_scheme \<Rightarrow>
    (bool \<times> 'a dd_state_scheme) outcome" where
  "own_direct ip1 a b1 i1 0 s = Ok (False, s)"
| "own_direct ip1 a b1 i1 (Suc i2) s =
     (if i1 < i2 then
        if i2 < NDIRECT then
          if slot ip1 None i1 s \<noteq> 0 \<and> slot ip1 None i2 s \<noteq> 0 \<and> slot ip1 None i1 s \<noteq> slot ip1 None i2 s then
            andthen (try_pair ip1 ip1 b1 i1 i2 None None s) (\<lambda>(found, s).
              if found then Ok (True, s) else own_direct ip1 a b1 i1 i2 s)
          else own_direct ip1 a b1 i1 i2 s
        else if a \<noteq> None then
          if slot ip1 None i1 s \<noteq> 0 \<and> slot ip1 a (i2 - NDIRECT) s \<noteq> 0 \<and>
             slot ip1 None i1 s \<noteq> slot ip1 a (i2 - NDIRECT) s then
            andthen (try_pair ip1 ip1 b1 i1 (i2 - NDIRECT) None a s) (\<lambda>(found, s).
              if found then Ok (True, s) else own_direct ip1 a b1 i1 i2 s)
          else own_direct ip1 a b1 i1 i2 s
        else own_direct ip1 a b1 i1 i2 s
      else Ok (False, s))"

text \<open>A block of the indirect part against the later ones.\<close>

fun own_indirect :: "nat \<Rightarrow> nat option \<Rightarrow> nat \<Rightarrow> nat \<Rightarrow> nat \<Rightarrow> 'a dd_state_scheme \<Rightarrow>
    (bool \<times> 'a dd_state_scheme) outcome" where
  "own_indirect ip1 a b1 i1 0 s = Ok (False, s)"
| "own_indirect ip1 a b1 i1 (Suc i2) s =
     (if i1 < i2 then
        if slot ip1 a i2 s \<noteq> 0 \<and> slot ip1 a i2 s \<noteq> slot ip1 a i1 s then
          andthen (try_pair ip1 ip1 b1 i1 i2 a a s) (\<lambda>(found, s).
            if found then Ok (True, s\<lparr>indirectChanged := True\<rparr>) else own_indirect ip1 a b1 i1 i2 s)
        else own_indirect ip1 a b1 i1 i2 s
      else Ok (False, s))"

section \<open>Blocks of other files\<close>

text \<open>\<^verbatim>\<open>ip1->addrs[i]\<close>, also beyond the end of the array.\<close>

definition addrs_at :: "(nat \<Rightarrow> nat \<Rightarrow> nat) \<Rightarrow> nat \<Rightarrow> nat \<Rightarrow> 'a ino_state_scheme \<Rightarrow> nat" where
  "addrs_at oob ip i s = (if i \<le> NDIRECT then i_addrs (icache s ip) ! i else oob ip i)"

fun other_blocks :: "(nat \<Rightarrow> nat \<Rightarrow> nat) \<Rightarrow> nat \<Rightarrow> nat \<Rightarrow> nat option \<Rightarrow> nat option \<Rightarrow> nat \<Rightarrow> nat \<Rightarrow> nat \<Rightarrow>
    'a dd_state_scheme \<Rightarrow> (bool \<times> 'a dd_state_scheme) outcome" where
  "other_blocks oob ip1 ip2 a b b1 i1 0 s = Ok (False, s)"
| "other_blocks oob ip1 ip2 a b b1 i1 (Suc i2) s =
     (let c = (if i2 < NDIRECT then None else b); j = (if i2 < NDIRECT then i2 else i2 - NDIRECT) in
      if i2 < NDIRECT \<or> b \<noteq> None then
        if a \<noteq> None \<and> slot ip2 c j s = slot ip1 a i1 s \<or> slot ip2 c j s = addrs_at oob ip1 i1 s
        then other_blocks oob ip1 ip2 a b b1 i1 i2 s
        else if slot ip2 c j s \<noteq> 0 then
          andthen (try_pair ip1 ip2 b1 i1 j a c s) (\<lambda>(found, s).
            if found then Ok (True, s) else other_blocks oob ip1 ip2 a b b1 i1 i2 s)
        else other_blocks oob ip1 ip2 a b b1 i1 i2 s
      else other_blocks oob ip1 ip2 a b b1 i1 i2 s)"

text \<open>One other file: lock it, read its indirect block if it has one, compare all its blocks.\<close>

definition other_file :: "(nat \<Rightarrow> nat \<Rightarrow> nat) \<Rightarrow> nat \<Rightarrow> nat \<Rightarrow> nat option \<Rightarrow> nat \<Rightarrow> nat \<Rightarrow>
    'a dd_state_scheme \<Rightarrow> (bool \<times> 'a dd_state_scheme) outcome" where
  "other_file oob ip1 ip2 a b1 i1 s =
     andthen (ilock ip2 s) (\<lambda>s.
     andthen
       (if i_addrs (icache s ip2) ! NDIRECT \<noteq> 0 then
          andthen (bread (i_dev (icache s ip2)) (i_addrs (icache s ip2) ! NDIRECT) s) (\<lambda>(bp2, s).
          andthen (other_blocks oob ip1 ip2 a (Some bp2) b1 i1 (NDIRECT + NINDIRECT) s) (\<lambda>(found, s).
          andthen (if i_addrs (icache s ip2) ! NDIRECT \<noteq> 0 then brelse bp2 s else Ok s) (\<lambda>s. Ok (found, s))))
        else other_blocks oob ip1 ip2 a None b1 i1 NDIRECT s) (\<lambda>(found, s).
     andthen (iunlockput ip2 s) (\<lambda>s. Ok (found, s))))"

text \<open>The loop over the other files; \<^verbatim>\<open>prevInum\<close> decreases, so \<open>ninodes\<close> rounds are enough.\<close>

fun other_files :: "nat \<Rightarrow> (nat \<Rightarrow> nat \<Rightarrow> nat) \<Rightarrow> nat \<Rightarrow> nat option \<Rightarrow> nat \<Rightarrow> nat \<Rightarrow> int \<Rightarrow>
    'a dd_state_scheme \<Rightarrow> (bool \<times> 'a dd_state_scheme) outcome" where
  "other_files 0 oob ip1 a b1 i1 prevInum s = NoFuel"
| "other_files (Suc fuel) oob ip1 a b1 i1 prevInum s =
     andthen (getPrevInode prevInum s) (\<lambda>((r, prevInum), s).
       case r of None \<Rightarrow> Ok (False, s)
       | Some ip2 \<Rightarrow>
           andthen (other_file oob ip1 ip2 a b1 i1 s) (\<lambda>(found, s).
             if found then Ok (True, s) else other_files fuel oob ip1 a b1 i1 prevInum s))"

section \<open>The whole pass\<close>

text \<open>One block of \<open>ip1\<close>; \<open>bp1\<close> is the buffer with its indirect block.\<close>

definition dedup_block :: "(nat \<Rightarrow> nat \<Rightarrow> nat) \<Rightarrow> nat \<Rightarrow> nat \<Rightarrow> nat option \<Rightarrow> nat \<Rightarrow>
    'a dd_state_scheme \<Rightarrow> 'a dd_state_scheme outcome" where
  "dedup_block oob ninodes ip1 bp1 i s =
     (let indirects = (if bp1 = None then 0 else NINDIRECT);
          a = (if i < NDIRECT then None else bp1); j = (if i < NDIRECT then i else i - NDIRECT) in
      if slot ip1 a j s \<noteq> 0 then
        andthen (bread (i_dev (icache s ip1)) (slot ip1 a j s) s) (\<lambda>(b1, s).
        andthen
          (if i < NDIRECT then own_direct ip1 bp1 b1 i (NDIRECT + indirects) s
           else own_indirect ip1 bp1 b1 j NINDIRECT s) (\<lambda>(found, s).
        if found then Ok s
        else andthen (other_files (ninodes + 1) oob ip1 a b1 j (int ninodes - 1) s) (\<lambda>(found, s).
          if found then Ok s else brelse b1 s)))
      else Ok s)"

definition dedup_file :: "(nat \<Rightarrow> nat \<Rightarrow> nat) \<Rightarrow> nat \<Rightarrow> nat \<Rightarrow> 'a dd_state_scheme \<Rightarrow> 'a dd_state_scheme outcome" where
  "dedup_file oob ninodes ip1 s =
     andthen (ilock ip1 (s\<lparr>directChanged := False, indirectChanged := False\<rparr>)) (\<lambda>s.
     andthen
       (if i_addrs (icache s ip1) ! NDIRECT \<noteq> 0 then
          andthen (bread (i_dev (icache s ip1)) (i_addrs (icache s ip1) ! NDIRECT) s) (\<lambda>(bp1, s).
            Ok (Some bp1, s))
        else Ok (None, s)) (\<lambda>(bp1, s).
     andthen (for_each (dedup_block oob ninodes ip1 bp1)
                [0..<NDIRECT + (if bp1 = None then 0 else NINDIRECT)] s) (\<lambda>s.
     andthen
       (case bp1 of None \<Rightarrow> Ok s
        | Some bp1 \<Rightarrow> if i_addrs (icache s ip1) ! NDIRECT \<noteq> 0 then
            andthen (if indirectChanged s then bwrite bp1 s else Ok s) (brelse bp1) else Ok s) (\<lambda>s.
     andthen
       (if directChanged s then
          andthen (begin_trans s) (\<lambda>s. andthen (iupdate ip1 s) commit_trans)
        else Ok s) (\<lambda>s.
     iunlockput ip1 s)))))"

text \<open>The outer loop; \<^verbatim>\<open>nextInum\<close> increases, so \<open>ninodes\<close> rounds are enough.\<close>

fun dedup_files :: "nat \<Rightarrow> (nat \<Rightarrow> nat \<Rightarrow> nat) \<Rightarrow> nat \<Rightarrow> 'a dd_state_scheme \<Rightarrow> (int \<times> 'a dd_state_scheme) outcome" where
  "dedup_files 0 oob ninodes s = NoFuel"
| "dedup_files (Suc fuel) oob ninodes s =
     andthen (getNextInode s) (\<lambda>(r, s).
       case r of None \<Rightarrow> Ok (0, s)
       | Some ip1 \<Rightarrow> andthen (dedup_file oob ninodes ip1 s) (dedup_files fuel oob ninodes))"

definition dedup :: "(nat \<Rightarrow> nat \<Rightarrow> nat) \<Rightarrow> 'a dd_state_scheme \<Rightarrow> (int \<times> 'a dd_state_scheme) outcome" where
  "dedup oob s =
     andthen (readsb 1 s) (\<lambda>(sb, s).
       dedup_files (sb_ninodes sb + 1) oob (sb_ninodes sb) (zeroNextInum s))"

text \<open>
  The share of blocks saved. The code prints the quotient of the two counts \<open>saved\<close> and
  \<open>total\<close> to the console; the model returns the counts.
\<close>

definition getSharedBlocksRate :: "'a dd_state_scheme \<Rightarrow> ((nat \<times> int) \<times> 'a dd_state_scheme) outcome" where
  "getSharedBlocksRate s =
     andthen (getRefCount 1 s) (\<lambda>(r1, s).
     andthen (bread 1 r1 s) (\<lambda>(bp1, s).
     andthen (getRefCount 2 s) (\<lambda>(r2, s).
     andthen (bread 1 r2 s) (\<lambda>(bp2, s).
     andthen (readsb 1 s) (\<lambda>(sb, s).
     andthen (getFreeBlocks s) (\<lambda>(free, s).
       let total = int (sb_nblocks sb) - int free;
           saved = sum_list (map (\<lambda>i. unat (b_data (bufs s bp1) ! i) + unat (b_data (bufs s bp2) ! i)) [0..<BSIZE])
       in andthen (brelse bp1 s) (\<lambda>s.
          andthen (brelse bp2 s) (\<lambda>s. Ok ((saved, total + int saved), s)))))))))"

end
