(* ===== verification/Xv6_Inode_Props.thy ===== *)
theory Xv6_Inode_Props
  imports Xv6_Inode
begin

text \<open>
  The inode layer: the format of inodes on disk, and the inode cache as a table of reference-counted
  entries.
\<close>

section \<open>Inodes on disk\<close>

text \<open>The ranges of the fields of \<^verbatim>\<open>struct inode\<close> that are stored on disk.\<close>

definition short_ok :: "int \<Rightarrow> bool" where
  "short_ok i \<longleftrightarrow> - 32768 \<le> i \<and> i < 32768"

definition inode_ok :: "inode \<Rightarrow> bool" where
  "inode_ok v \<longleftrightarrow> short_ok (i_type v) \<and> short_ok (i_major v) \<and> short_ok (i_minor v) \<and> short_ok (i_nlink v) \<and>
     i_size v < 4294967296 \<and> length (i_addrs v) = NDIRECT + 1 \<and> (\<forall>a \<in> set (i_addrs v). a < 4294967296)"

lemma length_put_addrs [simp]: "length (put_addrs d off as) = length d"
proof -
  have "length (fold (\<lambda>i d. put32 d (off + 4 * i) (as ! i)) is d) = length d" for "is"
    by (induction "is" arbitrary: d) simp_all
  then show ?thesis by (simp add: put_addrs_def)
qed

lemma nth_put_addrs_other:
  "j < off \<or> off + 52 \<le> j \<Longrightarrow> put_addrs d off as ! j = d ! j"
proof -
  assume j: "j < off \<or> off + 52 \<le> j"
  have "fold (\<lambda>i d. put32 d (off + 4 * i) (as ! i)) is d ! j = d ! j" if "set is \<subseteq> {0..<13}" for "is"
    using that j by (induction "is" arbitrary: d) (auto simp: nth_put32_other)
  then show ?thesis by (simp add: put_addrs_def)
qed

lemma get32_put_addrs:
  assumes "off + 52 \<le> length d" and "i < NDIRECT + 1"
  shows "get32 (put_addrs d off as) (off + 4 * i) = w32 (as ! i)"
proof -
  have "get32 (fold (\<lambda>i d. put32 d (off + 4 * i) (as ! i)) [0..<n] d) (off + 4 * i) = w32 (as ! i)"
    if "i < n" "n \<le> 13" for n
    using that
  proof (induction n)
    case (Suc n)
    have l: "length (fold (\<lambda>i d. put32 d (off + 4 * i) (as ! i)) is d) = length d" for "is" d
      by (induction "is" arbitrary: d) simp_all
    show ?case
    proof (cases "i = n")
      case True
      then show ?thesis using Suc assms by (simp add: get32_put32 l)
    next
      case False
      then show ?thesis using Suc by (simp add: get32_put32_other)
    qed
  qed simp
  from this [of 13] show ?thesis using assms by (simp add: put_addrs_def)
qed

lemma get16_put_addrs_other: "j + 2 \<le> off \<Longrightarrow> get16 (put_addrs d off as) j = get16 d j"
  by (simp add: get16_def nth_put_addrs_other)

lemma get32_put_addrs_other: "j + 4 \<le> off \<Longrightarrow> get32 (put_addrs d off as) j = get32 d j"
  by (simp add: get32_def nth_put_addrs_other)

lemma nth_put_dinode_other:
  assumes "j < 64 * k \<or> 64 * k + 64 \<le> j"
  shows "put_dinode d k v ! j = d ! j"
  using assms by (auto simp: put_dinode_def Let_def nth_put_addrs_other nth_put32_other nth_put16_other)

lemma get_dinode_cong:
  assumes "\<And>j. j < 64 \<Longrightarrow> d ! (64 * k + j) = d' ! (64 * k + j)"
  shows "get_dinode d k = get_dinode d' k"
proof -
  have a: "d ! (64 * k + 12 + 4 * i + m) = d' ! (64 * k + 12 + 4 * i + m)" if "i < 13" "m < 4" for i m
    using assms [of "12 + 4 * i + m"] that by (simp add: add.assoc)
  have "get32 d (64 * k + 12 + 4 * i) = get32 d' (64 * k + 12 + 4 * i)" if "i < 13" for i
    using a [OF that, of 0] a [OF that, of 1] a [OF that, of 2] a [OF that, of 3] by (simp add: get32_def)
  then have m: "map (\<lambda>i. get32 d (64 * k + 12 + 4 * i)) [0..<NDIRECT + 1] = map (\<lambda>i. get32 d' (64 * k + 12 + 4 * i)) [0..<NDIRECT + 1]"
    by (intro map_cong refl) simp
  have h: "get16 d (64 * k + j) = get16 d' (64 * k + j)" if "j < 63" for j
    using assms [of j] assms [of "j + 1"] that by (simp add: get16_def add.assoc)
  have z: "get32 d (64 * k + 8) = get32 d' (64 * k + 8)"
    using assms [of 8] assms [of 9] assms [of 10] assms [of 11] by (simp add: get32_def ac_simps)
  show ?thesis
    unfolding get_dinode_def m z using h [of 0] h [of 2] h [of 4] h [of 6] by simp
qed

text \<open>
  C30: an inode written to disk reads back the same. After \<^verbatim>\<open>iupdate\<close> has stored the fields of a
  well-formed inode in its slot of a block, \<^verbatim>\<open>ilock\<close> loads exactly these fields from the slot, and
  the other inodes of the block are unchanged.
\<close>
theorem dinode_roundtrip:
  assumes d: "length d = BSIZE" and k: "k < 8" and v: "inode_ok v"
  shows "load_dinode (get_dinode (put_dinode d k v) k) w =
      w\<lparr>i_type := i_type v, i_major := i_major v, i_minor := i_minor v, i_nlink := i_nlink v, i_size := i_size v, i_addrs := i_addrs v\<rparr> \<and>
    (\<forall>j < 8. j \<noteq> k \<longrightarrow> get_dinode (put_dinode d k v) j = get_dinode d j)"
proof -
  let ?d = "put_dinode d k v"
  have sh: "short_of (of_short i mod 65536) = i" if "short_ok i" for i
    using that of_short_bound [of i] short_of_of_short by (simp add: short_ok_def)
  have "get32 ?d (64 * k + 12 + 4 * i) = i_addrs v ! i" if "i < 13" for i
  proof -
    have "i_addrs v ! i < 4294967296" using v that by (simp add: inode_ok_def)
    then show ?thesis unfolding put_dinode_def Let_def using that d k by (subst get32_put_addrs) simp_all
  qed
  then have a: "map (\<lambda>i. get32 ?d (64 * k + 12 + 4 * i)) [0..<NDIRECT + 1] = i_addrs v"
    using v by (intro nth_equalityI) (simp_all add: inode_ok_def)
  have z: "get32 ?d (64 * k + 8) = i_size v"
    using d k v by (simp add: put_dinode_def Let_def get32_put_addrs_other get32_put32 inode_ok_def)
  have h: "short_of (get16 ?d (64 * k)) = i_type v" "short_of (get16 ?d (64 * k + 2)) = i_major v"
    "short_of (get16 ?d (64 * k + 4)) = i_minor v" "short_of (get16 ?d (64 * k + 6)) = i_nlink v"
    unfolding put_dinode_def Let_def using d k sh
    by (simp_all add: get16_put_addrs_other get16_put32_other get16_put16_other get16_put16 v [unfolded inode_ok_def])
  moreover have "get_dinode ?d j = get_dinode d j" if "j < 8" "j \<noteq> k" for j
    using that by (intro get_dinode_cong nth_put_dinode_other) auto
  moreover have "load_dinode (get_dinode ?d k) w = w\<lparr>i_type := i_type v, i_major := i_major v, i_minor := i_minor v,
      i_nlink := i_nlink v, i_size := i_size v, i_addrs := i_addrs v\<rparr>"
    unfolding load_dinode_def get_dinode_def a z h by simp
  ultimately show ?thesis by blast
qed

text \<open>
  Whatever bytes a block holds, an inode loaded from it is well formed: its type, device
  numbers and link count are 16-bit signed numbers, its size and its 13 block numbers
  are 32-bit unsigned ones.
\<close>
theorem loaded_inode_ok: "inode_ok (load_dinode (get_dinode d k) w)"
proof -
  have "short_ok (short_of (get16 d i))" for i
    using get16_bound [of d i] by (simp add: short_ok_def short_of_def)
  then show ?thesis using get32_bound by (auto simp: inode_ok_def load_dinode_def get_dinode_def)
qed

section \<open>The inode cache\<close>

text \<open>Entries in use have different inodes, and no count is negative.\<close>

definition icache_ok :: "'a ino_state_scheme \<Rightarrow> bool" where
  "icache_ok s \<longleftrightarrow> (\<forall>i < NINODE. 0 \<le> i_ref (icache s i)) \<and>
     (\<forall>i < NINODE. \<forall>j < NINODE. 0 < i_ref (icache s i) \<and> 0 < i_ref (icache s j) \<and> i_dev (icache s i) = i_dev (icache s j) \<and>
        i_inum (icache s i) = i_inum (icache s j) \<longrightarrow> i = j)"

definition caches :: "'a ino_state_scheme \<Rightarrow> nat \<Rightarrow> nat \<Rightarrow> nat \<Rightarrow> bool" where
  "caches s dev inum ip \<longleftrightarrow> 0 < i_ref (icache s ip) \<and> i_dev (icache s ip) = dev \<and> i_inum (icache s ip) = inum"

lemma iget_eq:
  "iget dev inum s = (case find (caches s dev inum) [0..<NINODE] of
      Some ip \<Rightarrow> Ok (ip, set_inode ip ((icache s ip)\<lparr>i_ref := i_ref (icache s ip) + 1\<rparr>) s)
    | None \<Rightarrow> (case find (\<lambda>ip. i_ref (icache s ip) = 0) [0..<NINODE] of
        None \<Rightarrow> Panic ''iget: no inodes''
      | Some ip \<Rightarrow> Ok (ip, set_inode ip ((icache s ip)\<lparr>i_dev := dev, i_inum := inum, i_ref := 1,
          i_busy := False, i_valid := False\<rparr>) s)))"
  unfolding iget_def caches_def [abs_def] ..

lemma icache_set_inode [simp]: "icache (set_inode ip v s) = (icache s)(ip := v)"
  by (simp add: set_inode_def)

lemma icache_ok_set:
  assumes "icache_ok s" and "0 \<le> i_ref v"
    and "\<And>j. j < NINODE \<Longrightarrow> j \<noteq> ip \<Longrightarrow> \<not> caches s (i_dev v) (i_inum v) j"
  shows "icache_ok (set_inode ip v s)"
  unfolding icache_ok_def
proof (intro conjI allI impI)
  fix i j
  assume i: "i < NINODE" and j: "j < NINODE"
  let ?c = "icache (set_inode ip v s)"
  show "0 \<le> i_ref (?c i)" using assms(1,2) i by (simp add: icache_ok_def)
  assume e: "0 < i_ref (?c i) \<and> 0 < i_ref (?c j) \<and> i_dev (?c i) = i_dev (?c j) \<and> i_inum (?c i) = i_inum (?c j)"
  show "i = j"
  proof (rule ccontr)
    assume "i \<noteq> j"
    then consider "i = ip" "j \<noteq> ip" | "j = ip" "i \<noteq> ip" | "i \<noteq> ip" "j \<noteq> ip" by auto
    then show False
    proof cases
      case 1
      then show ?thesis using assms(3) [of j] j e by (simp add: caches_def)
    next
      case 2
      then show ?thesis using assms(3) [of i] i e by (simp add: caches_def)
    next
      case 3
      then show ?thesis using assms(1) i j e \<open>i \<noteq> j\<close> unfolding icache_ok_def by simp
    qed
  qed
qed

lemma icache_ok_same:
  "icache_ok s \<Longrightarrow> ip < NINODE \<Longrightarrow> caches s dev inum ip \<Longrightarrow> j < NINODE \<Longrightarrow> j \<noteq> ip \<Longrightarrow> \<not> caches s (i_dev (icache s ip)) (i_inum (icache s ip)) j"
  unfolding icache_ok_def caches_def by blast

lemma find_NoneD: "find P xs = None \<Longrightarrow> x \<in> set xs \<Longrightarrow> \<not> P x"
  by (simp add: find_None_iff)

text \<open>
  C31: \<^verbatim>\<open>iget\<close> never makes two entries for one inode. In a well-formed cache it panics only when all 50
  entries are in use for other inodes; otherwise it returns the entry of the inode with one more reference,
  an existing entry keeping its contents and a new one being a free entry that is not yet valid,
  changes no other entry, and leaves the cache well formed.
\<close>
theorem iget_correct:
  assumes ok: "icache_ok s"
  shows "(iget dev inum s = Panic ''iget: no inodes'' \<and> (\<forall>i < NINODE. 0 < i_ref (icache s i) \<and> \<not> caches s dev inum i)) \<or>
    (\<exists>ip s'. iget dev inum s = Ok (ip, s') \<and> ip < NINODE \<and> icache_ok s' \<and> caches s' dev inum ip \<and>
      (\<forall>j. j \<noteq> ip \<longrightarrow> icache s' j = icache s j) \<and>
      (if \<exists>i < NINODE. caches s dev inum i
       then caches s dev inum ip \<and> icache s' ip = (icache s ip)\<lparr>i_ref := i_ref (icache s ip) + 1\<rparr>
       else i_ref (icache s ip) = 0 \<and> i_ref (icache s' ip) = 1 \<and> \<not> i_valid (icache s' ip) \<and> \<not> i_busy (icache s' ip)))"
proof (cases "find (caches s dev inum) [0..<NINODE]")
  case (Some ip)
  have c: "ip < NINODE" "caches s dev inum ip" using find_SomeD [OF Some] by simp_all
  let ?s = "set_inode ip ((icache s ip)\<lparr>i_ref := i_ref (icache s ip) + 1\<rparr>) s"
  have "iget dev inum s = Ok (ip, ?s)" using Some by (simp add: iget_eq)
  moreover have "icache_ok ?s"
    by (rule icache_ok_set [OF ok]) (use ok c icache_ok_same [OF ok c] in \<open>auto simp: caches_def\<close>)
  moreover have "caches ?s dev inum ip" using c by (simp add: caches_def)
  ultimately show ?thesis using c by (intro disjI2 exI [of _ ip] exI [of _ ?s]) auto
next
  case None
  have n: "\<not> caches s dev inum i" if "i < NINODE" for i using find_NoneD [OF None, of i] that by simp
  show ?thesis
  proof (cases "find (\<lambda>ip. i_ref (icache s ip) = 0) [0..<NINODE]")
    case f: None
    have "0 < i_ref (icache s i)" if "i < NINODE" for i
    proof -
      have "i_ref (icache s i) \<noteq> 0" using find_NoneD [OF f, of i] that by simp
      moreover have "0 \<le> i_ref (icache s i)" using ok that by (simp add: icache_ok_def)
      ultimately show ?thesis by simp
    qed
    moreover have "iget dev inum s = Panic ''iget: no inodes''" using None f by (simp add: iget_eq)
    ultimately show ?thesis using n by blast
  next
    case (Some ip)
    have c: "ip < NINODE" "i_ref (icache s ip) = 0" using find_SomeD [OF Some] by simp_all
    let ?s = "set_inode ip ((icache s ip)\<lparr>i_dev := dev, i_inum := inum, i_ref := 1, i_busy := False, i_valid := False\<rparr>) s"
    have "iget dev inum s = Ok (ip, ?s)" using None Some by (simp add: iget_eq)
    moreover have "icache_ok ?s" by (rule icache_ok_set [OF ok]) (use n in simp_all)
    moreover have "\<not> (\<exists>i < NINODE. caches s dev inum i)" using n by blast
    moreover have "caches ?s dev inum ip" by (simp add: caches_def)
    ultimately show ?thesis using c by (intro disjI2 exI [of _ ip] exI [of _ ?s]) simp
  qed
qed

section \<open>Examples\<close>

definition example_inode :: inode where
  "example_inode = \<lparr>i_dev = 1, i_inum = 19, i_ref = 1, i_busy = True, i_valid = True, i_type = T_DEV, i_major = 1, i_minor = - 1,
     i_nlink = 2, i_size = 70000, i_addrs = [0..<13]\<rparr>"

theorem dinode_roundtrip_witness:
  "load_dinode (get_dinode (put_dinode zero_block 3 example_inode) 3) example_inode = example_inode \<and>
   get_dinode (put_dinode zero_block 3 example_inode) 2 = get_dinode zero_block 2"
proof -
  have "inode_ok example_inode" by (simp add: inode_ok_def short_ok_def example_inode_def)
  from dinode_roundtrip [OF _ _ this, of zero_block 3 example_inode] show ?thesis by simp
qed

text \<open>A cache with inode 19 in its second entry and all others free.\<close>

definition example_icache :: ino_state where
  "example_icache = \<lparr>memdisk = \<lambda>_. zero_block, disksize = 1024, iotrace = [],
     bufs = \<lambda>_. \<lparr>b_busy = False, b_valid = False, b_dirty = False, b_dev = 1, b_sector = 0, b_prev = 0, b_next = 0, b_data = zero_block\<rparr>,
     log_start = 1014, log_size = 10, log_busy = False, log_dev = 1, lh_n = 0, lh_sector = [],
     nextInum = 0, refCount1 = 1012, refCount2 = 1013,
     icache = (\<lambda>_. example_inode\<lparr>i_inum := 0, i_ref := 0, i_busy := False\<rparr>)(1 := example_inode)\<rparr>"

theorem iget_correct_witness:
  "\<exists>s'. iget 1 19 example_icache = Ok (1, s') \<and> icache_ok s' \<and> i_ref (icache s' 1) = 2"
proof -
  have ok: "icache_ok example_icache" by (simp add: icache_ok_def example_icache_def example_inode_def)
  have one: "caches example_icache 1 19 i \<longleftrightarrow> i = 1" for i
    by (simp add: caches_def example_icache_def example_inode_def)
  have "i_ref (icache example_icache 1) = 1" by (simp add: example_icache_def example_inode_def)
  moreover have "\<exists>i < NINODE. caches example_icache 1 19 i" by (intro exI [of _ 1]) (simp add: one)
  moreover have "\<not> (\<forall>i < NINODE. 0 < i_ref (icache example_icache i) \<and> \<not> caches example_icache 1 19 i)"
    by (rule notI, drule spec [of _ 1]) (simp add: one)
  ultimately show ?thesis using iget_correct [OF ok, of 1 19] by (auto simp: one)
qed

end
