(* ===== verification/Xv6_Block_Props.thy ===== *)
theory Xv6_Block_Props
  imports Xv6_Blocks
begin

text \<open>
  The properties of the block layer, with the disk that mkfs.c lays out as the
  concrete file system of their examples.
\<close>

section \<open>The block layer of a fresh disk\<close>

text \<open>The bitmap that mkfs.c writes with \<^verbatim>\<open>balloc(usedblocks)\<close>.\<close>

definition mkfs_balloc :: "nat \<Rightarrow> block" where
  "mkfs_balloc used = fold (\<lambda>i d. set_used d i) [0..<used] zero_block"

lemma length_set_used [simp]: "length (set_used d i) = length d"
  by (simp add: set_used_def)

lemma length_clear_used [simp]: "length (clear_used d i) = length d"
  by (simp add: clear_used_def)

lemma mkfs_balloc_used:
  assumes "n \<le> BPB"
  shows "length (mkfs_balloc n) = BSIZE" and "j < BPB \<Longrightarrow> blk_used (mkfs_balloc n) j \<longleftrightarrow> j < n"
proof -
  show len: "length (mkfs_balloc n) = BSIZE" for n
    unfolding mkfs_balloc_def by (induction n) auto
  show "blk_used (mkfs_balloc n) j \<longleftrightarrow> j < n" if j: "j < BPB"
    using assms
  proof (induction n)
    case 0
    have "j div 8 < 512" using j by (simp add: less_mult_imp_div_less)
    then show ?case by (simp add: mkfs_balloc_def blk_used_def)
  next
    case (Suc n)
    have "n div 8 < length (mkfs_balloc n)"
      using Suc.prems len by (simp add: less_mult_imp_div_less)
    moreover have "mkfs_balloc (Suc n) = set_used (mkfs_balloc n) n" by (simp add: mkfs_balloc_def)
    ultimately show ?case using Suc blk_used_set_used [of n "mkfs_balloc n" j] by auto
  qed
qed

text \<open>A disk with the geometry of mkfs.c on which the blocks below \<open>used\<close> are in use.\<close>

definition disk_used :: "nat \<Rightarrow> nat \<Rightarrow> block" where
  "disk_used used = mkfs_disk(28 := mkfs_balloc used)"

lemma disk_used_sb:
  "sb_of_block (disk_used n 1) = \<lparr>sb_size = 1026, sb_nblocks = 985, sb_ninodes = 200, sb_nlog = 10,
     sb_refCount1 = 29, sb_refCount2 = 30\<rparr>"
  by (simp add: disk_used_def mkfs_disk_def mkfs_super_fields)

lemma BBLOCK_disk_used: "b < 1026 \<Longrightarrow> BBLOCK b 200 = 28"
  by (simp add: BBLOCK_def)

lemma disk_used_facts:
  assumes "n \<le> 1026"
  shows "free_set (disk_used n) = {n..<1026}" and "bitmap_ok (disk_used n)"
    and "map_ok (disk_used n) 1016 {}" and "log_super (disk_used n) 1016 10 1026"
    and "log_image (disk_used n) 1016 []" and "x \<noteq> 1 \<Longrightarrow> x \<noteq> 28 \<Longrightarrow> data_block (disk_used n) x"
    and "ref_ok (disk_used n) 1016 {} []"
proof -
  have 28: "disk_used n 28 = mkfs_balloc n" by (simp add: disk_used_def)
  have "in_use (disk_used n) b \<longleftrightarrow> b < n" if "b < 1026" for b
    using that assms mkfs_balloc_used(2) [of n b] 28
    by (simp add: in_use_def disk_used_sb BBLOCK_disk_used)
  then show "free_set (disk_used n) = {n..<1026}"
    using assms by (auto simp: free_set_def disk_used_sb)
  show "bitmap_ok (disk_used n)"
    using assms mkfs_balloc_used(1) [of n] 28 by (simp add: bitmap_ok_def disk_used_sb BBLOCK_disk_used)
  show "map_ok (disk_used n) 1016 {}" by (simp add: map_ok_def disk_used_sb BBLOCK_disk_used)
  show "log_super (disk_used n) 1016 10 1026" by (simp add: log_super_def disk_used_sb)
  show "log_image (disk_used n) 1016 []"
    using mkfs_disk_log(2) by (simp add: log_image_def disk_used_def)
  show "x \<noteq> 1 \<Longrightarrow> x \<noteq> 28 \<Longrightarrow> data_block (disk_used n) x"
    by (simp add: data_block_def disk_used_sb BBLOCK_disk_used)
  show "ref_ok (disk_used n) 1016 {} []"
    by (simp add: ref_ok_def disk_used_sb) (simp add: disk_used_def mkfs_disk_def)
qed

lemma example_state:
  assumes "log_super d 1016 10 1026" and "log_image d 1016 []"
  shows "\<exists>s :: fs_state. log_view s d d {} [] \<and> log_busy s \<and>
    log_start s = 1016 \<and> log_size s = 10 \<and> disksize s = 1026 \<and> refCount1 s = 0"
proof -
  let ?r = "undefined\<lparr>refCount1 := 0\<rparr> :: fs_state"
  obtain s :: fs_state where s: "log_view s d d {} []"
    "log_start s = 1016" "log_size s = 10" "disksize s = 1026" "\<not> log_busy s"
    "log_state.more s = log_state.more ?r"
    using boot_view [OF assms, of "log_state.more ?r"] by auto
  have "refCount1 s = 0" using fs_fields_more(2) [OF s(6)] by simp
  moreover obtain t where "log_view t d d {} []" "log_busy t"
    "log_start t = 1016" "log_size t = 10" "disksize t = 1026" "log_state.more t = log_state.more s"
    using log_view_begin [OF s(1,5)] s by auto
  ultimately show ?thesis using fs_fields_more(2) [of t s] by metis
qed

lemma example_fs:
  assumes "n \<le> 1026"
  shows "\<exists>s :: fs_state. log_view s (disk_used n) (disk_used n) {} [] \<and> log_busy s \<and>
    log_start s = 1016 \<and> log_size s = 10 \<and> disksize s = 1026 \<and> refCount1 s = 0"
  by (rule example_state [OF disk_used_facts(4,5) [OF assms]])

section \<open>Properties of the block layer\<close>

text \<open>
  C12: \<^verbatim>\<open>balloc\<close> returns the lowest free block, marks it used and zeroes it inside the
  transaction, changes no other data block and no other bit of the map; it panics when
  no block of the file system is free.
\<close>

theorem balloc_correct:
  assumes "log_view s base post H L" and "map_ok post (log_start s) H" and "bitmap_ok post"
    and "log_room s H L 2"
  shows "(\<forall>b. b \<in> free_set post \<and> (\<forall>x \<in> free_set post. b \<le> x) \<and> b < log_start s \<and> b \<notin> H \<and>
      data_block post b \<longrightarrow>
      (\<exists>t post' L'. balloc 1 s = Ok (b, t) \<and> log_view t base post' H L' \<and> post' b = zero_block \<and>
        free_set post' = free_set post - {b} \<and>
        (\<forall>x. data_block post x \<and> x \<noteq> b \<longrightarrow> post' x = post x) \<and> length L' \<le> length L + 2)) \<and>
    (free_set post = {} \<longrightarrow> balloc 1 s = Panic ''balloc: out of blocks'')"
proof (intro conjI allI impI)
  have room: "log_room s H L (Suc (Suc 0))" using assms(4) by (simp add: numeral_2_eq_2)
  let ?sb = "sb_of_block (post 1)"
  show "\<exists>t post' L'. balloc 1 s = Ok (b, t) \<and> log_view t base post' H L' \<and> post' b = zero_block \<and>
        free_set post' = free_set post - {b} \<and>
        (\<forall>x. data_block post x \<and> x \<noteq> b \<longrightarrow> post' x = post x) \<and> length L' \<le> length L + 2"
    if a: "b \<in> free_set post \<and> (\<forall>x \<in> free_set post. b \<le> x) \<and> b < log_start s \<and> b \<notin> H \<and>
      data_block post b" for b
  proof -
    let ?bb = "BBLOCK b (sb_ninodes ?sb)"
    let ?post = "post(?bb := set_used (post ?bb) (b mod BPB), b := zero_block)"
    have b: "b < sb_size ?sb" "\<not> in_use post b" "b < log_start s" "b \<notin> H" "data_block post b"
      using a by (simp_all add: free_set_def)
    have lo: "in_use post x" if "x < b" for x
    proof (rule ccontr)
      assume "\<not> in_use post x"
      then have "x \<in> free_set post" using that b(1) by (simp add: free_set_def)
      then show False using a that by auto
    qed
    obtain t where t: "balloc 1 s = Ok (b, t)" "log_view t base ?post H (log_add b (log_add ?bb L))"
      using balloc_law [OF assms(1,2) room b(1,2) lo b(3,4)] by blast
    have "\<forall>x. data_block post x \<and> x \<noteq> b \<longrightarrow> ?post x = post x"
      using b(1) by (simp add: data_block_def)
    moreover have "length (log_add b (log_add ?bb L)) \<le> length L + 2"
      using length_log_add [of b "log_add ?bb L"] length_log_add [of ?bb L] by simp
    moreover have "?post b = zero_block" by simp
    ultimately show ?thesis using t free_set_alloc [OF assms(3) b(1,5), of zero_block] by blast
  qed
  show "balloc 1 s = Panic ''balloc: out of blocks''" if full: "free_set post = {}"
  proof -
    obtain r where r: "readsb 1 s = Ok (?sb, r)" "log_view r base post H L" "log_rest r = log_rest s"
      using readsb_view [OF assms(1) _ _ room] assms(2) by (auto simp: map_ok_def)
    have m: "map_ok post (log_start r) H" "log_room r H L (Suc (Suc 0))"
      using assms(2) room log_restD(1) [OF r(3)] log_room_rest [OF r(3)] by simp_all
    have "balloc_from 1 ?sb 0 r = Panic ''balloc: out of blocks''"
      using full by (intro balloc_from_full [OF r(2) m refl]) (auto simp: free_set_def)
    then show ?thesis using r(1) by (simp add: balloc_def)
  qed
qed


theorem balloc_correct_witness:
  "\<exists>(s :: fs_state) t post' L'. balloc 1 s = Ok (31, t) \<and> log_view t (disk_used 31) post' {} L' \<and>
     post' 31 = zero_block \<and> free_set post' = {32..<1026}"
proof -
  obtain s :: fs_state where s: "log_view s (disk_used 31) (disk_used 31) {} []" "log_busy s"
    "log_start s = 1016" "log_size s = 10"
    using example_fs [of 31] by auto
  have m: "map_ok (disk_used 31) (log_start s) {}" "bitmap_ok (disk_used 31)" "log_room s {} [] 2"
    using disk_used_facts [of 31] s by (simp_all add: log_room_def log_limit_def)
  have f: "free_set (disk_used 31) = {31..<1026}" using disk_used_facts(1) [of 31] by simp
  have "31 \<in> free_set (disk_used 31) \<and> (\<forall>x \<in> free_set (disk_used 31). 31 \<le> x) \<and> 31 < log_start s \<and>
      31 \<notin> {} \<and> data_block (disk_used 31) 31"
    using disk_used_facts(6) [of 31 31] s(3) unfolding f by simp
  from balloc_correct [OF s(1) m, THEN conjunct1, rule_format, OF this] obtain t post' L' where
    "balloc 1 s = Ok (31, t)" "log_view t (disk_used 31) post' {} L'" "post' 31 = zero_block"
    "free_set post' = free_set (disk_used 31) - {31}" by blast
  moreover have "free_set (disk_used 31) - {31} = {32..<1026}" unfolding f by auto
  ultimately show ?thesis by auto
qed

text \<open>
  C13: \<^verbatim>\<open>bfree\<close> clears exactly the bit of its block, which becomes free again, and panics
  if the block was free already.
\<close>

theorem bfree_correct:
  assumes "log_view s base post H L" and "map_ok post (log_start s) H" and "bitmap_ok post"
    and "log_room s H L 1" and "b < sb_size (sb_of_block (post 1))"
  shows "(b \<notin> free_set post \<longrightarrow> (\<exists>t post' L'. bfree 1 b s = Ok t \<and> log_view t base post' H L' \<and>
      free_set post' = insert b (free_set post) \<and> (\<forall>x. data_block post x \<longrightarrow> post' x = post x))) \<and>
    (b \<in> free_set post \<longrightarrow> bfree 1 b s = Panic ''freeing free block'')"
proof -
  let ?bb = "BBLOCK b (sb_ninodes (sb_of_block (post 1)))"
  have room: "log_room s H L (Suc 0)" using assms(4) by (simp add: One_nat_def)
  have "\<forall>x. data_block post x \<longrightarrow> (post(?bb := clear_used (post ?bb) (b mod BPB))) x = post x"
    using assms(5) by (simp add: data_block_def)
  moreover have "b \<in> free_set post \<longleftrightarrow> \<not> in_use post b" using assms(5) by (simp add: free_set_def)
  ultimately show ?thesis
    using bfree_law [OF assms(1,2) room assms(5)] free_set_clear [OF assms(3,5)] by blast
qed

theorem bfree_correct_witness:
  "\<exists>(s :: fs_state) t post' L'. bfree 1 40 s = Ok t \<and> log_view t (disk_used 50) post' {} L' \<and>
     free_set post' = insert 40 {50..<1026} \<and> bfree 1 60 s = Panic ''freeing free block''"
proof -
  obtain s :: fs_state where s: "log_view s (disk_used 50) (disk_used 50) {} []" "log_busy s"
    "log_start s = 1016" "log_size s = 10"
    using example_fs [of 50] by auto
  have m: "map_ok (disk_used 50) (log_start s) {}" "bitmap_ok (disk_used 50)" "log_room s {} [] 1"
    using disk_used_facts [of 50] s by (simp_all add: log_room_def log_limit_def)
  have f: "free_set (disk_used 50) = {50..<1026}" using disk_used_facts(1) [of 50] by simp
  have "bfree 1 60 s = Panic ''freeing free block''"
    using bfree_correct [OF s(1) m, of 60] f by (simp add: disk_used_sb)
  then show ?thesis using bfree_correct [OF s(1) m, of 40] f by (auto simp: disk_used_sb)
qed

text \<open>
  \<^verbatim>\<open>getFreeBlocks\<close> returns the number of free blocks and changes nothing.
\<close>

theorem getFreeBlocks_correct:
  assumes "log_view s base post H L" and "map_ok post (log_start s) H" and "card (H \<union> set L) < NBUF"
  shows "\<exists>t. getFreeBlocks s = Ok (card (free_set post), t) \<and> log_view t base post H L"
  using getFreeBlocks_law [OF assms(1,2), of 0] assms(3) by (auto simp: log_room_def)

theorem getFreeBlocks_correct_witness:
  "\<exists>(s :: fs_state) t. getFreeBlocks s = Ok (995, t)"
proof -
  obtain s :: fs_state where s: "log_view s (disk_used 31) (disk_used 31) {} []" "log_start s = 1016"
    using example_fs [of 31] by auto
  have "map_ok (disk_used 31) (log_start s) {}" "free_set (disk_used 31) = {31..<1026}"
    using disk_used_facts [of 31] s(2) by simp_all
  then show ?thesis using getFreeBlocks_correct [OF s(1)] by auto
qed




text \<open>
  The log area is not marked in the bitmap: mkfs.c marks the blocks below
  \<^verbatim>\<open>usedblocks\<close> only, and \<^verbatim>\<open>balloc\<close> scans up to \<^verbatim>\<open>sb.size\<close>.
\<close>

lemma log_write_log_block:
  assumes v: "log_view s base post {} L" and "log_room s {} L 1"
  shows "\<exists>b t u w. bread 1 (log_start s) s = Ok (b, t) \<and>
    log_write b (set_data b d t) = Ok u \<and> brelse b u = Ok w"
proof -
  obtain c where c: "bio_rel s c {} (set L)" "log_mem s L"
    using v by (auto simp: log_view_def log_rel_def)
  have lim: "length L < log_limit s" "card (set L) + 1 < NBUF" "log_start s < disksize s"
    using assms(2) c(2) by (auto simp: log_room_def log_mem_def)
  then obtain b t where t: "bread 1 (log_start s) s = Ok (b, t)"
    "bio_rel t c {log_start s} (set L)" "handle t b (log_start s)" "bio_frame s t"
    using bread_law [OF c(1), of "log_start s"] by auto
  let ?t = "set_data b d t"
  have t': "bio_rel ?t (c(log_start s := d)) {log_start s} (set L)" "handle ?t b (log_start s)"
    "bio_frame t ?t" using set_data_law [OF t(2,3), of d] t(3) by (auto simp: keeps_handles_def)
  have m: "bio_state.more ?t = bio_state.more s" "disksize ?t = disksize s"
    using t(4) t'(3) by (simp_all add: bio_frame_def)
  note mf = log_fields_more [OF m(1)]
  have "log_mem ?t L" "length L < log_limit ?t" "\<forall>x\<in>{log_start s}. x \<le> log_start ?t"
    using c(2) lim(1) unfolding log_mem_def log_limit_def mf m(2) by auto
  moreover have "card ({log_start s} \<union> set L) < NBUF"
    using lim(2) card_insert_le_Suc [of "log_start s" "set L"] by simp
  ultimately obtain u c' where u: "log_write b ?t = Ok u"
    "bio_rel u c' {log_start s} (insert (log_start s) (set L))" "keeps_handles ?t u"
    using log_write_effect [OF t'(1) _ _ t'(2)] by blast
  have "handle u b (log_start s)" using u(3) t'(2) by (simp add: keeps_handles_def)
  then obtain w where "brelse b u = Ok w" using brelse_law [OF u(2)] by blast
  then show ?thesis using t(1) u(1) by blast
qed

lemma balloc_returns_log_block:
  "\<exists>(s :: fs_state) t. log_view s (disk_used 1016) (disk_used 1016) {} [] \<and> log_start s = 1016 \<and>
     balloc 1 s = Ok (1016, t)"
proof -
  let ?d = "disk_used 1016"
  obtain s :: fs_state where s: "log_view s ?d ?d {} []" "log_busy s" "log_start s = 1016"
    "log_size s = 10"
    using example_fs [of 1016] by auto
  have room: "log_room s {} [] 3" using s by (simp add: log_room_def log_limit_def)
  obtain r where r: "readsb 1 s = Ok (sb_of_block (?d 1), r)" "log_view r ?d ?d {} []"
    "log_rest r = log_rest s"
    using readsb_view [OF s(1) _ _ room] s(3) by auto
  have st: "28 < log_start r" "log_room r {} [] (Suc 2)"
    using s(3) room log_restD(1) [OF r(3)] log_room_rest [OF r(3)] by (simp_all add: numeral_3_eq_3)
  let ?e = "set_used (?d 28) 1016"
  obtain bp t u w where t: "bread 1 28 r = Ok (bp, t)" "b_data (bufs t bp) = ?d 28"
    "log_write bp (set_data bp ?e t) = Ok u" "brelse bp u = Ok w"
    "log_view w ?d (?d(28 := ?e)) {} (log_add 28 [])" "log_rest w = log_rest r"
    using fs_update [OF r(2) _ st] by blast
  have sw: "log_start w = 1016" "log_room w {} (log_add 28 []) 1"
    using s(3) log_room_mono [OF log_room_add [OF st(2)]] log_restD(1) [OF r(3)]
      log_restD(1) [OF t(6)] log_room_rest [OF t(6)] by simp_all
  obtain b x y z where z: "bread 1 (log_start w) w = Ok (b, x)"
    "log_write b (set_data b zero_block x) = Ok y" "brelse b y = Ok z"
    using log_write_log_block [OF t(5) sw(2)] by blast
  have bz: "bzero 1 1016 w = Ok z"
    using z unfolding bzero_def zero_block_def [symmetric] sw(1) by simp
  have "find (\<lambda>bi. \<not> blk_used (?d 28) bi) [0..<1026] = Some 1016"
    using mkfs_balloc_used(2) [of 1016] by (intro find_first) (auto simp: disk_used_def)
  then have "balloc_from 1 (sb_of_block (?d 1)) 0 r = Ok (1016, z)"
    using t bz by (simp add: balloc_from.simps disk_used_sb BBLOCK_disk_used)
  then show ?thesis using s(1,3) r(1) by (auto simp: balloc_def)
qed

end
