(* ===== verification/Xv6_Content.thy ===== *)
theory Xv6_Content
  imports Xv6_Dedup Xv6_Inode_Props Xv6_Block_Props
begin

text \<open>
  The contents of files. A file is the list of the bytes that its inode and its blocks stand for;
  \<^verbatim>\<open>readi\<close> delivers them, and \<^verbatim>\<open>writei\<close> changes them through the copy-on-write of shared blocks.
\<close>

section \<open>The bytes of a file\<close>

text \<open>Block \<open>bn\<close> of the file with inode \<open>v\<close> on disk \<open>d\<close>, and byte \<open>i\<close> of the file.\<close>

definition file_block :: "(nat \<Rightarrow> block) \<Rightarrow> inode \<Rightarrow> nat \<Rightarrow> nat" where
  "file_block d v bn = (if bn < NDIRECT then i_addrs v ! bn
     else get32 (d (i_addrs v ! NDIRECT)) (4 * (bn - NDIRECT)))"

definition file_byte :: "(nat \<Rightarrow> block) \<Rightarrow> inode \<Rightarrow> nat \<Rightarrow> u8" where
  "file_byte d v i = d (file_block d v (i div BSIZE)) ! (i mod BSIZE)"

text \<open>
  Block \<open>bn\<close> of the file is there and can be read: neither it nor the indirect block on the way is
  missing, beyond the home blocks, or held.
\<close>

definition readable :: "nat \<Rightarrow> nat set \<Rightarrow> nat \<Rightarrow> bool" where
  "readable home H a \<longleftrightarrow> a \<noteq> 0 \<and> a < home \<and> a \<notin> H"

definition mapped :: "(nat \<Rightarrow> block) \<Rightarrow> nat \<Rightarrow> nat set \<Rightarrow> inode \<Rightarrow> nat \<Rightarrow> bool" where
  "mapped d home H v bn \<longleftrightarrow> bn < MAXFILE \<and> readable home H (file_block d v bn) \<and>
     length (d (file_block d v bn)) = BSIZE \<and> (NDIRECT \<le> bn \<longrightarrow> readable home H (i_addrs v ! NDIRECT))"

lemma icache_fs_more:
  "fs_state.more t = fs_state.more (s :: 'a ino_state_scheme) \<Longrightarrow> icache t = icache s"
  by (cases s; cases t) simp

lemma icache_rest: "log_rest t = log_rest (s :: 'a ino_state_scheme) \<Longrightarrow> icache t = icache s"
  using log_restD(5) [of t s] fs_fields_more(4) [of t s] icache_fs_more [of t s] by blast

lemma bmap_mapped:
  assumes v: "log_view s base post H L" and dev: "i_dev (icache s ip) = 1"
    and m: "mapped post (log_start s) H (icache s ip) bn" and room: "log_room s H L k"
  shows "\<exists>t. bmap ip bn s = Ok (file_block post (icache s ip) bn, t) \<and> log_view t base post H L \<and>
    keeps_handles s t \<and> log_rest t = log_rest s"
proof (cases "bn < NDIRECT")
  case True
  then show ?thesis
    using v m by (auto simp: bmap_def mapped_def readable_def file_block_def keeps_handles_def)
next
  case False
  let ?i = "i_addrs (icache s ip) ! NDIRECT"
  have i: "?i \<noteq> 0" "?i < log_start s" "?i \<notin> H" "bn - NDIRECT < NINDIRECT"
    "get32 (post ?i) (4 * (bn - NDIRECT)) \<noteq> 0"
    using m False by (auto simp: mapped_def readable_def file_block_def)
  obtain b t u where t: "bread 1 ?i s = Ok (b, t)" "b_data (bufs t b) = post ?i" "brelse b t = Ok u"
    "log_rest t = log_rest s" "log_view u base post H L" "keeps_handles s u" "log_rest u = log_rest s"
    using fs_peek [OF v i(3,2) room] by blast
  have "bmap ip bn s = Ok (file_block post (icache s ip) bn, u)"
    using i t False dev by (simp add: bmap_def file_block_def)
  then show ?thesis using t by blast
qed

section \<open>Reading\<close>

lemma same_block:
  assumes "off mod BSIZE + i < BSIZE"
  shows "(off + i) div BSIZE = off div BSIZE" and "(off + i) mod BSIZE = off mod BSIZE + i"
proof -
  have e: "off + i = (off mod BSIZE + i) + off div BSIZE * BSIZE" by simp
  show "(off + i) div BSIZE = off div BSIZE" unfolding e using assms by (subst div_mult_self1) simp_all
  show "(off + i) mod BSIZE = off mod BSIZE + i" unfolding e using assms by (subst mod_mult_self1) simp
qed

lemma block_bytes:
  assumes "length (d (file_block d v (off div BSIZE))) = BSIZE" and "m \<le> BSIZE - off mod BSIZE"
  shows "take m (drop (off mod BSIZE) (d (file_block d v (off div BSIZE)))) = map (file_byte d v) [off..<off + m]"
proof (rule nth_equalityI)
  have "off mod BSIZE < BSIZE" by simp
  then show l: "length (take m (drop (off mod BSIZE) (d (file_block d v (off div BSIZE))))) =
      length (map (file_byte d v) [off..<off + m])"
    using assms by simp
  fix i assume "i < length (take m (drop (off mod BSIZE) (d (file_block d v (off div BSIZE)))))"
  then have i: "i < m" unfolding l by simp
  have "off mod BSIZE + i < BSIZE" using i assms(2) \<open>off mod BSIZE < BSIZE\<close> by linarith
  note same_block [OF this]
  then show "take m (drop (off mod BSIZE) (d (file_block d v (off div BSIZE)))) ! i = map (file_byte d v) [off..<off + m] ! i"
    using i assms by (simp add: file_byte_def)
qed

lemma readi_loop_law:
  assumes "log_view s base post H L" and "i_dev (icache s ip) = 1" and "log_room s H L k"
    and "tot \<le> n" and "\<And>bn. off div BSIZE \<le> bn \<Longrightarrow> bn * BSIZE < off + (n - tot) \<Longrightarrow>
      mapped post (log_start s) H (icache s ip) bn"
  shows "\<exists>t. readi_loop ip off tot n dst s =
      Ok ((int_of n, dst @ map (file_byte post (icache s ip)) [off..<off + (n - tot)]), t) \<and>
    log_view t base post H L \<and> keeps_handles s t \<and> log_rest t = log_rest s"
  using assms
proof (induction "n - tot" arbitrary: off tot dst s rule: less_induct)
  case less
  let ?v = "icache s ip"
  show ?case
  proof (cases "tot < n")
    case True
    let ?m = "min (n - tot) (BSIZE - off mod BSIZE)" and ?a = "file_block post ?v (off div BSIZE)"
    have m: "0 < ?m" "?m \<le> BSIZE - off mod BSIZE" "tot + ?m \<le> n" using True by auto
    have "off div BSIZE * BSIZE < off + (n - tot)" using True by (simp add: div_times_less_eq_dividend le_less_trans)
    then have map: "mapped post (log_start s) H ?v (off div BSIZE)" using less.prems(5) by blast
    obtain t where t: "bmap ip (off div BSIZE) s = Ok (?a, t)" "log_view t base post H L" "keeps_handles s t"
      "log_rest t = log_rest s"
      using bmap_mapped [OF less.prems(1,2) map less.prems(3)] by blast
    have a: "?a \<notin> H" "?a < log_start t" "length (post ?a) = BSIZE"
      using map log_restD(1) [OF t(4)] by (simp_all add: mapped_def readable_def)
    obtain b u w where u: "bread 1 ?a t = Ok (b, u)" "b_data (bufs u b) = post ?a" "brelse b u = Ok w"
      "log_view w base post H L" "keeps_handles t w" "log_rest w = log_rest t"
      using fs_peek [OF t(2) a(1,2)] less.prems(3) log_room_rest [OF t(4)] by metis
    have r: "log_rest w = log_rest s" using t(4) u(6) by simp
    have w: "icache w = icache s" "log_start w = log_start s" "log_room w H L k"
      using icache_rest [OF r] log_restD(1) [OF r] log_room_rest [OF r] less.prems(3) by simp_all
    have rng: "off + ?m + (n - (tot + ?m)) = off + (n - tot)" using m(3) by linarith
    have "mapped post (log_start w) H (icache w ip) bn"
      if "(off + ?m) div BSIZE \<le> bn" "bn * BSIZE < off + ?m + (n - (tot + ?m))" for bn
    proof -
      have "off div BSIZE \<le> bn" using that(1) by (meson div_le_mono le_add1 le_trans)
      then show ?thesis using less.prems(5) that(2) w unfolding rng by simp
    qed
    then obtain x where x: "readi_loop ip (off + ?m) (tot + ?m) n (dst @ take ?m (drop (off mod BSIZE) (post ?a))) w =
        Ok ((int_of n, (dst @ take ?m (drop (off mod BSIZE) (post ?a))) @ map (file_byte post (icache w ip)) [off + ?m..<off + ?m + (n - (tot + ?m))]), x)"
      "log_view x base post H L" "keeps_handles w x" "log_rest x = log_rest w"
      using less.hyps [of "tot + ?m" w "off + ?m"] True m u(4) w less.prems(2) by (metis diff_less_mono2 less_add_same_cancel1)
    have "[off..<off + (n - tot)] = [off..<off + ?m] @ [off + ?m..<off + (n - tot)]"
      using m(3) by (metis add_diff_inverse_nat le_add1 le_add_diff_inverse2 rng upt_add_eq_append)
    then have "readi_loop ip off tot n dst s = Ok ((int_of n, dst @ map (file_byte post ?v) [off..<off + (n - tot)]), x)"
      using True t(1) u(1-3) x(1) less.prems(2) icache_rest [OF t(4)] block_bytes [where d = post, OF a(3) m(2)] w(1) rng
      by (simp add: readi_loop.simps [of ip off tot n dst s] Let_def)
    then show ?thesis using x(2-4) r t(3) u(5) by (auto simp: keeps_handles_def)
  next
    case False
    then show ?thesis using less.prems(1,4) by (simp add: readi_loop.simps keeps_handles_def)
  qed
qed

lemma mapped_size:
  assumes "\<And>bn. bn * BSIZE < n \<Longrightarrow> mapped d home H v bn"
  shows "n \<le> MAXFILE * BSIZE"
  using assms [of MAXFILE] by (intro leI notI) (simp add: mapped_def)

text \<open>
  C6: \<^verbatim>\<open>readi\<close> reads the file. For a file whose blocks up to its size are present, a read that starts
  beyond the end or whose range wraps around returns -1, and every other read returns
  the bytes of the file from the offset up to the end of the range or of the file, in order, across
  direct and indirect blocks. Nothing changes: neither the disk with the open transaction nor any inode.
\<close>
theorem readi_correct:
  fixes s :: "'a ino_state_scheme"
  assumes v: "log_view s base post H L" and ino: "i_type (icache s ip) \<noteq> T_DEV" "i_dev (icache s ip) = 1"
    and m: "\<And>bn. bn * BSIZE < i_size (icache s ip) \<Longrightarrow> mapped post (log_start s) H (icache s ip) bn"
    and room: "card (H \<union> set L) < NBUF" and rng: "off < 4294967296" "n < 4294967296"
  defines "k \<equiv> min n (i_size (icache s ip) - off)"
  shows "if i_size (icache s ip) < off \<or> 4294967296 \<le> off + n then readi devsw ip off n s = Ok ((-1, []), s)
    else \<exists>t. readi devsw ip off n s = Ok ((int k, map (file_byte post (icache s ip)) [off..<off + k]), t) \<and>
      log_view t base post H L \<and> icache t = icache s"
proof -
  let ?v = "icache s ip"
  have wrap: "w32 (off + n) < off \<longleftrightarrow> 4294967296 \<le> off + n" using rng by (auto simp: mod_if)
  have sz: "i_size ?v \<le> 71680" using mapped_size [OF m] by simp
  show ?thesis
  proof (cases "i_size ?v < off \<or> 4294967296 \<le> off + n")
    case True
    then show ?thesis using ino(1) wrap by (auto simp: readi_def)
  next
    case False
    then have k: "(if i_size ?v < w32 (off + n) then i_size ?v - off else n) = k" "off + k \<le> i_size ?v"
      by (auto simp: k_def)
    have "log_room s H L 0" using room by (simp add: log_room_def)
    moreover have "mapped post (log_start s) H ?v bn" if "bn * BSIZE < off + (k - 0)" for bn
      using m [of bn] that k(2) by simp
    ultimately obtain t where t: "readi_loop ip off 0 k [] s = Ok ((int_of k, map (file_byte post ?v) [off..<off + k]), t)"
      "log_view t base post H L" "log_rest t = log_rest s"
      using readi_loop_law [OF v ino(2), of 0 0 k off "[]"] by auto
    have "int_of k = int k" using sz k(2) by (simp add: int_of_def)
    then have "readi devsw ip off n s = Ok ((int k, map (file_byte post ?v) [off..<off + k]), t)"
      using False ino(1) wrap t(1) k(1) by (simp add: readi_def Let_def)
    then show ?thesis using False t(2) icache_rest [OF t(3)] by auto
  qed
qed

section \<open>Writing one block\<close>

lemma log_view_set_inode [simp]:
  "log_view (set_inode ip v s) = log_view s" "handle (set_inode ip v s) = handle s"
  "log_room (set_inode ip v s) = log_room s" "rc_cached (set_inode ip v s) = rc_cached s"
  by (intro ext; simp add: set_inode_def log_view_def log_rel_def bio_rel_def log_mem_def log_disk_def
      handle_def log_room_def log_limit_def rc_cached_def)+

lemma set_inode_fields [simp]:
  "log_start (set_inode ip v s) = log_start s" "icache (set_inode ip v s) = (icache s)(ip := v)"
  by (simp_all add: set_inode_def)

lemma write_held:
  assumes v: "log_view s base post (insert a H) L" and h: "handle s b a" and a: "a \<notin> H"
    and room: "log_room s H L (Suc (Suc k))"
  shows "\<exists>t u. log_write b (set_data b d s) = Ok t \<and> brelse b t = Ok u \<and>
    log_view u base (post(a := d)) H (log_add a L) \<and> log_rest u = log_rest s"
proof -
  obtain t where t: "log_write b (set_data b d s) = Ok t" "log_view t base (post(a := d)) (insert a H) (log_add a L)"
    "keeps_handles s t" "log_rest t = log_rest s"
    using fs_update_held [OF v h log_room_hold [OF room]] by blast
  have "handle t b a" using t(3) h by (simp add: keeps_handles_def)
  then obtain u where u: "brelse b t = Ok u" "log_view u base (post(a := d)) (insert a H - {a}) (log_add a L)"
    "log_rest u = log_rest t"
    using log_view_put [OF t(2)] by blast
  have "insert a H - {a} = H" using a by auto
  then show ?thesis using t(1,4) u by auto
qed

text \<open>Finding and holding the block, and looking up its count: what both branches begin with.\<close>

lemma write_begin:
  assumes v: "log_view s base post H L" and dev: "i_dev (icache s ip) = 1"
    and m: "mapped post (log_start s) H (icache s ip) bn" and room: "log_room s H L (Suc k)"
  defines "a \<equiv> file_block post (icache s ip) bn"
  assumes ok: "ref_ok post (log_start s) (insert a H) L" and rc: "rc_cached s post" and a: "a < 2 * BSIZE"
  shows "\<exists>r b t u. bmap ip bn s = Ok (a, r) \<and> icache r = icache s \<and> bread 1 a r = Ok (b, t) \<and> b_sector (bufs t b) = a \<and>
    getBlkRef a t = Ok (int (unat (blk_ref post a)), u) \<and> log_view u base post (insert a H) L \<and> handle u b a \<and>
    rc_cached u post \<and> fs_rest u = fs_rest s \<and> icache t = icache s"
proof -
  obtain r where r: "bmap ip bn s = Ok (a, r)" "log_view r base post H L" "log_rest r = log_rest s"
    using bmap_mapped [OF v dev m room] by (auto simp: a_def)
  have a': "a \<notin> H" "a < log_start r" "log_room r H L (Suc k)"
    using m log_restD(1) [OF r(3)] log_room_rest [OF r(3)] room by (simp_all add: mapped_def readable_def a_def)
  obtain b t where t: "bread 1 a r = Ok (b, t)" "log_view t base post (insert a H) L" "handle t b a" "log_rest t = log_rest r"
    using fs_get [OF r(2) a'] by blast
  have e: "log_rest t = log_rest s" using t(4) r(3) by simp
  have t': "log_room t (insert a H) L k" "ref_ok post (log_start t) (insert a H) L" "rc_cached t post"
    using log_room_hold [OF room] log_room_rest [OF e] ok log_restD(1) [OF e] rc fs_rest_log [OF e]
    by (simp_all add: rc_cached_def)
  obtain u where u: "getBlkRef a t = Ok (int (unat (blk_ref post a)), u)" "log_view u base post (insert a H) L"
    "keeps_handles t u" "fs_rest u = fs_rest t" "rc_cached u post"
    using getBlkRef_law [OF t(2) t'(2,1,3) a] by blast
  have "handle u b a" using u(3) t(3) by (simp add: keeps_handles_def)
  then show ?thesis
    using r t u handle_fields [OF t(3)] fs_rest_log [OF e] icache_rest [OF r(3)] icache_rest [OF e] by auto
qed

lemma write_unshared:
  assumes v: "log_view s base post H L" and dev: "i_dev (icache s ip) = 1"
    and m: "mapped post (log_start s) H (icache s ip) (off div BSIZE)" and room: "log_room s H L 2"
  defines "a \<equiv> file_block post (icache s ip) (off div BSIZE)"
  assumes ok: "ref_ok post (log_start s) (insert a H) L" and rc: "rc_cached s post" and a: "a < 2 * BSIZE"
    and ref: "blk_ref post a = 0"
  shows "\<exists>t. writei_block ip off src s = Ok t \<and> icache t = icache s \<and>
    log_view t base (post(a := blit (post a) (off mod BSIZE) src)) H (log_add a L)"
proof -
  have room': "log_room s H L (Suc (Suc 0))" using room by (simp add: numeral_2_eq_2)
  obtain r b t u where u: "bmap ip (off div BSIZE) s = Ok (a, r)" "icache r = icache s" "bread 1 a r = Ok (b, t)"
    "b_sector (bufs t b) = a" "getBlkRef a t = Ok (int (unat (blk_ref post a)), u)"
    "log_view u base post (insert a H) L" "handle u b a" "fs_rest u = fs_rest s" "icache t = icache s"
    using write_begin [OF v dev m room' ok [unfolded a_def] rc a [unfolded a_def]] unfolding a_def by blast
  have "a \<notin> H" using m by (simp add: mapped_def readable_def a_def)
  then obtain w x where w: "log_write b (set_data b (blit (post a) (off mod BSIZE) src) u) = Ok w" "brelse b w = Ok x"
    "log_view x base (post(a := blit (post a) (off mod BSIZE) src)) H (log_add a L)" "log_rest x = log_rest u"
    using write_held [OF u(6,7)] room' fs_restD(2) [OF u(8)] by metis
  have i: "icache x = icache s" using icache_rest [OF w(4)] icache_fs_more [OF fs_restD(5) [OF u(8)]] by simp
  have "writei_block ip off src s = Ok x"
    using u(1-5) w(1,2) ref dev log_view_data(1) [OF u(6,7)] by (simp add: writei_block_def)
  then show ?thesis using i w(3) by blast
qed

text \<open>What \<^verbatim>\<open>replaceBlk\<close> does to an inode without an indirect block.\<close>

definition redirect :: "nat \<Rightarrow> nat \<Rightarrow> inode \<Rightarrow> inode" where
  "redirect old new v = v\<lparr>i_addrs := map (\<lambda>x. if x = old then new else x) (take NDIRECT (i_addrs v)) @ drop NDIRECT (i_addrs v)\<rparr>"

lemma replace_direct:
  assumes "old \<noteq> 0" and "old \<noteq> new" and "n \<le> length (i_addrs (icache s ip))"
  shows "fold (\<lambda>i s. if i_addrs (icache s ip) ! i \<noteq> 0 \<and> i_addrs (icache s ip) ! i = old then set_addr ip i new s else s) [0..<n] s =
    set_inode ip ((icache s ip)\<lparr>i_addrs := map (\<lambda>x. if x = old then new else x) (take n (i_addrs (icache s ip))) @ drop n (i_addrs (icache s ip))\<rparr>) s"
  using assms(3)
proof (induction n)
  case 0
  then show ?case by (simp add: set_inode_def)
next
  case (Suc n)
  let ?as = "i_addrs (icache s ip)" and ?f = "\<lambda>x. if x = old then new else x"
  let ?m = "\<lambda>n. map ?f (take n ?as) @ drop n ?as"
  have n: "n < length ?as" using Suc.prems by simp
  then have nth: "?m n ! n = ?as ! n" by (simp add: nth_append)
  have suc: "?m (Suc n) = (?m n)[n := ?f (?as ! n)]"
    using n by (simp add: take_Suc_conv_app_nth list_update_append Cons_nth_drop_Suc [symmetric])
  have "?m (Suc n) = (if ?as ! n = old then (?m n)[n := new] else ?m n)"
    unfolding suc using list_update_id [of "?m n" n] nth by simp
  then show ?case
    using Suc n nth assms(1) by (auto simp: set_addr_def set_inode_def)
qed

lemma replaceBlk_direct:
  assumes "old \<noteq> 0" and "old \<noteq> new" and "length (i_addrs (icache s ip)) = NDIRECT + 1"
    and "i_addrs (icache s ip) ! NDIRECT = 0"
  shows "replaceBlk ip old new s = Ok (set_inode ip (redirect old new (icache s ip)) s)"
proof -
  have "(map f (take NDIRECT xs) @ drop NDIRECT xs) ! NDIRECT = xs ! NDIRECT" if "length xs = NDIRECT + 1"
    for f :: "nat \<Rightarrow> nat" and xs using that by (simp add: nth_append)
  then show ?thesis
    using replace_direct [OF assms(1,2), of NDIRECT s ip] assms(3,4) by (simp add: replaceBlk_def redirect_def)
qed

text \<open>
  The disk during a transaction: the bitmap and the counts lie outside the log and are not held, and the blocks
  with the counts are marked as used. A block of a file is in use, has a count, and is none of these.
\<close>

definition ref_blocks :: "(nat \<Rightarrow> block) \<Rightarrow> nat set" where
  "ref_blocks d = {sb_refCount1 (sb_of_block (d 1)), sb_refCount2 (sb_of_block (d 1))}"

definition fs_layout :: "(nat \<Rightarrow> block) \<Rightarrow> nat \<Rightarrow> nat set \<Rightarrow> nat list \<Rightarrow> bool" where
  "fs_layout d home H L \<longleftrightarrow> map_ok d home H \<and> bitmap_ok d \<and> ref_ok d home H L \<and>
     (\<forall>r \<in> ref_blocks d. data_block d r \<and> r \<notin> free_set d)"

definition data_in_use :: "(nat \<Rightarrow> block) \<Rightarrow> nat \<Rightarrow> bool" where
  "data_in_use d a \<longleftrightarrow> a < 2 * BSIZE \<and> data_block d a \<and> a \<notin> ref_blocks d \<and> a \<notin> free_set d"

definition first_free :: "(nat \<Rightarrow> block) \<Rightarrow> nat \<Rightarrow> nat set \<Rightarrow> nat \<Rightarrow> bool" where
  "first_free d home H b \<longleftrightarrow> b \<in> free_set d \<and> (\<forall>x \<in> free_set d. b \<le> x) \<and> b < home \<and> b \<notin> H \<and> data_block d b"

lemma ref_block_in: "ref_block d a \<in> ref_blocks d"
  by (simp add: ref_block_def ref_blocks_def)

lemma fs_layout_hold:
  "fs_layout d home H L \<Longrightarrow> data_in_use d a \<Longrightarrow> ref_ok d home (insert a H) L"
  by (auto simp: fs_layout_def data_in_use_def ref_ok_def ref_blocks_def data_block_def)

text \<open>Changing a block that is neither the super block nor part of the bitmap.\<close>

lemma upd_data_block:
  assumes "data_block d r"
  shows "map_ok (d(r := x)) home H = map_ok d home H" and "free_set (d(r := x)) = free_set d"
    and "data_block (d(r := x)) = data_block d" and "bitmap_ok (d(r := x)) = bitmap_ok d"
    and "ref_blocks (d(r := x)) = ref_blocks d" and "first_free (d(r := x)) = first_free d"
proof -
  have 1: "(d(r := x)) 1 = d 1" using assms by (simp add: data_block_def)
  show "map_ok (d(r := x)) home H = map_ok d home H" unfolding map_ok_def 1 ..
  show 2: "free_set (d(r := x)) = free_set d"
    unfolding free_set_def 1 using in_use_upd_data [OF assms] by blast
  show 3: "data_block (d(r := x)) = data_block d" by (intro ext) (simp only: data_block_def 1)
  show "bitmap_ok (d(r := x)) = bitmap_ok d"
    unfolding bitmap_ok_def 1 using assms by (auto simp: data_block_def)
  show "ref_blocks (d(r := x)) = ref_blocks d" by (simp only: ref_blocks_def 1)
  show "first_free (d(r := x)) = first_free d" by (intro ext) (simp only: first_free_def 2 3)
qed

lemma balloc_first:
  assumes v: "log_view s base post H L" and "map_ok post (log_start s) H" and "log_room s H L (Suc (Suc k))"
    and f: "first_free post (log_start s) H new"
  defines "bb \<equiv> BBLOCK new (sb_ninodes (sb_of_block (post 1)))"
  shows "\<exists>t. balloc 1 s = Ok (new, t) \<and> log_view t base (post(bb := set_used (post bb) (new mod BPB), new := zero_block)) H
      (log_add new (log_add bb L)) \<and> log_rest t = log_rest s"
proof -
  have n: "new < sb_size (sb_of_block (post 1))" "\<not> in_use post new" "new < log_start s" "new \<notin> H"
    using f by (auto simp: first_free_def free_set_def)
  have "in_use post x" if "x < new" for x
  proof (rule ccontr)
    assume "\<not> in_use post x"
    then have "x \<in> free_set post" using that n(1) by (simp add: free_set_def)
    then show False using f that by (auto simp: first_free_def)
  qed
  then show ?thesis using balloc_law [OF assms(1-3) n(1,2) _ n(3,4)] unfolding bb_def by blast
qed

lemma set_data_twice:
  "set_data b x (set_data b y s) = set_data b x s" "b_data (bufs (set_data b y s) b) = y"
  "icache (set_data b y i) = icache i"
  by (simp_all add: set_data_def set_buf_def)

text \<open>The copy itself: drop a reference to the held block \<open>a\<close>, allocate \<open>new\<close>, redirect the inode, hold the copy.\<close>

lemma cow_copy:
  assumes v: "log_view s base post (insert a H) L" and h: "handle s b a" and a: "a \<notin> H" "a \<noteq> 0" "data_in_use post a"
    and lay: "fs_layout post (log_start s) H L" and rc: "rc_cached s post" and room: "log_room s H L (Suc (Suc (Suc k)))"
    and ino: "i_dev (icache s ip) = 1" "length (i_addrs (icache s ip)) = NDIRECT + 1" "i_addrs (icache s ip) ! NDIRECT = 0"
    and new: "first_free post (log_start s) H new"
  defines "r \<equiv> ref_block post a"
  defines "p \<equiv> post(r := bump_ref (-1) (post r) (a mod BSIZE))"
  defines "bb \<equiv> BBLOCK new (sb_ninodes (sb_of_block (post 1)))"
  shows "\<exists>t u w x y. updateBlkRef a (-1) s = Ok t \<and> b_data (bufs t b) = post a \<and> brelse b t = Ok u \<and> i_dev (icache u ip) = 1 \<and>
    balloc 1 u = Ok (new, w) \<and> replaceBlk ip a new w = Ok x \<and> i_dev (icache x ip) = 1 \<and> (\<exists>b'. bread 1 new x = Ok (b', y) \<and> handle y b' new) \<and>
    log_view y (base(r := p r)) (p(bb := set_used (p bb) (new mod BPB), new := zero_block)) (insert new H) (log_add new (log_add bb L)) \<and>
    log_room y = log_room s \<and> icache y = (icache s)(ip := redirect a new (icache s ip))"
proof -
  have r: "r \<in> ref_blocks post" "a \<noteq> r" "data_block post r"
    using ref_block_in [of post a] a(3) lay unfolding r_def data_in_use_def fs_layout_def by metis+
  have "a \<noteq> new" using a(3) new by (auto simp: data_in_use_def first_free_def)
  note upd = upd_data_block [OF r(3), of "bump_ref (-1) (post r) (a mod BSIZE)", folded p_def]
  obtain t where t: "updateBlkRef a (-1) s = Ok t" "log_view t (base(r := p r)) p (insert a H) L" "keeps_handles s t"
    "fs_rest t = fs_rest s" "rc_cached t p"
    using updateBlkRef_law [OF v fs_layout_hold [OF lay a(3)] log_room_hold [OF log_room_mono [OF room, of "Suc 0"]] rc,
        where sector = a and flag = "-1"] a(3)
    unfolding r_def [symmetric] p_def data_in_use_def by auto
  have ht: "handle t b a" using t(3) h by (simp add: keeps_handles_def)
  have tmp: "b_data (bufs t b) = post a" using log_view_data(1) [OF t(2) ht] r(2) by (simp add: p_def)
  obtain u where u: "brelse b t = Ok u" "log_view u (base(r := p r)) p (insert a H - {a}) L" "log_rest u = log_rest t"
    using log_view_put [OF t(2) ht] by blast
  have "insert a H - {a} = H" using a(1) by auto
  then have u2: "log_view u (base(r := p r)) p H L" using u(2) by simp
  have ru: "log_start u = log_start s" "log_room u = log_room s" "icache u = icache s"
    using log_restD(1) [OF u(3)] fs_restD [OF t(4)] log_room_rest [OF u(3)] icache_rest [OF u(3)] icache_fs_more by auto
  have p1: "sb_of_block (p 1) = sb_of_block (post 1)" using r(3) by (simp add: p_def data_block_def)
  have "map_ok p (log_start u) H" "first_free p (log_start u) H new" "log_room u H L (Suc (Suc (Suc k)))"
    using lay new ru room by (simp_all add: upd(1) upd(6) fs_layout_def)
  then obtain w where w: "balloc 1 u = Ok (new, w)"
    "log_view w (base(r := p r)) (p(bb := set_used (p bb) (new mod BPB), new := zero_block)) H (log_add new (log_add bb L))"
    "log_rest w = log_rest u"
    using balloc_first [OF u2, of "Suc k" new] unfolding bb_def p1 by blast
  let ?x = "set_inode ip (redirect a new (icache s ip)) w"
  have iw: "icache w = icache s" using icache_rest [OF w(3)] ru(3) by simp
  have x: "replaceBlk ip a new w = Ok ?x" using replaceBlk_direct [OF a(2) \<open>a \<noteq> new\<close>, of w ip] ino iw by simp
  have "log_room w H (log_add new (log_add bb L)) (Suc k)"
    using log_room_add [OF log_room_add [OF room]] log_room_rest [OF w(3)] ru(2) by simp
  moreover have "new \<notin> H" "new < log_start w" using new log_restD(1) [OF w(3)] ru(1) by (simp_all add: first_free_def)
  ultimately obtain b' y where y: "bread 1 new ?x = Ok (b', y)" "handle y b' new" "log_rest y = log_rest ?x"
    "log_view y (base(r := p r)) (p(bb := set_used (p bb) (new mod BPB), new := zero_block)) (insert new H) (log_add new (log_add bb L))"
    using fs_get [of ?x, unfolded log_view_set_inode set_inode_fields, OF w(2)] by blast
  have "log_room y = log_room s" "icache y = (icache s)(ip := redirect a new (icache s ip))"
    using log_room_rest [OF y(3)] log_room_rest [OF w(3)] ru(2) icache_rest [OF y(3)] iw by simp_all
  moreover have "i_dev (icache ?x ip) = 1" "i_dev (icache u ip) = 1" using ino(1) ru(3) by (simp_all add: redirect_def)
  ultimately show ?thesis using t(1) tmp u(1) w(1) x y by blast
qed

lemma write_shared:
  assumes v: "log_view s base post H L" and lay: "fs_layout post (log_start s) H L" and rc: "rc_cached s post"
    and m: "mapped post (log_start s) H (icache s ip) (off div BSIZE)" "off div BSIZE < NDIRECT" and room: "log_room s H L 4"
    and ino: "i_dev (icache s ip) = 1" "length (i_addrs (icache s ip)) = NDIRECT + 1" "i_addrs (icache s ip) ! NDIRECT = 0"
  defines "a \<equiv> i_addrs (icache s ip) ! (off div BSIZE)"
  assumes a: "data_in_use post a" and ref: "blk_ref post a \<noteq> 0" and new: "first_free post (log_start s) H new"
  defines "r \<equiv> ref_block post a"
  defines "p \<equiv> post(r := bump_ref (-1) (post r) (a mod BSIZE))"
  defines "bb \<equiv> BBLOCK new (sb_ninodes (sb_of_block (post 1)))"
  shows "\<exists>t L'. writei_block ip off src s = Ok t \<and> icache t = (icache s)(ip := redirect a new (icache s ip)) \<and>
    log_view t (base(r := p r)) (p(bb := set_used (p bb) (new mod BPB), new := blit (post a) (off mod BSIZE) src)) H L'"
proof -
  have fb: "file_block post (icache s ip) (off div BSIZE) = a" using m(2) by (simp add: file_block_def a_def)
  have room': "log_room s H L (Suc (Suc (Suc (Suc 0))))" using room by (simp add: numeral_eq_Suc)
  have a': "a \<notin> H" "a \<noteq> 0" "a < 2 * BSIZE" using m(1) fb a by (simp_all add: mapped_def readable_def data_in_use_def)
  obtain q b t u where u: "bmap ip (off div BSIZE) s = Ok (a, q)" "icache q = icache s" "bread 1 a q = Ok (b, t)"
    "b_sector (bufs t b) = a" "getBlkRef a t = Ok (int (unat (blk_ref post a)), u)"
    "log_view u base post (insert a H) L" "handle u b a" "rc_cached u post" "fs_rest u = fs_rest s"
    using write_begin [OF v ino(1) m(1) room' _ rc] fs_layout_hold [OF lay a] a'(3) unfolding fb by blast
  have us: "log_start u = log_start s" "log_room u = log_room s" "icache u = icache s"
    using fs_restD [OF u(9)] icache_fs_more by auto
  let ?P = "p(bb := set_used (p bb) (new mod BPB), new := zero_block)" and ?L = "log_add new (log_add bb L)"
  obtain c d e f g b' where c: "updateBlkRef a (-1) u = Ok c" "b_data (bufs c b) = post a" "brelse b c = Ok d" "i_dev (icache d ip) = 1"
    "balloc 1 d = Ok (new, e)" "replaceBlk ip a new e = Ok f" "i_dev (icache f ip) = 1" "bread 1 new f = Ok (b', g)" "handle g b' new"
    "log_view g (base(r := p r)) ?P (insert new H) ?L" "log_room g = log_room s"
    "icache g = (icache s)(ip := redirect a new (icache s ip))"
    using cow_copy [OF u(6,7) a'(1,2) a, of "Suc 0" ip new] lay u(8) room' ino new
    unfolding us r_def p_def bb_def by blast
  have "new \<notin> H" using new by (simp add: first_free_def)
  moreover have "log_room g H ?L (Suc (Suc 0))" using log_room_add [OF log_room_add [OF room']] c(11) by simp
  ultimately obtain x y where x: "log_write b' (set_data b' (blit (post a) (off mod BSIZE) src) g) = Ok x" "brelse b' x = Ok y"
    "log_view y (base(r := p r)) (?P(new := blit (post a) (off mod BSIZE) src)) H (log_add new ?L)" "log_rest y = log_rest g"
    using write_held [OF c(10,9)] by metis
  have "0 < int (unat (blk_ref post a))" using ref by (simp only: of_nat_0_less_iff unat_gt_0 not_False_eq_True)
  then have "writei_block ip off src s = Ok y"
    using u(1-5) us(3) c(1-8) x(1,2) ino(1) handle_fields [OF u(7)] by (simp add: writei_block_def set_data_twice)
  then show ?thesis using x(3) icache_rest [OF x(4)] c(12) by auto
qed

section \<open>What a write changes\<close>

text \<open>The blocks on which block \<open>bn\<close> of a file depends.\<close>

definition uses :: "(nat \<Rightarrow> block) \<Rightarrow> inode \<Rightarrow> nat \<Rightarrow> nat set" where
  "uses d v bn = insert (file_block d v bn) (if bn < NDIRECT then {} else {i_addrs v ! NDIRECT})"

lemma file_byte_same:
  assumes "\<And>b. b \<in> uses d v (i div BSIZE) \<Longrightarrow> d' b = d b"
  shows "file_byte d' v i = file_byte d v i"
proof -
  have "file_block d' v (i div BSIZE) = file_block d v (i div BSIZE)"
    using assms by (simp add: file_block_def uses_def)
  then show ?thesis using assms [of "file_block d v (i div BSIZE)"] by (simp add: file_byte_def uses_def)
qed

lemma blit_byte:
  assumes "length d = BSIZE" and "off mod BSIZE + length src \<le> BSIZE" and "i div BSIZE = off div BSIZE"
  shows "blit d (off mod BSIZE) src ! (i mod BSIZE) =
    (if off \<le> i \<and> i < off + length src then src ! (i - off) else d ! (i mod BSIZE))"
proof -
  have e: "i = off div BSIZE * BSIZE + i mod BSIZE" "off = off div BSIZE * BSIZE + off mod BSIZE"
    using assms(3) by (metis div_mult_mod_eq)+
  then have "off mod BSIZE \<le> i mod BSIZE \<longleftrightarrow> off \<le> i" "i mod BSIZE < off mod BSIZE + length src \<longleftrightarrow> i < off + length src"
    "i mod BSIZE - off mod BSIZE = i - off" by linarith+
  then show ?thesis using assms(1,2) by (simp add: nth_blit)
qed

lemma not_in_range:
  assumes "off mod BSIZE + length src \<le> BSIZE" and "i div BSIZE \<noteq> off div BSIZE"
  shows "\<not> (off \<le> i \<and> i < off + length src)"
proof
  assume i: "off \<le> i \<and> i < off + length src"
  then have "off mod BSIZE + (i - off) < BSIZE" using assms(1) by linarith
  then show False using same_block(1) [of off "i - off"] i assms(2) by simp
qed

lemma redirect_block:
  assumes "length (i_addrs v) = NDIRECT + 1" and "bn < NDIRECT"
  shows "file_block d (redirect old new v) bn = (if i_addrs v ! bn = old then new else i_addrs v ! bn)"
  using assms by (simp add: file_block_def redirect_def nth_append)

lemma cow_kept:
  assumes "fs_layout d home H L" and "data_in_use d b" and "first_free d home H new"
  shows "b \<noteq> ref_block d a" and "b \<noteq> BBLOCK new (sb_ninodes (sb_of_block (d 1)))" and "b \<noteq> new"
proof -
  show "b \<noteq> ref_block d a" using ref_block_in [of d a] assms(2) unfolding data_in_use_def by metis
  have "new < sb_size (sb_of_block (d 1))" using assms(3) by (simp add: first_free_def free_set_def)
  then show "b \<noteq> BBLOCK new (sb_ninodes (sb_of_block (d 1)))" using assms(2) by (simp add: data_in_use_def data_block_def)
  show "b \<noteq> new" using assms(2,3) by (auto simp: data_in_use_def first_free_def)
qed

lemma cow_ref:
  assumes lay: "fs_layout d home H L" and new: "first_free d home H new" and a: "data_in_use d a"
  shows "blk_ref (d(ref_block d a := x, BBLOCK new (sb_ninodes (sb_of_block (d 1))) := y, new := z)) a =
    blk_ref (d(ref_block d a := x)) a"
proof -
  let ?r = "ref_block d a" and ?bb = "BBLOCK new (sb_ninodes (sb_of_block (d 1)))"
  have r: "data_block d ?r" "?r \<notin> free_set d" "?r \<noteq> 1"
    using lay ref_block_in [of d a] by (auto simp: fs_layout_def data_block_def)
  have n: "new < sb_size (sb_of_block (d 1))" "new \<noteq> ?r" "new \<noteq> 1" "?bb \<noteq> 1" "?bb \<noteq> ?r"
    using new r lay by (auto simp: first_free_def free_set_def fs_layout_def bitmap_ok_def data_block_def)
  have e: "ref_block e a = ?r" if "e 1 = d 1" for e using that by (simp add: ref_block_def)
  have "ref_block (d(?r := x, ?bb := y, new := z)) a = ?r" "ref_block (d(?r := x)) a = ?r"
    using n r(3) by (auto intro!: e)
  then show ?thesis unfolding blk_ref_def using n by simp
qed

text \<open>Both branches in one: where the data goes, what the inode becomes, what stays.\<close>

definition writable :: "'a ino_state_scheme \<Rightarrow> (nat \<Rightarrow> block) \<Rightarrow> (nat \<Rightarrow> block) \<Rightarrow> nat set \<Rightarrow> nat list \<Rightarrow> nat \<Rightarrow> nat \<Rightarrow> nat \<Rightarrow> bool" where
  "writable s base post H L ip off new \<longleftrightarrow> log_view s base post H L \<and> fs_layout post (log_start s) H L \<and> rc_cached s post \<and>
     log_room s H L 4 \<and> first_free post (log_start s) H new \<and> off div BSIZE < NDIRECT \<and>
     mapped post (log_start s) H (icache s ip) (off div BSIZE) \<and> i_dev (icache s ip) = 1 \<and>
     length (i_addrs (icache s ip)) = NDIRECT + 1 \<and> i_addrs (icache s ip) ! NDIRECT = 0 \<and>
     data_in_use post (i_addrs (icache s ip) ! (off div BSIZE))"

lemma writei_block_effect:
  assumes w: "writable s base post H L ip off new"
  defines "a \<equiv> i_addrs (icache s ip) ! (off div BSIZE)"
  shows "\<exists>t base' post' L'. writei_block ip off src s = Ok t \<and> log_view t base' post' H L' \<and>
    icache t = (icache s)(ip := if blk_ref post a = 0 then icache s ip else redirect a new (icache s ip)) \<and>
    post' (if blk_ref post a = 0 then a else new) = blit (post a) (off mod BSIZE) src \<and>
    (\<forall>b. data_in_use post b \<and> (b = a \<longrightarrow> blk_ref post a \<noteq> 0) \<longrightarrow> post' b = post b) \<and>
    (blk_ref post a \<noteq> 0 \<longrightarrow> blk_ref post' a = blk_ref post a - 1)"
proof (cases "blk_ref post a = 0")
  case True
  have lay: "fs_layout post (log_start s) H L" "data_in_use post a" and v: "log_view s base post H L" "rc_cached s post"
    "i_dev (icache s ip) = 1" "mapped post (log_start s) H (icache s ip) (off div BSIZE)" and room: "log_room s H L 2"
    using w log_room_mono [of s H L 4 2] by (simp_all add: writable_def a_def)
  have a: "file_block post (icache s ip) (off div BSIZE) = a" "a < 2 * BSIZE"
    using w lay(2) by (simp_all add: writable_def file_block_def a_def data_in_use_def)
  obtain t where "writei_block ip off src s = Ok t" "icache t = icache s"
    "log_view t base (post(a := blit (post a) (off mod BSIZE) src)) H (log_add a L)"
    using write_unshared [OF v(1,3,4) room _ v(2)] fs_layout_hold [OF lay] True a(2) unfolding a(1) by blast
  then show ?thesis
    using True by (intro exI [of _ t] exI [of _ base] exI [of _ "post(a := blit (post a) (off mod BSIZE) src)"]) auto
next
  case False
  let ?r = "ref_block post a" and ?bb = "BBLOCK new (sb_ninodes (sb_of_block (post 1)))"
  let ?p = "post(?r := bump_ref (-1) (post ?r) (a mod BSIZE))"
  let ?q = "?p(?bb := set_used (?p ?bb) (new mod BPB), new := blit (post a) (off mod BSIZE) src)"
  have lay: "fs_layout post (log_start s) H L" "first_free post (log_start s) H new" "data_in_use post a"
    and ws: "log_view s base post H L" "rc_cached s post" "mapped post (log_start s) H (icache s ip) (off div BSIZE)"
    "off div BSIZE < NDIRECT" "log_room s H L 4" "i_dev (icache s ip) = 1" "length (i_addrs (icache s ip)) = NDIRECT + 1"
    "i_addrs (icache s ip) ! NDIRECT = 0"
    using w by (simp_all add: writable_def a_def)
  obtain t L' where t: "writei_block ip off src s = Ok t" "icache t = (icache s)(ip := redirect a new (icache s ip))"
    "log_view t (base(?r := ?p ?r)) ?q H L'"
    using write_shared [OF ws(1) lay(1) ws(2-8), folded a_def, OF lay(3) False lay(2)] by blast
  have "blk_ref ?q a = blk_ref ?p a" using cow_ref [OF lay(1,2,3)] .
  also have "\<dots> = blk_ref post a - 1"
    using blk_ref_update [of post "log_start s" H L a a "-1"] lay(1,3) False
    by (simp add: fs_layout_def data_in_use_def word_gt_0)
  finally have "blk_ref ?q a = blk_ref post a - 1" .
  moreover have "?q b = post b" if "data_in_use post b" for b using cow_kept [OF lay(1) that lay(2)] by simp
  ultimately show ?thesis using t False by (intro exI [of _ t] exI [of _ "base(?r := ?p ?r)"] exI [of _ ?q] exI [of _ L']) simp
qed


text \<open>
  C7: de-duplication inside one file breaks the file. If another slot of the file holds the same shared block, as
  \<^verbatim>\<open>dedup\<close> arranges for equal blocks of one file, \<^verbatim>\<open>replaceBlk\<close> redirects both slots to the copy, and the
  bytes written to one block also appear in the other.
\<close>
theorem write_hits_duplicate:
  assumes w: "writable s base post H L ip off new" and fit: "off mod BSIZE + length src \<le> BSIZE"
    and dup: "j < NDIRECT" "i_addrs (icache s ip) ! j = i_addrs (icache s ip) ! (off div BSIZE)"
    and ref: "blk_ref post (i_addrs (icache s ip) ! (off div BSIZE)) \<noteq> 0"
  shows "\<exists>t base' post' L'. writei_block ip off src s = Ok t \<and> log_view t base' post' H L' \<and>
    map (file_byte post' (icache t ip)) [j * BSIZE + off mod BSIZE..<j * BSIZE + off mod BSIZE + length src] = src"
proof -
  let ?v = "icache s ip"
  define a where "a = i_addrs ?v ! (off div BSIZE)"
  define z where "z = j * BSIZE + off mod BSIZE"
  obtain t base' post' L' where t: "writei_block ip off src s = Ok t" "log_view t base' post' H L'"
    "icache t = (icache s)(ip := redirect a new ?v)" "post' new = blit (post a) (off mod BSIZE) src"
    using writei_block_effect [OF w, of src] ref unfolding a_def [symmetric] by auto
  have len: "length (i_addrs ?v) = NDIRECT + 1" "length (post a) = BSIZE"
    using w by (auto simp: writable_def mapped_def file_block_def a_def)
  have z: "z div BSIZE = j" "z mod BSIZE = off mod BSIZE" by (simp_all add: z_def)
  have "file_block post' (icache t ip) j = new"
    using t(3) redirect_block [OF len(1) dup(1)] dup(2) by (simp add: a_def)
  then have "post' (file_block post' (icache t ip) (z div BSIZE)) = blit (post a) (z mod BSIZE) src"
    using t(4) z by simp
  then have "map (file_byte post' (icache t ip)) [z..<z + length src] = take (length src) (drop (z mod BSIZE) (blit (post a) (z mod BSIZE) src))"
    using block_bytes [of post' "icache t ip" z "length src"] len(2) fit z(2) by simp
  also have "\<dots> = src" using take_drop_blit [of "z mod BSIZE" src "post a"] len(2) fit z(2) by simp
  finally show ?thesis using t(1,2) unfolding z_def by blast
qed

lemma writei_one_block:
  assumes "i_type (icache s ip) \<noteq> T_DEV" and "off + length src \<le> i_size (icache s ip)" and "off div BSIZE < NDIRECT"
    and fit: "off mod BSIZE + length src \<le> BSIZE" and "src \<noteq> []"
    and t: "writei_block ip off src s = Ok t" "i_size (icache t ip) = i_size (icache s ip)"
  shows "writei devsw ip src off s = Ok (int (length src), t)"
proof -
  have "off = off div BSIZE * BSIZE + off mod BSIZE" by simp
  then have o: "off + length src \<le> NDIRECT * BSIZE" using assms(3) fit by linarith
  then have r: "w32 (off + length src) = off + length src" "length src < 2147483648" by simp_all
  have "writei_loop ip off 0 src s = writei_loop ip (off + length src) (length src) src t"
    using assms(5) fit t(1) by (simp add: writei_loop.simps [of ip off 0] min_absorb1 Let_def)
  also have "\<dots> = Ok (off + length src, t)" by (simp add: writei_loop.simps)
  finally show ?thesis using assms(1,2) t(2) r o by (simp add: writei_def int_of_def)
qed

text \<open>
  C8: copy-on-write is not made permanent. A write into a shared block that does not make the file longer
  succeeds and redirects the inode in memory to the copy, but \<^verbatim>\<open>writei\<close> updates the inode on disk only when the
  file grows: on disk the inode still names the old block, although the count of that block has been dropped.
\<close>
theorem writei_forgets_copy:
  fixes s :: "'a ino_state_scheme"
  assumes w: "writable s base post H L ip off new" and fit: "off mod BSIZE + length src \<le> BSIZE" "src \<noteq> []"
    and ino: "i_type (icache s ip) \<noteq> T_DEV" "off + length src \<le> i_size (icache s ip)"
  defines "a \<equiv> i_addrs (icache s ip) ! (off div BSIZE)"
    and "saved \<equiv> \<lambda>d. di_addrs (get_dinode (d (IBLOCK (i_inum (icache s ip)))) (i_inum (icache s ip) mod IPB))"
  assumes ref: "blk_ref post a \<noteq> 0" and ib: "data_in_use post (IBLOCK (i_inum (icache s ip)))"
    and same: "saved post = i_addrs (icache s ip)"
  shows "\<exists>t base' post' L'. writei devsw ip src off s = Ok (int (length src), t) \<and> log_view t base' post' H L' \<and>
    i_addrs (icache t ip) ! (off div BSIZE) = new \<and> new \<noteq> a \<and> saved post' ! (off div BSIZE) = a \<and>
    blk_ref post' a = blk_ref post a - 1"
proof -
  obtain t base' post' L' where t: "writei_block ip off src s = Ok t" "log_view t base' post' H L'"
    "icache t = (icache s)(ip := redirect a new (icache s ip))" "blk_ref post' a = blk_ref post a - 1"
    "post' (IBLOCK (i_inum (icache s ip))) = post (IBLOCK (i_inum (icache s ip)))"
    using writei_block_effect [OF w, of src] ref ib unfolding a_def [symmetric] by auto
  have d: "off div BSIZE < NDIRECT" "length (i_addrs (icache s ip)) = NDIRECT + 1" "a \<noteq> new"
    using w by (auto simp: writable_def a_def data_in_use_def first_free_def)
  have "writei devsw ip src off s = Ok (int (length src), t)"
    by (rule writei_one_block [OF ino d(1) fit t(1)]) (simp add: t(3) redirect_def)
  moreover have "i_addrs (icache t ip) ! (off div BSIZE) = new"
    using redirect_block [OF d(2,1), of post a new] t(3) d(1) by (simp add: file_block_def a_def)
  moreover have "saved post' ! (off div BSIZE) = a" using same t(5) by (simp add: saved_def a_def)
  ultimately show ?thesis using t(2,4) d(3) [symmetric] by blast
qed

section \<open>Examples\<close>

text \<open>An inode with given blocks, and a disk with three data blocks, two of them equal, of which block 100 is shared, and the inode of a file with this block.\<close>

definition sample_inode :: "nat list \<Rightarrow> nat \<Rightarrow> inode" where
  "sample_inode as n = \<lparr>i_dev = 1, i_inum = 1, i_ref = 1, i_busy = True, i_valid = True, i_type = T_FILE, i_major = 0, i_minor = 0,
     i_nlink = 1, i_size = n, i_addrs = as @ replicate (NDIRECT + 1 - length as) 0\<rparr>"

definition sample_disk :: "nat \<Rightarrow> block" where
  "sample_disk = (disk_used 200)(2 := put_dinode zero_block 1 (sample_inode [100] 512), 29 := zero_block[100 := 1],
     100 := replicate BSIZE 65, 101 := replicate BSIZE 66, 102 := replicate BSIZE 65)"

lemma example_idle:
  assumes "log_super d 1016 10 1026" and "log_image d 1016 []"
  shows "\<exists>s :: dd_state. log_view s d d {} [] \<and> \<not> log_busy s \<and> log_start s = 1016 \<and> log_size s = 10 \<and>
    refCount1 s = 0 \<and> icache s = c"
proof -
  let ?r = "undefined\<lparr>refCount1 := 0, icache := c\<rparr> :: dd_state"
  obtain s :: dd_state where s: "log_view s d d {} []" "log_start s = 1016" "log_size s = 10" "\<not> log_busy s"
    "log_state.more s = log_state.more ?r"
    using boot_view [OF assms, of "log_state.more ?r"] by auto
  then have "refCount1 s = 0" "icache s = c" using fs_fields_more [of s ?r] icache_fs_more [of s ?r] by simp_all
  then show ?thesis using s by blast
qed

lemma example_ino:
  assumes "log_super d 1016 10 1026" and "log_image d 1016 []"
  shows "\<exists>s :: dd_state. log_view s d d {} [] \<and> log_busy s \<and> log_start s = 1016 \<and> log_size s = 10 \<and>
    refCount1 s = 0 \<and> icache s = c"
proof -
  obtain s :: dd_state where s: "log_view s d d {} []" "\<not> log_busy s" "log_start s = 1016" "log_size s = 10"
    "refCount1 s = 0" "icache s = c"
    using example_idle [OF assms] by blast
  obtain t where t: "log_view t d d {} []" "log_busy t" "log_start t = 1016" "log_size t = 10"
    "log_state.more t = log_state.more s"
    using log_view_begin [OF s(1,2)] s by auto
  have "refCount1 t = 0" "icache t = c" using fs_fields_more [OF t(5)] icache_fs_more [of t s] s(5,6) by simp_all
  then show ?thesis using t by blast
qed

lemma sample_disk_facts:
  shows "log_super sample_disk 1016 10 1026" and "log_image sample_disk 1016 []" and "fs_layout sample_disk 1016 {} []"
    and "free_set sample_disk = {200..<1026}" and "x \<noteq> 1 \<Longrightarrow> x \<noteq> 28 \<Longrightarrow> data_block sample_disk x"
    and "ref_blocks sample_disk = {29, 30}" and "blk_ref sample_disk 100 = 1"
proof -
  let ?d = "disk_used 200"
  have 1: "sample_disk 1 = ?d 1" by (simp add: sample_disk_def)
  note sb = disk_used_sb [of 200]
  show "log_super sample_disk 1016 10 1026" by (simp only: log_super_def 1 sb) simp
  show "log_image sample_disk 1016 []"
    using disk_used_facts(5) [of 200] by (simp add: log_image_def sample_disk_def)
  have db: "data_block ?d x" if "x \<noteq> 1" "x \<noteq> 28" for x using disk_used_facts(6) [of 200 x] that by simp
  show db': "data_block sample_disk x" if "x \<noteq> 1" "x \<noteq> 28" for x
    using db [OF that] unfolding data_block_def 1 .
  have iu: "in_use sample_disk b = in_use ?d b" if "b < 1026" for b
    using that unfolding in_use_def 1 sb by (simp add: BBLOCK_disk_used sample_disk_def)
  then show fr: "free_set sample_disk = {200..<1026}"
    using disk_used_facts(1) [of 200] unfolding free_set_def 1 sb by auto
  show rb: "ref_blocks sample_disk = {29, 30}" unfolding ref_blocks_def 1 sb by simp
  show "blk_ref sample_disk 100 = 1" unfolding blk_ref_def ref_block_def 1 sb by (simp add: sample_disk_def)
  have "map_ok sample_disk 1016 {}" using disk_used_facts(3) [of 200] unfolding map_ok_def 1 by simp
  moreover have "bitmap_ok sample_disk"
    using disk_used_facts(2) [of 200] unfolding bitmap_ok_def 1 sb by (simp add: BBLOCK_disk_used sample_disk_def)
  moreover have "ref_ok sample_disk 1016 {} []"
    using disk_used_facts(7) [of 200] unfolding ref_ok_def 1 sb by (simp add: sample_disk_def)
  ultimately show "fs_layout sample_disk 1016 {} []" unfolding fs_layout_def rb fr using db' by simp
qed

lemma sample_writable:
  assumes c: "c 0 = sample_inode (100 # as) n" and "off < BSIZE" and "length as \<le> 11"
  obtains s :: dd_state where "writable s sample_disk sample_disk {} [] 0 off 200" and "icache s = c"
proof -
  note ex = sample_disk_facts
  obtain s :: dd_state where s: "log_view s sample_disk sample_disk {} []" "log_busy s" "log_start s = 1016"
    "log_size s = 10" "refCount1 s = 0" "icache s = c"
    using example_ino [OF ex(1,2)] by blast
  have a: "i_addrs (c 0) ! 0 = 100" "length (i_addrs (c 0)) = NDIRECT + 1" "i_addrs (c 0) ! NDIRECT = 0" "i_dev (c 0) = 1"
    using c assms(3) by (simp_all add: sample_inode_def nth_Cons' nth_append)
  have d: "off div BSIZE = 0" using assms(2) by simp
  have "data_in_use sample_disk 100" unfolding data_in_use_def ex(4,6) using ex(5) by simp
  moreover have "first_free sample_disk 1016 {} 200" unfolding first_free_def ex(4) using ex(5) by simp
  moreover have "mapped sample_disk 1016 {} (c 0) 0"
    using a(1) by (simp add: mapped_def readable_def file_block_def) (simp add: sample_disk_def)
  moreover have "rc_cached s sample_disk" "log_room s {} [] 4" using s by (simp_all add: rc_cached_def log_room_def log_limit_def)
  ultimately have "writable s sample_disk sample_disk {} [] 0 off 200"
    unfolding writable_def d s(6) s(3) a(1) using s(1) ex(3) a by simp
  then show thesis using s(6) by (rule that)
qed

lemma sample_inode_fields [simp]:
  "i_dev (sample_inode as n) = 1" "i_inum (sample_inode as n) = 1" "i_type (sample_inode as n) = T_FILE"
  "i_size (sample_inode as n) = n" "i_addrs (sample_inode as n) = as @ replicate (NDIRECT + 1 - length as) 0"
  by (simp_all add: sample_inode_def)

lemma sample_saved:
  "di_addrs (get_dinode (sample_disk 2) 1) = i_addrs (sample_inode [100] 512)"
proof -
  have "get32 (sample_disk 2) (64 * 1 + 12 + 4 * i) = i_addrs (sample_inode [100] 512) ! i" if "i < 13" for i
    unfolding sample_disk_def put_dinode_def Let_def using that
    by (simp add: get32_put_addrs nth_Cons' nth_append)
  then show ?thesis by (intro nth_equalityI) (simp_all add: get_dinode_def)
qed

theorem readi_correct_witness:
  "\<exists>(s :: dd_state) t. icache s 0 = sample_inode [100, 101] 600 \<and>
     readi (\<lambda>_. None) 0 510 4 s = Ok ((4, [65, 65, 66, 66]), t) \<and> readi (\<lambda>_. None) 0 601 1 s = Ok ((-1, []), s)"
proof -
  let ?v = "sample_inode [100, 101] 600"
  obtain s :: dd_state where s: "log_view s sample_disk sample_disk {} []" "log_start s = 1016" "icache s = (\<lambda>_. ?v)"
    using example_ino [OF sample_disk_facts(1,2)] by blast
  have m: "mapped sample_disk (log_start s) {} (icache s 0) bn" if "bn * BSIZE < i_size (icache s 0)" for bn
  proof -
    have "bn = 0 \<or> bn = 1" using that s(3) by auto
    then show ?thesis using s(2,3) by (auto simp: mapped_def readable_def file_block_def sample_disk_def)
  qed
  have v: "i_type (icache s 0) \<noteq> T_DEV" "i_dev (icache s 0) = 1" "i_size (icache s 0) = 600" using s(3) by simp_all
  note r = readi_correct [OF s(1) v(1,2) m, where devsw = "\<lambda>_. None"]
  have "map (file_byte sample_disk ?v) [510..<510 + 4] = [65, 65, 66, 66]"
    by (simp add: upt_rec file_byte_def file_block_def sample_disk_def)
  then have "\<exists>t. readi (\<lambda>_. None) 0 510 4 s = Ok ((4, [65, 65, 66, 66]), t)"
    using r [of 510 4] v(3) s(3) by auto
  moreover have "readi (\<lambda>_. None) 0 601 1 s = Ok ((-1, []), s)" using r [of 601 1] v(3) by simp
  ultimately show ?thesis using s(3) by - (rule exI [of _ s], auto)
qed


theorem write_hits_duplicate_witness:
  "\<exists>(s :: dd_state) t base' post' L'. icache s 0 = sample_inode [100, 100] 1024 \<and> writei_block 0 3 [7] s = Ok t \<and>
     log_view t base' post' {} L' \<and> file_byte post' (icache t 0) 515 = 7"
proof -
  let ?v = "sample_inode [100, 100] 1024"
  obtain s :: dd_state where s: "writable s sample_disk sample_disk {} [] 0 3 200" "icache s = (\<lambda>_. ?v)"
    using sample_writable [of "\<lambda>_. ?v" "[100]" 1024 3] by auto
  have "\<exists>t base' post' L'. writei_block 0 3 [7] s = Ok t \<and> log_view t base' post' {} L' \<and>
    map (file_byte post' (icache t 0)) [1 * BSIZE + 3 mod BSIZE..<1 * BSIZE + 3 mod BSIZE + length [7 :: u8]] = [7]"
    by (rule write_hits_duplicate [OF s(1)]) (use s(2) sample_disk_facts(7) in simp_all)
  then show ?thesis using s(2) by - (rule exI [of _ s], simp add: upt_rec)
qed

theorem writei_forgets_copy_witness:
  "\<exists>(s :: dd_state) t base' post' L'. icache s 0 = sample_inode [100] 512 \<and> writei (\<lambda>_. None) 0 [7] 3 s = Ok (1, t) \<and>
     log_view t base' post' {} L' \<and> i_addrs (icache t 0) ! 0 = 200 \<and> di_addrs (get_dinode (post' 2) 1) ! 0 = 100 \<and> blk_ref post' 100 = 0"
proof -
  let ?v = "sample_inode [100] 512"
  obtain s :: dd_state where s: "writable s sample_disk sample_disk {} [] 0 3 200" "icache s = (\<lambda>_. ?v)"
    using sample_writable [of "\<lambda>_. ?v" "[]" 512 3] by auto
  have ib: "IBLOCK 1 = 2" by (simp add: IBLOCK_def)
  have "data_in_use sample_disk 2" unfolding data_in_use_def sample_disk_facts(4,6) using sample_disk_facts(5) by simp
  then have "\<exists>t base' post' L'. writei (\<lambda>_. None) 0 [7] 3 s = Ok (1, t) \<and> log_view t base' post' {} L' \<and>
    i_addrs (icache t 0) ! 0 = 200 \<and> di_addrs (get_dinode (post' 2) 1) ! 0 = 100 \<and> blk_ref post' 100 = 0"
    using writei_forgets_copy [OF s(1), of "[7]" "\<lambda>_. None"] s(2) sample_disk_facts(7) sample_saved by (simp add: ib)
  then show ?thesis using s(2) by - (rule exI [of _ s], simp)
qed

end
