(* ===== verification/Xv6_Dedup_Props.thy ===== *)
theory Xv6_Dedup_Props
  imports Xv6_Content
begin

text \<open>
  De-duplication keeps the contents of files: redirecting a slot of a file from one block to an equal
  one, with the counts and the free map adjusted, changes what no file contains.
\<close>

lemma log_view_dd_upd [simp]:
  "log_view (s\<lparr>directChanged := x\<rparr>) = log_view s" "handle (s\<lparr>directChanged := x\<rparr>) = handle s"
  "log_room (s\<lparr>directChanged := x\<rparr>) = log_room s" "rc_cached (s\<lparr>directChanged := x\<rparr>) = rc_cached s"
  by (intro ext; simp add: log_view_def log_rel_def bio_rel_def log_mem_def log_disk_def
      handle_def log_room_def log_limit_def rc_cached_def)+

lemma log_view_nil: "log_view s base post H [] \<Longrightarrow> base = post"
  by (auto simp: log_view_def log_rel_def log_disk_def)

lemma blkcmp_eq: "length d1 = BSIZE \<Longrightarrow> length d2 = BSIZE \<Longrightarrow> blkcmp d1 d2 \<longleftrightarrow> d1 = d2"
  by (auto simp: blkcmp_def list_all_iff intro: nth_equalityI)

section \<open>Counts and the free map\<close>

text \<open>What the last use of a block, or one of several, leaves behind when it is given up.\<close>

definition dropped :: "(nat \<Rightarrow> block) \<Rightarrow> nat \<Rightarrow> (nat \<Rightarrow> block) \<Rightarrow> bool" where
  "dropped d a e \<longleftrightarrow> (if blk_ref d a = 0 then free_set e = insert a (free_set d)
     else blk_ref e a = blk_ref d a - 1 \<and> free_set e = free_set d)"

lemma drop_shared:
  assumes v: "log_view s post post H []" and lay: "fs_layout post (log_start s) H []" and rc: "rc_cached s post"
    and a: "data_in_use post a" and room: "card H < NBUF" and ref: "blk_ref post a \<noteq> 0"
  shows "\<exists>t post'. updateBlkRef a (-1) s = Ok t \<and> log_view t post' post' H [] \<and> keeps_handles s t \<and> fs_rest t = fs_rest s \<and>
    dropped post a post' \<and> (\<forall>b. b < 2 * BSIZE \<longrightarrow> b \<noteq> a \<longrightarrow> blk_ref post' b = blk_ref post b) \<and>
    (\<forall>b. data_in_use post b \<longrightarrow> post' b = post b)"
proof -
  let ?r = "ref_block post a"
  let ?p = "post(?r := bump_ref (-1) (post ?r) (a mod BSIZE))"
  have r: "data_block post ?r" using lay ref_block_in [of post a] by (auto simp: fs_layout_def)
  have ok: "ref_ok post (log_start s) H []" "log_room s H [] 0" "a < 2 * BSIZE"
    using lay room a by (simp_all add: fs_layout_def log_room_def data_in_use_def)
  obtain t where t: "updateBlkRef a (-1) s = Ok t" "log_view t ?p ?p H []" "keeps_handles s t" "fs_rest t = fs_rest s"
    using updateBlkRef_law [OF v ok(1,2) rc ok(3), where flag = "-1"] by blast
  note upd = blk_ref_update [OF ok(1,3), where flag = "-1"]
  have "dropped post a ?p"
    using upd [of a] ok(3) ref upd_data_block(2) [OF r] by (simp add: dropped_def word_gt_0)
  moreover have "?p b = post b" if "data_in_use post b" for b
    using that ref_block_in [of post a] by (auto simp: data_in_use_def)
  moreover have "blk_ref ?p b = blk_ref post b" if "b < 2 * BSIZE" "b \<noteq> a" for b using upd [OF that(1)] that(2) by simp
  ultimately show ?thesis using t by blast
qed

lemma drop_last:
  assumes v: "log_view s post post H []" and lay: "fs_layout post (log_start s) H []"
    and a: "data_in_use post a" "a < sb_size (sb_of_block (post 1))" and room: "card H + 1 < NBUF"
    and idle: "\<not> log_busy s" "2 \<le> log_size s" and ref: "blk_ref post a = 0"
  shows "\<exists>t u w post'. begin_trans s = Ok t \<and> keeps_handles s t \<and> bfree 1 a t = Ok u \<and> commit_trans u = Ok w \<and>
    log_view w post' post' H [] \<and> keeps_handles s w \<and> fs_rest w = fs_rest s \<and>
    dropped post a post' \<and> (\<forall>b. b < 2 * BSIZE \<longrightarrow> blk_ref post' b = blk_ref post b) \<and>
    (\<forall>b. data_in_use post b \<longrightarrow> post' b = post b)"
proof -
  let ?bb = "BBLOCK a (sb_ninodes (sb_of_block (post 1)))"
  let ?p = "post(?bb := clear_used (post ?bb) (a mod BPB))"
  obtain t where t: "begin_trans s = Ok t" "log_view t post post H []" "log_busy t" "log_start t = log_start s"
    "log_size t = log_size s" "disksize t = disksize s" "log_state.more t = log_state.more s"
    using log_view_begin [OF v idle(1)] by blast
  have kt: "keeps_handles s t" using t(1) idle(1) by (auto simp: begin_trans_def keeps_handles_def handle_def)
  have u: "map_ok post (log_start t) H" "bitmap_ok post" "log_room t H [] (Suc 0)" "in_use post a"
    using lay room idle(2) t(3-5) a by (auto simp: fs_layout_def log_room_def log_limit_def data_in_use_def free_set_def)
  obtain u where u': "bfree 1 a t = Ok u" "log_view u post ?p H (log_add ?bb [])" "keeps_handles t u" "log_rest u = log_rest t"
    using bfree_law(1) [OF t(2) u(1,3) a(2) u(4)] by blast
  have bb: "?bb \<notin> H" "?bb \<noteq> 1" using u(1,2) a(2) by (simp_all add: map_ok_def bitmap_ok_def)
  have "card (H \<union> set (log_add ?bb [])) < NBUF"
    using room card_insert_le_Suc [of ?bb H] by simp
  then obtain w where w: "commit_trans u = Ok w" "log_view w ?p ?p H []" "keeps_handles u w"
    "log_rest w = log_rest (u\<lparr>log_busy := False\<rparr>)"
    using log_view_commit [OF u'(2)] bb by auto
  have "log_state.more w = log_state.more s" "fs_rest w = fs_rest s"
    using w(4) u'(4) t(4-7) idle(1) fs_fields_more [of w s] by (simp_all add: log_rest_def fs_rest_def)
  moreover have "dropped post a ?p" using ref free_set_clear [OF u(2) a(2)] by (simp add: dropped_def)
  moreover have "?p b = post b" if "data_in_use post b" for b
    using that a(2) by (auto simp: data_in_use_def data_block_def)
  moreover have "blk_ref ?p b = blk_ref post b" if "b < 2 * BSIZE" for b
  proof -
    have "ref_block post b \<noteq> ?bb" using lay ref_block_in [of post b] a(2) by (auto simp: fs_layout_def data_block_def)
    then show ?thesis using bb(2) by (auto simp: blk_ref_def ref_block_def split: if_splits)
  qed
  moreover have "keeps_handles s w" using kt u'(3) w(3) by (simp add: keeps_handles_def)
  ultimately show ?thesis using t(1) kt u'(1) w(1,2) by blast
qed

lemma fs_layout_bump:
  fixes f :: int and i :: nat
  assumes lay: "fs_layout d home H L" and r: "r \<in> ref_blocks d"
  defines "e \<equiv> d(r := bump_ref f (d r) i)"
  shows "fs_layout e home H L" and "data_in_use e = data_in_use d" and "free_set e = free_set d" and "e 1 = d 1"
    and "data_in_use d b \<Longrightarrow> e b = d b"
proof -
  have db: "data_block d r" using lay r by (simp add: fs_layout_def)
  note u = upd_data_block [OF db, of "bump_ref f (d r) i", folded e_def]
  show 1: "e 1 = d 1" using db by (simp add: e_def data_block_def)
  have "ref_ok e home H L"
    using lay unfolding ref_ok_def fs_layout_def 1 by (auto simp: e_def bump_ref_def)
  then show "fs_layout e home H L" using lay by (simp add: fs_layout_def u)
  show "data_in_use e = data_in_use d" by (intro ext) (simp add: data_in_use_def u)
  show "free_set e = free_set d" by (rule u(2))
  show "e b = d b" if "data_in_use d b" using that r by (auto simp: e_def data_in_use_def)
qed

section \<open>One redirection\<close>

text \<open>The counts that make room for one more use of \<open>a2\<close> and give up one use of \<open>a1\<close>.\<close>

definition moved :: "(nat \<Rightarrow> block) \<Rightarrow> nat \<Rightarrow> nat \<Rightarrow> (nat \<Rightarrow> block) \<Rightarrow> bool" where
  "moved d a1 a2 e \<longleftrightarrow> blk_ref e a2 = blk_ref d a2 + 1 \<and> dropped d a1 e \<and> (\<forall>b. data_in_use d b \<longrightarrow> e b = d b)"

lemma deletedups_law:
  fixes s :: "'a dd_state_scheme"
  assumes v: "log_view s post post H []" and lay: "fs_layout post (log_start s) H []" and rc: "rc_cached s post"
    and h: "handle s b1 a1" "handle s b2 a2" and a: "data_in_use post a1" "data_in_use post a2" "a1 \<noteq> a2"
    and a1: "a1 < sb_size (sb_of_block (post 1))" and room: "card H + 1 < NBUF" and idle: "\<not> log_busy s" "2 \<le> log_size s"
    and sl: "slot ip2 b i2 s = a2"
  shows "\<exists>t post'. deletedups ip1 ip2 b1 b2 i1 i2 None b s = Ok t \<and> log_view t post' post' H [] \<and> moved post a1 a2 post' \<and>
    handle t b1 a1 \<and> handle t b2 a2 \<and>
    icache t = (icache s)(ip1 := (icache s ip1)\<lparr>i_addrs := (i_addrs (icache s ip1))[i1 := a2]\<rparr>)"
proof -
  let ?s = "(set_addr ip1 i1 a2 s)\<lparr>directChanged := True\<rparr>" and ?r = "ref_block post a2"
  define p where "p = post(?r := bump_ref 1 (post ?r) (a2 mod BSIZE))"
  have s: "log_view ?s post post H []" "rc_cached ?s post" "log_start ?s = log_start s" "handle ?s = handle s"
    "bufs ?s = bufs s" "log_busy ?s = log_busy s" "log_size ?s = log_size s"
    using v rc by (simp_all add: set_addr_def) (simp_all add: set_inode_def)
  have ok: "ref_ok post (log_start ?s) H []" "log_room ?s H [] 0" "a2 < 2 * BSIZE" "a1 < 2 * BSIZE"
    using lay room a s(3) by (simp_all add: fs_layout_def log_room_def data_in_use_def)
  obtain t where t: "updateBlkRef a2 1 ?s = Ok t" "log_view t p p H []" "keeps_handles ?s t" "fs_rest t = fs_rest ?s" "rc_cached t p"
    using updateBlkRef_law [OF s(1) ok(1,2) s(2) ok(3), where flag = 1] unfolding p_def by blast
  note ref = blk_ref_update [OF ok(1,3), where flag = 1, folded p_def]
  note lp = fs_layout_bump [OF lay ref_block_in [of post a2], where f = 1 and i = "a2 mod BSIZE", folded p_def]
  have ts: "log_start t = log_start s" "log_busy t = log_busy s" "log_size t = log_size s" "icache t = icache ?s"
    using fs_restD [OF t(4)] s(3,6,7) icache_fs_more [of t ?s] by simp_all
  obtain g where g: "getBlkRef a1 t = Ok (int (unat (blk_ref p a1)), g)" "log_view g p p H []" "keeps_handles t g"
    "fs_rest g = fs_rest t" "rc_cached g p"
    using getBlkRef_law [OF t(2) _ _ t(5), of "[]" 0 a1] lp(1) room ok(4) ts(1) by (auto simp: fs_layout_def log_room_def)
  have gs: "log_start g = log_start s" "log_busy g = log_busy s" "log_size g = log_size s" "icache g = icache ?s"
    using fs_restD [OF g(4)] ts icache_fs_more [of g t] by simp_all
  have hg: "handle t b1 a1" "handle t b2 a2" "handle g b1 a1" "handle g b2 a2"
    using h t(3) g(3) s(4) by (simp_all add: keeps_handles_def)
  have p1: "blk_ref p a1 = blk_ref post a1" "blk_ref p a2 = blk_ref post a2 + 1"
    using ref [OF ok(4)] ref [OF ok(3)] a(3) by simp_all
  have lg: "fs_layout p (log_start g) H []" "data_in_use p a1" "a1 < sb_size (sb_of_block (p 1))"
    using lp a a1 gs(1) by simp_all
  have fin: "moved post a1 a2 e" if "dropped p a1 e" "blk_ref e a2 = blk_ref p a2" "\<forall>b. data_in_use p b \<longrightarrow> e b = p b" for e
    using that lp p1 by (simp add: moved_def dropped_def)
  have e1: "b_sector (bufs ?s b2) = a2" "b_sector (bufs t b1) = a1" "b_sector (bufs g b1) = a1"
    using handle_fields [OF h(2)] handle_fields [OF hg(1)] handle_fields [OF hg(3)] s(5) by simp_all
  have pos: "0 < uint w \<longleftrightarrow> uint w \<noteq> 0" for w :: u8 using uint_ge_0 [of w] by linarith
  have e2: "deletedups ip1 ip2 b1 b2 i1 i2 None b s = (if 0 < int (unat (blk_ref p a1)) then updateBlkRef a1 (-1) g
      else andthen (begin_trans g) (\<lambda>s. andthen (bfree (b_dev (bufs s b1)) (b_sector (bufs s b1)) s) commit_trans))"
    using t(1) g(1) e1 sl by (simp add: deletedups_def pos)
  show ?thesis
  proof (cases "blk_ref p a1 = 0")
    case True
    then obtain u w x e where u: "begin_trans g = Ok u" "keeps_handles g u" "bfree 1 a1 u = Ok w" "commit_trans w = Ok x"
      "log_view x e e H []" "keeps_handles g x" "fs_rest x = fs_rest g" "dropped p a1 e" "blk_ref e a2 = blk_ref p a2"
      "\<forall>b. data_in_use p b \<longrightarrow> e b = p b"
      using drop_last [OF g(2) lg room] idle gs(2,3) ok(3) by auto
    have "handle u b1 a1" using u(2) hg(3) by (simp add: keeps_handles_def)
    then have "deletedups ip1 ip2 b1 b2 i1 i2 None b s = Ok x"
      using e2 True u(1,3,4) handle_fields [of u b1 a1] by simp
    then show ?thesis
      using fin [OF u(8-10)] u(5,6) hg(3,4) icache_fs_more [OF fs_restD(5) [OF u(7)]] gs(4)
      by (auto simp: keeps_handles_def set_addr_def)
  next
    case False
    then obtain x e where x: "updateBlkRef a1 (-1) g = Ok x" "log_view x e e H []" "keeps_handles g x" "fs_rest x = fs_rest g"
      "dropped p a1 e" "blk_ref e a2 = blk_ref p a2" "\<forall>b. data_in_use p b \<longrightarrow> e b = p b"
      using drop_shared [OF g(2) lg(1) g(5) lg(2)] room ok(3) a(3) by auto
    have "0 < int (unat (blk_ref p a1))" using False by (simp only: of_nat_0_less_iff unat_gt_0 not_False_eq_True)
    then have "deletedups ip1 ip2 b1 b2 i1 i2 None b s = Ok x" using e2 x(1) by (simp only: if_True)
    then show ?thesis
      using fin [OF x(5-7)] x(2,3) hg(3,4) icache_fs_more [OF fs_restD(5) [OF x(4)]] gs(4)
      by (auto simp: keeps_handles_def set_addr_def)
  qed
qed

lemma fs_layout_insert:
  assumes "fs_layout d home H L" and "data_in_use d a"
  shows "fs_layout d home (insert a H) L"
proof -
  have "map_ok d home (insert a H)"
    using assms by (auto simp: fs_layout_def data_in_use_def map_ok_def data_block_def)
  then show ?thesis using assms(1) fs_layout_hold [OF assms] by (simp add: fs_layout_def)
qed

lemma redirect_slot_byte:
  assumes "i1 < NDIRECT" and "length (i_addrs v) = NDIRECT + 1" and eq: "d (i_addrs v ! i1) = d a2"
    and same: "\<And>b. b \<in> insert a2 (uses d v (i div BSIZE)) \<Longrightarrow> e b = d b"
  shows "file_byte e (v\<lparr>i_addrs := (i_addrs v)[i1 := a2]\<rparr>) i = file_byte d v i"
proof (cases "i div BSIZE = i1")
  case True
  then have "file_block e (v\<lparr>i_addrs := (i_addrs v)[i1 := a2]\<rparr>) (i div BSIZE) = a2" "file_block d v (i div BSIZE) = i_addrs v ! i1"
    using assms(1,2) by (simp_all add: file_block_def)
  then show ?thesis using same [of a2] eq by (simp add: file_byte_def)
next
  case False
  have "uses d v (i div BSIZE) \<subseteq> insert a2 (uses d v (i div BSIZE))" by blast
  then have "file_block e (v\<lparr>i_addrs := (i_addrs v)[i1 := a2]\<rparr>) (i div BSIZE) = file_block d v (i div BSIZE)"
    using False same assms(1) by (simp add: file_block_def uses_def)
  then show ?thesis using same [of "file_block d v (i div BSIZE)"] by (simp add: file_byte_def uses_def)
qed

lemma slot_kept:
  fixes s t :: "'a dd_state_scheme"
  assumes "log_view s post post H L" and "log_view t post post H' L" and "icache t = icache s" and "keeps_handles s t"
    and "\<And>bp. b = Some bp \<Longrightarrow> \<exists>x. handle s bp x"
  shows "slot ip b i t = slot ip b i s"
proof (cases b)
  case (Some bp)
  then obtain x where x: "handle s bp x" using assms(5) by blast
  then have "handle t bp x" using assms(4) by (simp add: keeps_handles_def)
  then show ?thesis using Some log_view_data(1) [OF assms(1) x] log_view_data(1) [OF assms(2)] by (simp add: slot_def)
qed (simp add: slot_def assms(3))



end
