(* ===== verification/Xv6_Fifo_Spec.thy ===== *)
theory Xv6_Fifo_Spec
  imports Xv6_Prelude
begin

text \<open>
  The contract of a bounded byte queue in memory: \<open>elems q\<close> is its abstract contents,
  \<open>push\<close> appends a byte while there is room, \<open>pop\<close> takes the oldest one. The client's
  view is a run of pushes and pops in any order.
\<close>

datatype fifo_op = Push u8 | Pop

locale fifo =
  fixes inv :: "'q \<Rightarrow> bool"
    and elems :: "'q \<Rightarrow> u8 list"
    and push :: "u8 \<Rightarrow> 'q \<Rightarrow> 'q"
    and pop :: "'q \<Rightarrow> u8 \<times> 'q"
    and cap :: nat
  assumes push_inv: "inv q \<Longrightarrow> length (elems q) < cap \<Longrightarrow> inv (push c q)"
    and push_elems: "inv q \<Longrightarrow> length (elems q) < cap \<Longrightarrow> elems (push c q) = elems q @ [c]"
    and pop_inv: "inv q \<Longrightarrow> elems q \<noteq> [] \<Longrightarrow> inv (snd (pop q))"
    and pop_elems: "inv q \<Longrightarrow> elems q \<noteq> [] \<Longrightarrow> elems q = fst (pop q) # elems (snd (pop q))"
begin

text \<open>One operation; a push on a full queue and a pop on an empty one do not happen.\<close>

fun step :: "fifo_op \<Rightarrow> 'q \<times> u8 list \<times> u8 list \<Rightarrow> 'q \<times> u8 list \<times> u8 list" where
  "step (Push c) (q, ins, outs) =
     (if length (elems q) < cap then (push c q, ins @ [c], outs) else (q, ins, outs))"
| "step Pop (q, ins, outs) =
     (if elems q \<noteq> [] then (snd (pop q), ins, outs @ [fst (pop q)]) else (q, ins, outs))"

definition run :: "fifo_op list \<Rightarrow> 'q \<Rightarrow> 'q \<times> u8 list \<times> u8 list" where
  "run ops q = fold step ops (q, [], [])"

lemma step_inv:
  assumes "inv q" and "base @ ins = outs @ elems q" and "step op (q, ins, outs) = (q', ins', outs')"
  shows "inv q' \<and> base @ ins' = outs' @ elems q'"
proof (cases op)
  case (Push c)
  then show ?thesis
    using assms push_inv [OF assms(1), of c] push_elems [OF assms(1), of c] by (auto split: if_splits)
next
  case Pop
  then show ?thesis
    using assms pop_inv [OF assms(1)] pop_elems [OF assms(1)] by (auto split: if_splits)
qed

lemma fold_order:
  assumes "inv q" and "base @ ins = outs @ elems q"
    and "fold step ops (q, ins, outs) = (q', ins', outs')"
  shows "inv q' \<and> base @ ins' = outs' @ elems q'"
  using assms
proof (induction ops arbitrary: q ins outs)
  case Nil
  then show ?case by simp
next
  case (Cons op ops)
  obtain q1 i1 o1 where s: "step op (q, ins, outs) = (q1, i1, o1)"
    by (cases "step op (q, ins, outs)") auto
  have keep: "inv q1 \<and> base @ i1 = o1 @ elems q1" by (rule step_inv [OF Cons.prems(1,2) s])
  have "fold step ops (q1, i1, o1) = (q', ins', outs')" using Cons.prems(3) by (simp add: s)
  then show ?case by (rule Cons.IH [OF conjunct1 [OF keep] conjunct2 [OF keep]])
qed

text \<open>Whatever the interleaving, the bytes come out in the order they went in.\<close>

lemma run_order:
  assumes "inv q" and "run ops q = (q', ins, outs)"
  shows "inv q' \<and> elems q @ ins = outs @ elems q'"
  by (rule fold_order [OF assms(1) _ assms(2) [unfolded run_def]]) simp

end

end
