(* ===== verification/Xv6_Pipe.thy ===== *)
theory Xv6_Pipe
  imports Xv6_Fifo_Spec
begin

text \<open>
  Pipes (pipe.c): a ring of PIPESIZE bytes with two counters that only grow, modulo
  \<open>2 ^ 32\<close>. A call that has to sleep returns to the scheduler with the lock released and goes
  on where it stopped when it is woken, so its model returns where it stopped.
\<close>

abbreviation PIPESIZE :: nat where "PIPESIZE \<equiv> 512"

section \<open>Data\<close>

text \<open>The channels processes sleep on; \<open>p_woken\<close> is the sequence of \<^verbatim>\<open>wakeup\<close> calls made.\<close>

datatype pipe_chan = Chan_nread | Chan_nwrite

record pipe =
  p_data :: "u8 list"
  p_nread :: nat
  p_nwrite :: nat
  p_readopen :: bool
  p_writeopen :: bool
  p_woken :: "pipe_chan list"

text \<open>A call is done with its result, or sleeps having handled \<open>i\<close> bytes.\<close>

datatype 'r pipe_call = Done 'r | Sleeping nat

section \<open>Operations\<close>

definition pipe_wakeup :: "pipe_chan \<Rightarrow> pipe \<Rightarrow> pipe" where
  "pipe_wakeup c p = p\<lparr>p_woken := p_woken p @ [c]\<rparr>"

text \<open>The part of \<^verbatim>\<open>pipealloc\<close> that sets up the pipe; the ring is whatever the page held.\<close>

definition pipe_setup :: "u8 list \<Rightarrow> pipe" where
  "pipe_setup garbage = \<lparr>p_data = garbage, p_nread = 0, p_nwrite = 0, p_readopen = True,
     p_writeopen = True, p_woken = []\<rparr>"

text \<open>The flag in the result of \<^verbatim>\<open>pipeclose\<close> says whether the page is freed.\<close>

definition pipeclose :: "bool \<Rightarrow> pipe \<Rightarrow> bool \<times> pipe" where
  "pipeclose writable p =
     (let p = (if writable then pipe_wakeup Chan_nread (p\<lparr>p_writeopen := False\<rparr>)
               else pipe_wakeup Chan_nwrite (p\<lparr>p_readopen := False\<rparr>))
      in (\<not> p_readopen p \<and> \<not> p_writeopen p, p))"

definition pipe_put :: "u8 \<Rightarrow> pipe \<Rightarrow> pipe" where
  "pipe_put c p = p\<lparr>p_data := (p_data p)[p_nwrite p mod PIPESIZE := c], p_nwrite := w32 (p_nwrite p + 1)\<rparr>"

definition pipe_get :: "pipe \<Rightarrow> u8 \<times> pipe" where
  "pipe_get p = (p_data p ! (p_nread p mod PIPESIZE), p\<lparr>p_nread := w32 (p_nread p + 1)\<rparr>)"

text \<open>\<^verbatim>\<open>pipewrite\<close> from byte \<open>i\<close> of its \<open>n\<close> bytes on.\<close>

function pipewrite_from :: "bool \<Rightarrow> u8 list \<Rightarrow> nat \<Rightarrow> pipe \<Rightarrow> int pipe_call \<times> pipe" where
  "pipewrite_from killed addr i p =
     (if i < length addr then
        if p_nwrite p = w32 (p_nread p + PIPESIZE) then
          if \<not> p_readopen p \<or> killed then (Done (-1), p) else (Sleeping i, pipe_wakeup Chan_nread p)
        else pipewrite_from killed addr (i + 1) (pipe_put (addr ! i) p)
      else (Done (int (length addr)), pipe_wakeup Chan_nread p))"
  by pat_completeness auto

termination
  by (relation "measure (\<lambda>(killed, addr, i, p). length addr - i)") auto

definition pipewrite :: "bool \<Rightarrow> u8 list \<Rightarrow> pipe \<Rightarrow> int pipe_call \<times> pipe" where
  "pipewrite killed addr p = pipewrite_from killed addr 0 p"

function piperead_copy :: "nat \<Rightarrow> nat \<Rightarrow> u8 list \<Rightarrow> pipe \<Rightarrow> u8 list \<times> pipe" where
  "piperead_copy n i acc p =
     (if i < n \<and> p_nread p \<noteq> p_nwrite p
      then let (c, p) = pipe_get p in piperead_copy n (i + 1) (acc @ [c]) p
      else (acc, p))"
  by pat_completeness auto

termination
  by (relation "measure (\<lambda>(n, i, acc, p). n - i)") auto

definition piperead :: "bool \<Rightarrow> nat \<Rightarrow> pipe \<Rightarrow> (int \<times> u8 list) pipe_call \<times> pipe" where
  "piperead killed n p =
     (if p_nread p = p_nwrite p \<and> p_writeopen p then
        if killed then (Done (-1, []), p) else (Sleeping 0, p)
      else let (bs, p) = piperead_copy n 0 [] p
           in (Done (int (length bs), bs), pipe_wakeup Chan_nwrite p))"

declare pipewrite_from.simps [simp del]
declare piperead_copy.simps [simp del]

section \<open>The queue behind the ring\<close>

definition pipe_count :: "pipe \<Rightarrow> nat" where
  "pipe_count p = w32 (p_nwrite p + 4294967296 - p_nread p)"

definition pipe_bytes :: "pipe \<Rightarrow> u8 list" where
  "pipe_bytes p = map (\<lambda>k. p_data p ! ((p_nread p + k) mod PIPESIZE)) [0..<pipe_count p]"

definition pipe_ok :: "pipe \<Rightarrow> bool" where
  "pipe_ok p \<longleftrightarrow> length (p_data p) = PIPESIZE \<and> p_nread p < 4294967296 \<and> p_nwrite p < 4294967296 \<and>
     pipe_count p \<le> PIPESIZE"

lemma pipe_wakeup_keeps [simp]:
  "p_data (pipe_wakeup c p) = p_data p" "p_nread (pipe_wakeup c p) = p_nread p"
  "p_nwrite (pipe_wakeup c p) = p_nwrite p" "p_readopen (pipe_wakeup c p) = p_readopen p"
  "p_writeopen (pipe_wakeup c p) = p_writeopen p" "p_woken (pipe_wakeup c p) = p_woken p @ [c]"
  "pipe_count (pipe_wakeup c p) = pipe_count p" "pipe_bytes (pipe_wakeup c p) = pipe_bytes p"
  "pipe_ok (pipe_wakeup c p) = pipe_ok p"
  by (simp_all add: pipe_wakeup_def pipe_count_def pipe_bytes_def pipe_ok_def)

lemma mod_512_w32 [simp]: "w32 n mod PIPESIZE = n mod PIPESIZE"
  by (simp add: mod_mod_cancel)

lemma pipe_write_pos:
  assumes "pipe_ok p"
  shows "p_nwrite p = w32 (p_nread p + pipe_count p)"
proof -
  have "w32 (p_nread p + w32 (p_nwrite p + 4294967296 - p_nread p)) =
      w32 (p_nread p + (p_nwrite p + 4294967296 - p_nread p))"
    by (rule mod_add_right_eq)
  also have "\<dots> = p_nwrite p" using assms by (simp add: pipe_ok_def)
  finally show ?thesis by (simp add: pipe_count_def)
qed

lemma pipe_count_eq:
  assumes "r < 4294967296" and "n \<le> 4294967295"
  shows "w32 (w32 (r + n) + 4294967296 - r) = n"
proof (cases "r + n < 4294967296")
  case True
  then have "w32 (r + n) + 4294967296 - r = n + 4294967296" by simp
  then show ?thesis using assms(2) by simp
next
  case False
  then have "w32 (r + n) = r + n - 4294967296" using assms by (simp add: le_mod_geq)
  then have "w32 (r + n) + 4294967296 - r = n" using False by simp
  then show ?thesis using assms(2) by simp
qed

lemma pipe_at:
  assumes "pipe_ok p" and "n \<le> 4294967295"
  shows "p_nwrite p = w32 (p_nread p + n) \<longleftrightarrow> pipe_count p = n"
proof
  assume "p_nwrite p = w32 (p_nread p + n)"
  then show "pipe_count p = n"
    using assms pipe_count_eq [of "p_nread p" n] by (simp add: pipe_count_def pipe_ok_def)
next
  assume "pipe_count p = n"
  then show "p_nwrite p = w32 (p_nread p + n)" using pipe_write_pos [OF assms(1)] by (simp only:)
qed

lemma pipe_full: "pipe_ok p \<Longrightarrow> p_nwrite p = w32 (p_nread p + PIPESIZE) \<longleftrightarrow> pipe_count p = PIPESIZE"
  by (rule pipe_at) simp_all

lemma pipe_empty: "pipe_ok p \<Longrightarrow> p_nread p = p_nwrite p \<longleftrightarrow> pipe_count p = 0"
  using pipe_at [of p 0] by (auto simp: pipe_ok_def)

lemma pipe_put_count:
  assumes "pipe_ok p" and "pipe_count p < PIPESIZE"
  shows "pipe_count (pipe_put c p) = pipe_count p + 1"
proof -
  have "w32 (p_nwrite p + 1) = w32 (p_nread p + (pipe_count p + 1))"
    using pipe_write_pos [OF assms(1)] by (metis add.assoc mod_add_left_eq)
  moreover have "pipe_count (pipe_put c p) = w32 (w32 (p_nwrite p + 1) + 4294967296 - p_nread p)"
    by (simp add: pipe_count_def pipe_put_def)
  ultimately show ?thesis
    using pipe_count_eq [of "p_nread p" "pipe_count p + 1"] assms by (simp add: pipe_ok_def)
qed

lemma pipe_get_count:
  assumes "pipe_ok p" and "0 < pipe_count p"
  shows "pipe_count (snd (pipe_get p)) = pipe_count p - 1"
proof -
  let ?r = "w32 (p_nread p + 1)"
  have "p_nwrite p = w32 (p_nread p + 1 + (pipe_count p - 1))"
    using pipe_write_pos [OF assms(1)] assms(2) by simp
  also have "\<dots> = w32 (?r + (pipe_count p - 1))" by (simp add: mod_add_left_eq)
  finally have w: "p_nwrite p = w32 (?r + (pipe_count p - 1))" .
  have "pipe_count (snd (pipe_get p)) = w32 (p_nwrite p + 4294967296 - ?r)"
    by (simp add: pipe_count_def pipe_get_def)
  also have "\<dots> = pipe_count p - 1"
    unfolding w by (rule pipe_count_eq) (use assms in \<open>auto simp: pipe_ok_def\<close>)
  finally show ?thesis .
qed

lemma mod_neq_ring:
  "i < c \<Longrightarrow> c < PIPESIZE \<Longrightarrow> (r + c) mod PIPESIZE \<noteq> (r + i) mod PIPESIZE"
proof
  assume i: "i < c" "c < PIPESIZE" and eq: "(r + c) mod PIPESIZE = (r + i) mod PIPESIZE"
  have "PIPESIZE dvd (r + c) - (r + i)" using eq i(1) by (simp add: mod_eq_dvd_iff_nat)
  then have "PIPESIZE dvd c - i" by simp
  then show False using i by (auto dest: dvd_imp_le)
qed

lemma pipe_put_bytes:
  assumes ok: "pipe_ok p" and room: "pipe_count p < PIPESIZE"
  shows "pipe_bytes (pipe_put c p) = pipe_bytes p @ [c]"
proof (rule nth_equalityI)
  have n: "pipe_count (pipe_put c p) = pipe_count p + 1" by (rule pipe_put_count [OF assms])
  then show "length (pipe_bytes (pipe_put c p)) = length (pipe_bytes p @ [c])"
    by (simp add: pipe_bytes_def)
  fix i
  assume "i < length (pipe_bytes (pipe_put c p))"
  then have i: "i < pipe_count p + 1" using n by (simp add: pipe_bytes_def)
  have w: "p_nwrite p mod PIPESIZE = (p_nread p + pipe_count p) mod PIPESIZE"
    using pipe_write_pos [OF ok] by (metis mod_512_w32)
  show "pipe_bytes (pipe_put c p) ! i = (pipe_bytes p @ [c]) ! i"
  proof (cases "i = pipe_count p")
    case True
    then show ?thesis using n w ok by (simp add: pipe_bytes_def pipe_put_def nth_append pipe_ok_def)
  next
    case False
    then have "(p_nread p + i) mod PIPESIZE \<noteq> p_nwrite p mod PIPESIZE"
      using i w room mod_neq_ring [of i "pipe_count p" "p_nread p"] by auto
    then show ?thesis using i False n by (simp add: pipe_bytes_def pipe_put_def nth_append)
  qed
qed

lemma pipe_get_bytes:
  assumes ok: "pipe_ok p" and ne: "0 < pipe_count p"
  shows "pipe_bytes p = fst (pipe_get p) # pipe_bytes (snd (pipe_get p))"
proof -
  have "[0..<pipe_count p] = 0 # map Suc [0..<pipe_count p - 1]"
    using ne by (metis Suc_pred' map_Suc_upt upt_conv_Cons)
  moreover have "(w32 (p_nread p + 1) + k) mod PIPESIZE = (p_nread p + Suc k) mod PIPESIZE" for k
  proof -
    have "(w32 (p_nread p + 1) + k) mod PIPESIZE = (w32 (p_nread p + 1) mod PIPESIZE + k) mod PIPESIZE"
      by (simp only: mod_add_left_eq)
    also have "\<dots> = (p_nread p + 1 + k) mod PIPESIZE" by (simp only: mod_512_w32 mod_add_left_eq)
    finally show ?thesis by (simp add: One_nat_def)
  qed
  ultimately show ?thesis
    using pipe_get_count [OF assms] by (simp add: pipe_bytes_def pipe_get_def)
qed

lemma pipe_ok_put: "pipe_ok p \<Longrightarrow> pipe_count p < PIPESIZE \<Longrightarrow> pipe_ok (pipe_put c p)"
  using pipe_put_count [of p c] by (simp add: pipe_ok_def pipe_put_def)

lemma pipe_ok_get: "pipe_ok p \<Longrightarrow> 0 < pipe_count p \<Longrightarrow> pipe_ok (snd (pipe_get p))"
  using pipe_get_count [of p] by (auto simp: pipe_ok_def pipe_get_def)

lemma length_pipe_bytes [simp]: "length (pipe_bytes p) = pipe_count p"
  by (simp add: pipe_bytes_def)

lemma pipe_bytes_Nil: "pipe_bytes p = [] \<longleftrightarrow> pipe_count p = 0"
  by (simp add: pipe_bytes_def)

interpretation pq: fifo pipe_ok pipe_bytes pipe_put pipe_get PIPESIZE
proof (unfold_locales, goal_cases)
  case (1 q c)
  then show ?case by (simp add: pipe_ok_put)
next
  case (2 q c)
  then show ?case by (simp add: pipe_put_bytes)
next
  case (3 q)
  then show ?case by (simp add: pipe_ok_get pipe_bytes_Nil)
next
  case (4 q)
  then show ?case using pipe_get_bytes [of q] by (simp add: pipe_bytes_Nil)
qed

section \<open>Whole calls\<close>

lemma pipe_put_open [simp]:
  "p_readopen (pipe_put c p) = p_readopen p" "p_writeopen (pipe_put c p) = p_writeopen p"
  "p_woken (pipe_put c p) = p_woken p"
  by (simp_all add: pipe_put_def)

lemma pipe_get_open [simp]:
  "p_readopen (snd (pipe_get p)) = p_readopen p" "p_writeopen (snd (pipe_get p)) = p_writeopen p"
  "p_woken (snd (pipe_get p)) = p_woken p"
  by (simp_all add: pipe_get_def)

lemma pipewrite_from_law:
  assumes "pipe_ok p" and "i \<le> length addr"
  defines "k \<equiv> min (length addr - i) (PIPESIZE - pipe_count p)"
  shows "\<exists>p'. pipewrite_from killed addr i p =
      ((if i + k = length addr then Done (int (length addr))
        else if \<not> p_readopen p \<or> killed then Done (-1) else Sleeping (i + k)), p') \<and>
    pipe_ok p' \<and> pipe_bytes p' = pipe_bytes p @ take k (drop i addr) \<and>
    p_readopen p' = p_readopen p \<and> p_writeopen p' = p_writeopen p \<and>
    p_woken p' = p_woken p @ (if i + k < length addr \<and> (\<not> p_readopen p \<or> killed) then [] else [Chan_nread])"
  using assms(1,2) unfolding k_def
proof (induction "length addr - i" arbitrary: i p)
  case 0
  then show ?case by (subst pipewrite_from.simps) simp
next
  case (Suc n)
  let ?k = "min (length addr - i) (PIPESIZE - pipe_count p)"
  have i: "i < length addr" using Suc.hyps(2) by simp
  show ?case
  proof (cases "pipe_count p = PIPESIZE")
    case True
    then show ?thesis
      using i pipe_full [OF Suc.prems(1)] Suc.prems(1) by (subst pipewrite_from.simps) simp
  next
    case False
    then have room: "pipe_count p < PIPESIZE" using Suc.prems(1) by (simp add: pipe_ok_def)
    let ?p = "pipe_put (addr ! i) p"
    have c: "pipe_count ?p = pipe_count p + 1" by (rule pipe_put_count [OF Suc.prems(1) room])
    let ?k' = "min (length addr - (i + 1)) (PIPESIZE - pipe_count ?p)"
    have k: "?k = Suc ?k'" using i room c by auto
    have "n = length addr - (i + 1)" "i + 1 \<le> length addr" using Suc.hyps(2) by auto
    from Suc.hyps(1) [OF this(1) pipe_ok_put [OF Suc.prems(1) room, of "addr ! i"] this(2)]
    obtain p' where p':
      "pipewrite_from killed addr (i + 1) ?p =
        ((if i + 1 + ?k' = length addr then Done (int (length addr))
          else if \<not> p_readopen p \<or> killed then Done (-1) else Sleeping (i + 1 + ?k')), p')"
      "pipe_ok p'" "pipe_bytes p' = pipe_bytes ?p @ take ?k' (drop (i + 1) addr)"
      "p_readopen p' = p_readopen p" "p_writeopen p' = p_writeopen p"
      "p_woken p' = p_woken p @
        (if i + 1 + ?k' < length addr \<and> (\<not> p_readopen p \<or> killed) then [] else [Chan_nread])"
      unfolding pipe_put_open by blast
    have "pipewrite_from killed addr i p = pipewrite_from killed addr (i + 1) ?p"
      using i False pipe_full [OF Suc.prems(1)] by (subst pipewrite_from.simps) simp
    moreover have "take ?k (drop i addr) = addr ! i # take ?k' (drop (i + 1) addr)"
      unfolding k using i by (simp add: Cons_nth_drop_Suc [symmetric] One_nat_def)
    moreover have "i + 1 + ?k' = i + ?k" unfolding k by simp
    ultimately show ?thesis
      using p' pipe_put_bytes [OF Suc.prems(1) room, of "addr ! i"]
      by (intro exI [of _ p']) (simp only: append_assoc append_Cons append_Nil simp_thms)
  qed
qed

lemma piperead_copy_law:
  assumes "pipe_ok p" and "i \<le> n"
  defines "k \<equiv> min (n - i) (pipe_count p)"
  shows "\<exists>p'. piperead_copy n i acc p = (acc @ take k (pipe_bytes p), p') \<and> pipe_ok p' \<and>
    pipe_bytes p' = drop k (pipe_bytes p) \<and> p_readopen p' = p_readopen p \<and>
    p_writeopen p' = p_writeopen p \<and> p_woken p' = p_woken p"
  using assms(1,2) unfolding k_def
proof (induction "n - i" arbitrary: i p acc)
  case 0
  then show ?case by (subst piperead_copy.simps) simp
next
  case (Suc m)
  show ?case
  proof (cases "pipe_count p = 0")
    case True
    then show ?thesis
      using pipe_empty [OF Suc.prems(1)] Suc.prems(1) by (subst piperead_copy.simps) simp
  next
    case False
    let ?p = "snd (pipe_get p)" and ?c = "fst (pipe_get p)"
    have c: "pipe_count ?p = pipe_count p - 1" and ok: "pipe_ok ?p"
      using pipe_get_count [OF Suc.prems(1)] pipe_ok_get [OF Suc.prems(1)] False by simp_all
    have bs: "pipe_bytes p = ?c # pipe_bytes ?p" using pipe_get_bytes [OF Suc.prems(1)] False by simp
    let ?k' = "min (n - (i + 1)) (pipe_count ?p)"
    have k: "min (n - i) (pipe_count p) = Suc ?k'" using Suc.hyps(2) c False by auto
    have i: "i < n" using Suc.hyps(2) by simp
    have "m = n - (i + 1)" "i + 1 \<le> n" using Suc.hyps(2) by auto
    from Suc.hyps(1) [OF this(1) ok this(2), of "acc @ [?c]"] obtain p' where p':
      "piperead_copy n (i + 1) (acc @ [?c]) ?p = ((acc @ [?c]) @ take ?k' (pipe_bytes ?p), p')"
      "pipe_ok p'" "pipe_bytes p' = drop ?k' (pipe_bytes ?p)"
      "p_readopen p' = p_readopen p" "p_writeopen p' = p_writeopen p"
      "p_woken p' = p_woken p"
      unfolding pipe_get_open by blast
    have "piperead_copy n i acc p = piperead_copy n (i + 1) (acc @ [?c]) ?p"
      using i False pipe_empty [OF Suc.prems(1)]
      by (subst piperead_copy.simps) (simp add: case_prod_beta)
    moreover have "take (Suc ?k') (pipe_bytes p) = ?c # take ?k' (pipe_bytes ?p)"
      "drop (Suc ?k') (pipe_bytes p) = drop ?k' (pipe_bytes ?p)" by (simp_all only: bs take_Suc_Cons drop_Suc_Cons)
    ultimately show ?thesis
      using p' unfolding k
      by (intro exI [of _ p']) (simp only: append_assoc append_Cons append_Nil simp_thms)
  qed
qed

text \<open>
  A writer of \<open>addr\<close> and a reader that asks for \<open>n\<close> bytes at a time, run by the scheduler
  in turns: the writer until it sleeps or is done, then one call of the reader.
\<close>

fun pipe_turns :: "nat \<Rightarrow> u8 list \<Rightarrow> nat \<Rightarrow> nat \<Rightarrow> u8 list \<Rightarrow> pipe \<Rightarrow> (u8 list \<times> pipe) option" where
  "pipe_turns 0 addr n i got p = None"
| "pipe_turns (Suc fuel) addr n i got p =
     (case pipewrite_from False addr i p of
        (Done r, p) \<Rightarrow> Some (got, p)
      | (Sleeping i, p) \<Rightarrow>
          (case piperead False n p of
             (Done (r, bs), p) \<Rightarrow> pipe_turns fuel addr n i (got @ bs) p
           | (Sleeping j, p) \<Rightarrow> None))"

lemma piperead_law:
  assumes ok: "pipe_ok p"
  shows "\<exists>p'. piperead killed n p =
      ((if pipe_bytes p = [] \<and> p_writeopen p then (if killed then Done (-1, []) else Sleeping 0)
        else Done (int (min n (pipe_count p)), take n (pipe_bytes p))), p') \<and>
    pipe_ok p' \<and> pipe_bytes p' = drop n (pipe_bytes p) \<and>
    p_readopen p' = p_readopen p \<and> p_writeopen p' = p_writeopen p \<and>
    p_woken p' = p_woken p @ (if pipe_bytes p = [] \<and> p_writeopen p then [] else [Chan_nwrite])"
proof (cases "pipe_bytes p = [] \<and> p_writeopen p")
  case True
  then show ?thesis
    using ok pipe_empty [OF ok] by (auto simp: piperead_def pipe_bytes_Nil)
next
  case False
  let ?k = "min (n - 0) (pipe_count p)"
  have k: "take ?k (pipe_bytes p) = take n (pipe_bytes p)" "drop ?k (pipe_bytes p) = drop n (pipe_bytes p)"
    by (simp_all add: min_def)
  from piperead_copy_law [OF ok, of 0 n "[]"] obtain p' where
    "piperead_copy n 0 [] p = (take n (pipe_bytes p), p')" "pipe_ok p'"
    "pipe_bytes p' = drop n (pipe_bytes p)" "p_readopen p' = p_readopen p" "p_writeopen p' = p_writeopen p"
    "p_woken p' = p_woken p"
    unfolding k append_Nil by auto
  then show ?thesis
    using False pipe_empty [OF ok] by (intro exI [of _ "pipe_wakeup Chan_nwrite p'"]) (auto simp: piperead_def pipe_bytes_Nil)
qed

lemma pipe_turns_law:
  assumes "pipe_ok p" and "p_readopen p" and "p_writeopen p" and "0 < n" and "i \<le> length addr"
    and "length addr - i + pipe_count p < fuel"
  shows "\<exists>got' p'. pipe_turns fuel addr n i got p = Some (got', p') \<and> pipe_ok p' \<and>
    got' @ pipe_bytes p' = got @ pipe_bytes p @ drop i addr"
  using assms
proof (induction fuel arbitrary: i got p)
  case (Suc fuel)
  let ?k = "min (length addr - i) (PIPESIZE - pipe_count p)"
  from pipewrite_from_law [OF Suc.prems(1,5), of False] obtain p1 where w:
    "pipewrite_from False addr i p =
      (if i + ?k = length addr then Done (int (length addr)) else Sleeping (i + ?k), p1)"
    "pipe_ok p1" "pipe_bytes p1 = pipe_bytes p @ take ?k (drop i addr)"
    "p_readopen p1" "p_writeopen p1" using Suc.prems(2,3) by auto
  show ?case
  proof (cases "i + ?k = length addr")
    case True
    then have "take ?k (drop i addr) = drop i addr" by simp
    then show ?thesis using True w by simp
  next
    case False
    then have full: "length (pipe_bytes p1) = PIPESIZE"
      using w(3) Suc.prems(1,5) by (auto simp: pipe_ok_def)
    then have "pipe_bytes p1 \<noteq> []" by (auto simp: pipe_bytes_Nil)
    with piperead_law [OF w(2), of False n] obtain p2 where r:
      "piperead False n p1 = (Done (int (min n (pipe_count p1)), take n (pipe_bytes p1)), p2)"
      "pipe_ok p2" "pipe_bytes p2 = drop n (pipe_bytes p1)" "p_readopen p2" "p_writeopen p2"
      using w(4,5) by auto
    have "pipe_count p2 < pipe_count p1" "pipe_count p1 \<le> pipe_count p + ?k"
      using arg_cong [OF r(3), of length] arg_cong [OF w(3), of length] Suc.prems(4) full by auto
    then have f: "length addr - (i + ?k) + pipe_count p2 < fuel" using Suc.prems(5,6) by linarith
    have "i + ?k \<le> length addr" using Suc.prems(5) by linarith
    from Suc.IH [OF r(2,4,5) Suc.prems(4) this f, of "got @ take n (pipe_bytes p1)"]
    obtain got' p' where "pipe_turns fuel addr n (i + ?k) (got @ take n (pipe_bytes p1)) p2 = Some (got', p')"
      "pipe_ok p'" "got' @ pipe_bytes p' = (got @ take n (pipe_bytes p1)) @ pipe_bytes p2 @ drop (i + ?k) addr"
      by blast
    moreover have "(got @ take n (pipe_bytes p1)) @ pipe_bytes p2 @ drop (i + ?k) addr =
        got @ pipe_bytes p @ drop i addr"
    proof -
      have d: "drop (i + ?k) addr = drop ?k (drop i addr)" by (simp add: add.commute)
      have "(got @ take n (pipe_bytes p1)) @ pipe_bytes p2 @ drop (i + ?k) addr =
          got @ pipe_bytes p1 @ drop (i + ?k) addr" unfolding r(3) by simp
      then show ?thesis unfolding d w(3) append_assoc append_take_drop_id .
    qed
    ultimately show ?thesis using w(1) r(1) False by simp
  qed
qed simp

section \<open>Correctness of pipes\<close>

text \<open>
  C17: On a pipe whose ring and counters are well formed, for every position of the two 32-bit
  counters (also when they wrap around), \<^verbatim>\<open>pipewrite\<close> appends the longest prefix of its
  bytes that fits and returns their number when all fit, -1 when the read end is closed or the
  process was killed, and sleeps otherwise; \<^verbatim>\<open>piperead\<close> takes the oldest bytes, at most
  \<open>n\<close>, sleeps (or returns -1 when killed) on an empty pipe whose write end is open, and returns 0
  on an empty pipe whose write end is closed. Both keep the
  pipe well formed, and a call that moved bytes or is about to sleep has woken the other end.
\<close>

theorem pipe_calls_correct:
  assumes "pipe_ok p"
  shows "(\<exists>p'. pipewrite killed addr p =
      ((if length addr \<le> PIPESIZE - length (pipe_bytes p) then Done (int (length addr))
        else if \<not> p_readopen p \<or> killed then Done (-1)
        else Sleeping (PIPESIZE - length (pipe_bytes p))), p') \<and> pipe_ok p' \<and>
      pipe_bytes p' = pipe_bytes p @ take (PIPESIZE - length (pipe_bytes p)) addr \<and>
      p_woken p' = p_woken p @ (if length addr > PIPESIZE - length (pipe_bytes p) \<and>
        (\<not> p_readopen p \<or> killed) then [] else [Chan_nread])) \<and>
    (\<exists>p'. piperead killed n p =
      ((if pipe_bytes p = [] \<and> p_writeopen p then (if killed then Done (-1, []) else Sleeping 0)
        else Done (int (min n (length (pipe_bytes p))), take n (pipe_bytes p))), p') \<and> pipe_ok p' \<and>
      pipe_bytes p' = drop n (pipe_bytes p) \<and>
      p_woken p' = p_woken p @ (if pipe_bytes p = [] \<and> p_writeopen p then [] else [Chan_nwrite]))"
proof
  let ?k = "min (length addr) (PIPESIZE - pipe_count p)"
  have k: "take ?k addr = take (PIPESIZE - pipe_count p) addr" by (simp add: min_def)
  from pipewrite_from_law [OF assms, of 0 addr killed] obtain p' where
    "pipewrite_from killed addr 0 p = ((if ?k = length addr then Done (int (length addr))
        else if \<not> p_readopen p \<or> killed then Done (-1) else Sleeping ?k), p')"
    "pipe_ok p'" "pipe_bytes p' = pipe_bytes p @ take (PIPESIZE - pipe_count p) addr"
    "p_woken p' = p_woken p @ (if ?k < length addr \<and> (\<not> p_readopen p \<or> killed) then [] else [Chan_nread])"
    by (auto simp: k)
  then show "\<exists>p'. pipewrite killed addr p =
      ((if length addr \<le> PIPESIZE - length (pipe_bytes p) then Done (int (length addr))
        else if \<not> p_readopen p \<or> killed then Done (-1)
        else Sleeping (PIPESIZE - length (pipe_bytes p))), p') \<and> pipe_ok p' \<and>
      pipe_bytes p' = pipe_bytes p @ take (PIPESIZE - length (pipe_bytes p)) addr \<and>
      p_woken p' = p_woken p @ (if length addr > PIPESIZE - length (pipe_bytes p) \<and>
        (\<not> p_readopen p \<or> killed) then [] else [Chan_nread])"
    by (intro exI [of _ p']) (auto simp: pipewrite_def min_def)
qed (use piperead_law [OF assms, of killed n] in auto)

definition wrapped_pipe :: pipe where
  "wrapped_pipe = \<lparr>p_data = replicate PIPESIZE 7, p_nread = 4294967295, p_nwrite = 1,
     p_readopen = True, p_writeopen = True, p_woken = []\<rparr>"

theorem pipe_calls_correct_witness:
  "pipe_ok wrapped_pipe \<and> (\<exists>p'. pipewrite False [1, 2] wrapped_pipe = (Done 2, p') \<and>
     pipe_bytes p' = [7, 7, 1, 2])"
proof -
  have ok: "pipe_ok wrapped_pipe" and bs: "pipe_bytes wrapped_pipe = [7, 7]"
    by (simp_all add: pipe_ok_def pipe_bytes_def pipe_count_def wrapped_pipe_def upt_rec One_nat_def)
  show ?thesis
    using pipe_calls_correct [OF ok, of False "[1, 2]" 0] ok by (auto simp: bs)
qed



end
