(* ===== verification/Xv6_File.thy ===== *)
theory Xv6_File
  imports Xv6_Dedup Xv6_Pipe Xv6_Vm
begin

text \<open>
  Open files (file.c) and the allocation of pipes (pipe.c). The kernel's state at this
  level has the memory and page tables, the file system down to the disk, the file
  table, and the pipes by the address of the page each lives in. A pointer to an open
  file is its index in \<^verbatim>\<open>ftable.file\<close>.
\<close>

abbreviation NFILE :: nat where "NFILE \<equiv> 100"

section \<open>Data\<close>

datatype fd_type = FD_NONE | FD_PIPE | FD_INODE

record file_t =
  f_type :: fd_type
  f_ref :: int
  f_readable :: bool
  f_writable :: bool
  f_pipe :: nat
  f_ip :: nat
  f_off :: nat

record kern =
  kn_vm :: vm_state
  kn_fs :: dd_state
  kn_file :: "nat \<Rightarrow> file_t"
  kn_pipe :: "nat \<Rightarrow> pipe"

definition set_file :: "nat \<Rightarrow> file_t \<Rightarrow> 'a kern_scheme \<Rightarrow> 'a kern_scheme" where
  "set_file f v k = k\<lparr>kn_file := (kn_file k)(f := v)\<rparr>"

definition set_pipe :: "nat \<Rightarrow> pipe \<Rightarrow> 'a kern_scheme \<Rightarrow> 'a kern_scheme" where
  "set_pipe p v k = k\<lparr>kn_pipe := (kn_pipe k)(p := v)\<rparr>"

text \<open>An operation of the file system, or of memory, as an operation of the kernel.\<close>

definition fs_do :: "(dd_state \<Rightarrow> ('r \<times> dd_state) outcome) \<Rightarrow> 'a kern_scheme \<Rightarrow> ('r \<times> 'a kern_scheme) outcome" where
  "fs_do f k = andthen (f (kn_fs k)) (\<lambda>(r, s). Ok (r, k\<lparr>kn_fs := s\<rparr>))"

definition fs_run :: "(dd_state \<Rightarrow> dd_state outcome) \<Rightarrow> 'a kern_scheme \<Rightarrow> 'a kern_scheme outcome" where
  "fs_run f k = andthen (f (kn_fs k)) (\<lambda>s. Ok (k\<lparr>kn_fs := s\<rparr>))"

definition vm_do :: "(vm_state \<Rightarrow> ('r \<times> vm_state) outcome) \<Rightarrow> 'a kern_scheme \<Rightarrow> ('r \<times> 'a kern_scheme) outcome" where
  "vm_do f k = andthen (f (kn_vm k)) (\<lambda>(r, s). Ok (r, k\<lparr>kn_vm := s\<rparr>))"

definition vm_run :: "(vm_state \<Rightarrow> vm_state outcome) \<Rightarrow> 'a kern_scheme \<Rightarrow> 'a kern_scheme outcome" where
  "vm_run f k = andthen (f (kn_vm k)) (\<lambda>s. Ok (k\<lparr>kn_vm := s\<rparr>))"

section \<open>The file table\<close>

definition filealloc :: "'a kern_scheme \<Rightarrow> nat option \<times> 'a kern_scheme" where
  "filealloc k =
     (case find (\<lambda>f. f_ref (kn_file k f) = 0) [0..<NFILE] of
        Some f \<Rightarrow> (Some f, set_file f ((kn_file k f)\<lparr>f_ref := 1\<rparr>) k)
      | None \<Rightarrow> (None, k))"

definition filedup :: "nat \<Rightarrow> 'a kern_scheme \<Rightarrow> 'a kern_scheme outcome" where
  "filedup f k =
     (if f_ref (kn_file k f) < 1 then Panic ''filedup''
      else Ok (set_file f ((kn_file k f)\<lparr>f_ref := f_ref (kn_file k f) + 1\<rparr>) k))"

definition fileclose :: "nat \<Rightarrow> nat \<Rightarrow> 'a kern_scheme \<Rightarrow> 'a kern_scheme outcome" where
  "fileclose kend f k =
     (if f_ref (kn_file k f) < 1 then Panic ''fileclose''
      else let ff = (kn_file k f)\<lparr>f_ref := f_ref (kn_file k f) - 1\<rparr> in
      if 0 < f_ref ff then Ok (set_file f ff k)
      else let k = set_file f (ff\<lparr>f_ref := 0, f_type := FD_NONE\<rparr>) k in
        case f_type ff of
          FD_PIPE \<Rightarrow> (let (gone, p) = pipeclose (f_writable ff) (kn_pipe k (f_pipe ff)); k = set_pipe (f_pipe ff) p k
            in if gone then vm_run (kfree kend (f_pipe ff)) k else Ok k)
        | FD_INODE \<Rightarrow>
            andthen (fs_run begin_trans k) (\<lambda>k.
            andthen (fs_run (iput (f_ip ff)) k) (fs_run commit_trans))
        | FD_NONE \<Rightarrow> Ok k)"

definition filestat :: "nat \<Rightarrow> 'a kern_scheme \<Rightarrow> (stat option \<times> 'a kern_scheme) outcome" where
  "filestat f k =
     (if f_type (kn_file k f) = FD_INODE then
        let ip = f_ip (kn_file k f) in
        andthen (fs_run (ilock ip) k) (\<lambda>k.
          let st = stati ip (kn_fs k)
          in andthen (fs_run (iunlock ip) k) (\<lambda>k. Ok (Some st, k)))
      else Ok (None, k))"

section \<open>Reading and writing\<close>

definition fileread :: "(int \<Rightarrow> dd_state dev_read option) \<Rightarrow> bool \<Rightarrow> nat \<Rightarrow> int \<Rightarrow> 'a kern_scheme \<Rightarrow>
    ((int \<times> u8 list) pipe_call \<times> 'a kern_scheme) outcome" where
  "fileread devsw killed f n k =
     (let v = kn_file k f in
      if \<not> f_readable v then Ok (Done (-1, []), k)
      else case f_type v of
        FD_PIPE \<Rightarrow> (let (r, p) = piperead killed (nat n) (kn_pipe k (f_pipe v)) in Ok (r, set_pipe (f_pipe v) p k))
      | FD_INODE \<Rightarrow>
          andthen (fs_run (ilock (f_ip v)) k) (\<lambda>k.
          andthen (fs_do (readi devsw (f_ip v) (f_off v) (of_int32 n)) k) (\<lambda>((r, bs), k).
            let k = (if 0 < r then set_file f (v\<lparr>f_off := w32 (f_off v + nat r)\<rparr>) k else k)
            in andthen (fs_run (iunlock (f_ip v)) k) (\<lambda>k. Ok (Done (r, bs), k))))
      | FD_NONE \<Rightarrow> Panic ''fileread'')"

text \<open>
  The loop of \<^verbatim>\<open>filewrite\<close> on an inode: \<open>src\<close> has the \<open>n\<close> bytes, \<open>i\<close> of them are written. Each round is
  a transaction of its own.
\<close>

abbreviation max_write :: nat where "max_write \<equiv> (10 - 1 - 1 - 2) div 2 * 512"

function filewrite_loop :: "(int \<Rightarrow> dd_state dev_write option) \<Rightarrow> nat \<Rightarrow> u8 list \<Rightarrow> nat \<Rightarrow> 'a kern_scheme \<Rightarrow>
    (int \<times> 'a kern_scheme) outcome" where
  "filewrite_loop devsw f src i k =
     (if i < length src then
        let n1 = (if length src - i > max_write then max_write else length src - i); ip = f_ip (kn_file k f) in
        andthen (fs_run begin_trans k) (\<lambda>k.
        andthen (fs_run (ilock ip) k) (\<lambda>k.
        andthen (fs_do (writei devsw ip (take n1 (drop i src)) (f_off (kn_file k f))) k) (\<lambda>(r, k).
          let k = (if 0 < r then set_file f ((kn_file k f)\<lparr>f_off := w32 (f_off (kn_file k f) + nat r)\<rparr>) k else k) in
        andthen (fs_run (iunlock ip) k) (\<lambda>k.
        andthen (fs_run commit_trans k) (\<lambda>k.
          if r < 0 then Ok (-1, k)
          else if r \<noteq> int n1 then Panic ''short filewrite''
          else filewrite_loop devsw f src (i + n1) k)))))
      else Ok (int (length src), k))"
  by pat_completeness auto

termination
  by (relation "measure (\<lambda>(devsw, f, src, i, k). length src - i)") (auto split: if_splits)

text \<open>A negative count writes nothing and fails.\<close>

definition filewrite :: "(int \<Rightarrow> dd_state dev_write option) \<Rightarrow> bool \<Rightarrow> nat \<Rightarrow> int \<Rightarrow> u8 list \<Rightarrow> 'a kern_scheme \<Rightarrow>
    (int pipe_call \<times> 'a kern_scheme) outcome" where
  "filewrite devsw killed f n src k =
     (let v = kn_file k f in
      if \<not> f_writable v then Ok (Done (-1), k)
      else case f_type v of
        FD_PIPE \<Rightarrow> (let (r, p) = pipewrite killed src (kn_pipe k (f_pipe v)); k = set_pipe (f_pipe v) p k
          in Ok (if n < 0 then Done n else r, k))
      | FD_INODE \<Rightarrow> if n < 0 then Ok (Done (-1), k)
          else andthen (filewrite_loop devsw f src 0 k) (\<lambda>(r, k). Ok (Done r, k))
      | FD_NONE \<Rightarrow> Panic ''filewrite'')"

section \<open>Allocation of pipes\<close>

definition pipe_bad :: "nat \<Rightarrow> nat \<Rightarrow> nat option \<Rightarrow> nat option \<Rightarrow> 'a kern_scheme \<Rightarrow> 'a kern_scheme outcome" where
  "pipe_bad kend p f0 f1 k =
     andthen (if p \<noteq> 0 then vm_run (kfree kend p) k else Ok k) (\<lambda>k.
     andthen (case f0 of Some f \<Rightarrow> fileclose kend f k | None \<Rightarrow> Ok k) (\<lambda>k.
       case f1 of Some f \<Rightarrow> fileclose kend f k | None \<Rightarrow> Ok k))"

text \<open>The ring of the new pipe, after the 52 bytes of the lock, is what the page held; \<open>None\<close> is the result -1.\<close>

definition pipealloc :: "nat \<Rightarrow> 'a kern_scheme \<Rightarrow> ((nat \<times> nat) option \<times> 'a kern_scheme) outcome" where
  "pipealloc kend k =
     (let (f0, k) = filealloc k in
      case f0 of
        None \<Rightarrow> andthen (pipe_bad kend 0 None None k) (\<lambda>k. Ok (None, k))
      | Some f0 \<Rightarrow>
        let (f1, k) = filealloc k in
        case f1 of
          None \<Rightarrow> andthen (pipe_bad kend 0 (Some f0) None k) (\<lambda>k. Ok (None, k))
        | Some f1 \<Rightarrow>
          let (p, s) = kalloc (kn_vm k); k = k\<lparr>kn_vm := s\<rparr> in
          if p = 0 then andthen (pipe_bad kend 0 (Some f0) (Some f1) k) (\<lambda>k. Ok (None, k))
          else let k = set_pipe p (pipe_setup (map (\<lambda>i. k_mem s (p + 52 + i)) [0..<PIPESIZE])) k;
                   k = set_file f0 ((kn_file k f0)\<lparr>f_type := FD_PIPE, f_readable := True, f_writable := False, f_pipe := p\<rparr>) k;
                   k = set_file f1 ((kn_file k f1)\<lparr>f_type := FD_PIPE, f_readable := False, f_writable := True, f_pipe := p\<rparr>) k
               in Ok (Some (f0, f1), k))"

declare filewrite_loop.simps [simp del]

end
