(* ===== verification/Xv6_Spinlock.thy ===== *)
theory Xv6_Spinlock
  imports Xv6_Kalloc
begin

text \<open>
  Spin locks (spinlock.c). The operations of one processor are functions on the lock and
  the processor's own state; several processors interleave between the points where the
  code touches the lock, so \<^verbatim>\<open>acquire\<close> and \<^verbatim>\<open>release\<close> are also given as their atomic steps,
  and mutual exclusion is proved for the interleaving of these steps.
\<close>

section \<open>Data\<close>

record spinlock =
  lk_locked :: bool
  lk_name :: string
  lk_cpu :: "nat option"
  lk_pcs :: "nat list"

text \<open>The part of a processor that locks use: nesting depth, saved and current interrupt flag.\<close>

record cpu =
  c_ncli :: int
  c_intena :: bool
  c_if :: bool

section \<open>Operations\<close>

definition initlock :: "string \<Rightarrow> nat list \<Rightarrow> spinlock" where
  "initlock nm pcs = \<lparr>lk_locked = False, lk_name = nm, lk_cpu = None, lk_pcs = pcs\<rparr>"

definition holding :: "nat \<Rightarrow> spinlock \<Rightarrow> bool" where
  "holding me lk \<longleftrightarrow> lk_locked lk \<and> lk_cpu lk = Some me"

definition pushcli :: "cpu \<Rightarrow> cpu" where
  "pushcli c =
     (let eflags = c_if c; n = c_ncli c
      in c\<lparr>c_if := False, c_ncli := n + 1, c_intena := (if n = 0 then eflags else c_intena c)\<rparr>)"

definition popcli :: "cpu \<Rightarrow> cpu outcome" where
  "popcli c =
     (if c_if c then Panic ''popcli - interruptible''
      else let n = c_ncli c - 1 in
        if n < 0 then Panic ''popcli''
        else Ok (c\<lparr>c_ncli := n, c_if := (n = 0 \<and> c_intena c)\<rparr>))"

text \<open>The frames that \<^verbatim>\<open>getcallerpcs\<close> follows from the frame pointer \<open>ebp\<close>, at most \<open>n\<close> of them.\<close>

fun caller_pcs :: "mem \<Rightarrow> nat \<Rightarrow> nat \<Rightarrow> nat list" where
  "caller_pcs m ebp 0 = []"
| "caller_pcs m ebp (Suc n) =
     (if ebp = 0 \<or> ebp < KERNBASE \<or> ebp = 0xFFFFFFFF then replicate (Suc n) 0
      else ld32 m (ebp + 4) # caller_pcs m (ld32 m ebp) n)"

definition getcallerpcs :: "mem \<Rightarrow> nat \<Rightarrow> nat list" where
  "getcallerpcs m v = caller_pcs m (w32 (v + 4294967296 - 8)) 10"

text \<open>
  The steps of \<^verbatim>\<open>acquire\<close>: disabling interrupts and the check for a second acquisition, one
  \<^verbatim>\<open>xchg\<close>, and recording the owner.
\<close>

definition acquire_enter :: "nat \<Rightarrow> spinlock \<Rightarrow> cpu \<Rightarrow> cpu outcome" where
  "acquire_enter me lk c = (let c = pushcli c in if holding me lk then Panic ''acquire'' else Ok c)"

definition acquire_xchg :: "spinlock \<Rightarrow> bool \<times> spinlock" where
  "acquire_xchg lk = (lk_locked lk, lk\<lparr>lk_locked := True\<rparr>)"

definition acquire_record :: "nat \<Rightarrow> nat list \<Rightarrow> spinlock \<Rightarrow> spinlock" where
  "acquire_record me pcs lk = lk\<lparr>lk_cpu := Some me, lk_pcs := pcs\<rparr>"

text \<open>The whole call when no other processor runs; it spins for ever on a lock that is held.\<close>

definition acquire :: "nat \<Rightarrow> nat list \<Rightarrow> spinlock \<times> cpu \<Rightarrow> (spinlock \<times> cpu) outcome" where
  "acquire me pcs = (\<lambda>(lk, c).
     andthen (acquire_enter me lk c) (\<lambda>c.
       let (old, lk) = acquire_xchg lk in if old then Blocked else Ok (acquire_record me pcs lk, c)))"

definition release_enter :: "nat \<Rightarrow> spinlock \<Rightarrow> spinlock outcome" where
  "release_enter me lk =
     (if \<not> holding me lk then Panic ''release''
      else Ok (lk\<lparr>lk_pcs := (lk_pcs lk)[0 := 0], lk_cpu := None\<rparr>))"

definition release_xchg :: "spinlock \<Rightarrow> spinlock" where
  "release_xchg lk = lk\<lparr>lk_locked := False\<rparr>"

definition release :: "nat \<Rightarrow> spinlock \<times> cpu \<Rightarrow> (spinlock \<times> cpu) outcome" where
  "release me = (\<lambda>(lk, c).
     andthen (release_enter me lk) (\<lambda>lk.
       let lk = release_xchg lk in andthen (popcli c) (\<lambda>c. Ok (lk, c))))"

section \<open>Processors sharing a lock\<close>

datatype lock_pc = Idle | Spinning | Grabbed | Critical | Unlocking | Leaving

record lock_sys =
  sy_lock :: spinlock
  sy_cpu :: "nat \<Rightarrow> cpu"
  sy_pc :: "nat \<Rightarrow> lock_pc"
  sy_panic :: "string option"

text \<open>One processor takes its next step; outside the calls it may turn interrupts on and off.\<close>

inductive lock_step :: "lock_sys \<Rightarrow> lock_sys \<Rightarrow> bool" where
  flag: "sy_panic y = None \<Longrightarrow> sy_pc y i = Idle \<Longrightarrow> c_ncli (sy_cpu y i) = 0 \<Longrightarrow>
    lock_step y (y\<lparr>sy_cpu := (sy_cpu y)(i := (sy_cpu y i)\<lparr>c_if := b\<rparr>)\<rparr>)"
| enter: "sy_panic y = None \<Longrightarrow> sy_pc y i = Idle \<Longrightarrow> acquire_enter i (sy_lock y) (sy_cpu y i) = Ok c \<Longrightarrow>
    lock_step y (y\<lparr>sy_cpu := (sy_cpu y)(i := c), sy_pc := (sy_pc y)(i := Spinning)\<rparr>)"
| enter_panic: "sy_panic y = None \<Longrightarrow> sy_pc y i = Idle \<Longrightarrow>
    acquire_enter i (sy_lock y) (sy_cpu y i) = Panic e \<Longrightarrow> lock_step y (y\<lparr>sy_panic := Some e\<rparr>)"
| spin: "sy_panic y = None \<Longrightarrow> sy_pc y i = Spinning \<Longrightarrow> acquire_xchg (sy_lock y) = (True, lk) \<Longrightarrow>
    lock_step y (y\<lparr>sy_lock := lk\<rparr>)"
| grab: "sy_panic y = None \<Longrightarrow> sy_pc y i = Spinning \<Longrightarrow> acquire_xchg (sy_lock y) = (False, lk) \<Longrightarrow>
    lock_step y (y\<lparr>sy_lock := lk, sy_pc := (sy_pc y)(i := Grabbed)\<rparr>)"
| record_owner: "sy_panic y = None \<Longrightarrow> sy_pc y i = Grabbed \<Longrightarrow>
    lock_step y (y\<lparr>sy_lock := acquire_record i pcs (sy_lock y), sy_pc := (sy_pc y)(i := Critical)\<rparr>)"
| unlock: "sy_panic y = None \<Longrightarrow> sy_pc y i = Critical \<Longrightarrow> release_enter i (sy_lock y) = Ok lk \<Longrightarrow>
    lock_step y (y\<lparr>sy_lock := lk, sy_pc := (sy_pc y)(i := Unlocking)\<rparr>)"
| unlock_panic: "sy_panic y = None \<Longrightarrow> sy_pc y i = Critical \<Longrightarrow> release_enter i (sy_lock y) = Panic e \<Longrightarrow>
    lock_step y (y\<lparr>sy_panic := Some e\<rparr>)"
| drop: "sy_panic y = None \<Longrightarrow> sy_pc y i = Unlocking \<Longrightarrow>
    lock_step y (y\<lparr>sy_lock := release_xchg (sy_lock y), sy_pc := (sy_pc y)(i := Leaving)\<rparr>)"
| leave: "sy_panic y = None \<Longrightarrow> sy_pc y i = Leaving \<Longrightarrow> popcli (sy_cpu y i) = Ok c \<Longrightarrow>
    lock_step y (y\<lparr>sy_cpu := (sy_cpu y)(i := c), sy_pc := (sy_pc y)(i := Idle)\<rparr>)"
| leave_panic: "sy_panic y = None \<Longrightarrow> sy_pc y i = Leaving \<Longrightarrow> popcli (sy_cpu y i) = Panic e \<Longrightarrow>
    lock_step y (y\<lparr>sy_panic := Some e\<rparr>)"

definition lock_boot :: "lock_sys \<Rightarrow> bool" where
  "lock_boot y \<longleftrightarrow> (\<exists>nm pcs. sy_lock y = initlock nm pcs) \<and> sy_panic y = None \<and>
     (\<forall>i. sy_pc y i = Idle \<and> c_ncli (sy_cpu y i) = 0)"

text \<open>The processors between a successful \<^verbatim>\<open>xchg\<close> and the one that frees the lock.\<close>

definition inside :: "lock_pc \<Rightarrow> bool" where
  "inside p \<longleftrightarrow> p = Grabbed \<or> p = Critical \<or> p = Unlocking"

definition holders :: "lock_sys \<Rightarrow> nat set" where
  "holders y = {i. inside (sy_pc y i)}"

definition lock_inv :: "lock_sys \<Rightarrow> bool" where
  "lock_inv y \<longleftrightarrow> sy_panic y = None \<and>
     (if lk_locked (sy_lock y) then \<exists>i. holders y = {i} else holders y = {}) \<and>
     (\<forall>i. lk_cpu (sy_lock y) = Some i \<longleftrightarrow> sy_pc y i = Critical) \<and>
     (\<forall>i. sy_pc y i = Idle \<longrightarrow> c_ncli (sy_cpu y i) = 0) \<and>
     (\<forall>i. sy_pc y i \<noteq> Idle \<longrightarrow> c_ncli (sy_cpu y i) = 1 \<and> \<not> c_if (sy_cpu y i))"

lemma inside_simps [simp]:
  "\<not> inside Idle" "\<not> inside Spinning" "inside Grabbed" "inside Critical" "inside Unlocking" "\<not> inside Leaving"
  by (simp_all add: inside_def)

lemma holders_cong: "sy_pc y' = sy_pc y \<Longrightarrow> holders y' = holders y"
  by (simp add: holders_def)

lemma holders_upd:
  "sy_pc y' = (sy_pc y)(i := p) \<Longrightarrow> holders y' = (if inside p then insert i (holders y) else holders y - {i})"
  by (auto simp: holders_def)

lemma in_holders: "sy_pc y i = p \<Longrightarrow> i \<in> holders y \<longleftrightarrow> inside p"
  by (simp add: holders_def)

lemmas lock_ops = acquire_enter_def acquire_xchg_def acquire_record_def release_enter_def release_xchg_def
  popcli_def pushcli_def holding_def Let_def

lemma lock_boot_inv: "lock_boot y \<Longrightarrow> lock_inv y"
  by (auto simp: lock_boot_def lock_inv_def initlock_def holders_def)

lemma lock_step_inv: "lock_step y y' \<Longrightarrow> lock_inv y \<Longrightarrow> lock_inv y'"
proof (induction rule: lock_step.induct)
  case (flag y i b)
  then show ?case using holders_cong [of "y\<lparr>sy_cpu := (sy_cpu y)(i := (sy_cpu y i)\<lparr>c_if := b\<rparr>)\<rparr>" y]
    by (auto simp: lock_inv_def)
next
  case (enter y i c)
  let ?y = "y\<lparr>sy_cpu := (sy_cpu y)(i := c), sy_pc := (sy_pc y)(i := Spinning)\<rparr>"
  show ?case using enter holders_upd [of ?y y i Spinning] in_holders [OF enter.hyps(2)]
    by (auto simp: lock_inv_def lock_ops split: if_splits)
next
  case (grab y i lk)
  let ?y = "y\<lparr>sy_lock := lk, sy_pc := (sy_pc y)(i := Grabbed)\<rparr>"
  show ?case using grab holders_upd [of ?y y i Grabbed]
    by (auto simp: lock_inv_def lock_ops)
next
  case (spin y i lk)
  then show ?case using holders_cong [of "y\<lparr>sy_lock := lk\<rparr>" y] by (auto simp: lock_inv_def lock_ops)
next
  case (record_owner y i pcs)
  let ?y = "y\<lparr>sy_lock := acquire_record i pcs (sy_lock y), sy_pc := (sy_pc y)(i := Critical)\<rparr>"
  have h: "holders ?y = holders y"
    using holders_upd [of ?y y i Critical] in_holders [OF record_owner.hyps(2)] by auto
  have "holders y = {i}"
    using record_owner.prems in_holders [OF record_owner.hyps(2)] by (auto simp: lock_inv_def split: if_splits)
  then have "sy_pc y j \<noteq> Critical" if "j \<noteq> i" for j
    using that in_holders [of y j Critical] by auto
  then show ?case using record_owner h by (auto simp: lock_inv_def lock_ops)
next
  case (unlock y i lk)
  let ?y = "y\<lparr>sy_lock := lk, sy_pc := (sy_pc y)(i := Unlocking)\<rparr>"
  have "holders ?y = holders y"
    using holders_upd [of ?y y i Unlocking] in_holders [OF unlock.hyps(2)] by auto
  moreover have "sy_pc y j \<noteq> Critical" if "j \<noteq> i" for j
    using unlock.prems unlock.hyps(2) that unfolding lock_inv_def by (metis option.inject)
  ultimately show ?case using unlock by (auto simp: lock_inv_def lock_ops split: if_splits)
next
  case (drop y i)
  let ?y = "y\<lparr>sy_lock := release_xchg (sy_lock y), sy_pc := (sy_pc y)(i := Leaving)\<rparr>"
  show ?case using drop holders_upd [of ?y y i Leaving] in_holders [OF drop.hyps(2)]
    by (auto simp: lock_inv_def lock_ops split: if_splits)
next
  case (leave y i c)
  let ?y = "y\<lparr>sy_cpu := (sy_cpu y)(i := c), sy_pc := (sy_pc y)(i := Idle)\<rparr>"
  show ?case using leave holders_upd [of ?y y i Idle] in_holders [OF leave.hyps(2)]
    by (auto simp: lock_inv_def lock_ops split: if_splits)
next
  case (unlock_panic y i e)
  then show ?case using in_holders [OF unlock_panic.hyps(2)] by (auto simp: lock_inv_def lock_ops split: if_splits)
qed (auto simp: lock_inv_def lock_ops split: if_splits)

lemma lock_reach_inv: "lock_step\<^sup>*\<^sup>* y y' \<Longrightarrow> lock_boot y \<Longrightarrow> lock_inv y'"
  by (induction rule: rtranclp_induct) (auto intro: lock_boot_inv lock_step_inv)

section \<open>Correctness of spin locks\<close>

text \<open>
  C22: From boot, however the processors' steps in \<^verbatim>\<open>acquire\<close> and \<^verbatim>\<open>release\<close> of a lock interleave:
  no call panics; at most one processor is between its successful \<^verbatim>\<open>xchg\<close> and the one that frees
  the lock, and the lock word is set exactly then; \<^verbatim>\<open>holding\<close> is true on the processor in the
  critical section and on no other; and a processor in a call or holding the lock has
  interrupts disabled.
\<close>

theorem lock_mutual_exclusion:
  assumes "lock_boot y0" and "lock_step\<^sup>*\<^sup>* y0 y"
  shows "sy_panic y = None \<and>
    (\<forall>i j. inside (sy_pc y i) \<longrightarrow> inside (sy_pc y j) \<longrightarrow> i = j) \<and>
    (lk_locked (sy_lock y) \<longleftrightarrow> (\<exists>i. inside (sy_pc y i))) \<and>
    (\<forall>i. holding i (sy_lock y) \<longleftrightarrow> sy_pc y i = Critical) \<and>
    (\<forall>i. sy_pc y i \<noteq> Idle \<longrightarrow> \<not> c_if (sy_cpu y i))"
proof -
  have inv: "lock_inv y" by (rule lock_reach_inv [OF assms(2,1)])
  have h: "i \<in> holders y \<longleftrightarrow> inside (sy_pc y i)" for i by (simp add: holders_def)
  have "inside (sy_pc y i) \<Longrightarrow> inside (sy_pc y j) \<Longrightarrow> i = j" for i j
    using inv h [of i] h [of j] by (auto simp: lock_inv_def split: if_splits)
  moreover have l: "lk_locked (sy_lock y) \<longleftrightarrow> (\<exists>i. inside (sy_pc y i))"
    using inv h by (auto simp: lock_inv_def split: if_splits)
  moreover have "holding i (sy_lock y) \<longleftrightarrow> sy_pc y i = Critical" for i
    using inv l unfolding lock_inv_def holding_def by (metis inside_simps(4))
  ultimately show ?thesis using inv unfolding lock_inv_def by blast
qed

definition lock_example :: lock_sys where
  "lock_example = \<lparr>sy_lock = initlock ''kmem'' [], sy_cpu = (\<lambda>i. \<lparr>c_ncli = 0, c_intena = False, c_if = True\<rparr>),
     sy_pc = (\<lambda>i. Idle), sy_panic = None\<rparr>"

theorem lock_mutual_exclusion_witness:
  "\<exists>y. lock_step\<^sup>*\<^sup>* lock_example y \<and> sy_pc y 0 = Grabbed \<and> lk_locked (sy_lock y) \<and> \<not> c_if (sy_cpu y 0)"
proof -
  let ?c = "\<lparr>c_ncli = 1, c_intena = True, c_if = False\<rparr>"
  let ?y1 = "lock_example\<lparr>sy_cpu := (sy_cpu lock_example)(0 := ?c), sy_pc := (sy_pc lock_example)(0 := Spinning)\<rparr>"
  let ?y2 = "?y1\<lparr>sy_lock := (sy_lock ?y1)\<lparr>lk_locked := True\<rparr>, sy_pc := (sy_pc ?y1)(0 := Grabbed)\<rparr>"
  have 1: "lock_step lock_example ?y1"
    by (rule lock_step.enter) (simp_all add: lock_example_def lock_ops initlock_def)
  have 2: "lock_step ?y1 ?y2"
    by (rule lock_step.grab) (simp_all add: lock_example_def lock_ops initlock_def)
  have "lock_step\<^sup>*\<^sup>* lock_example ?y2" using 1 2 by (meson converse_rtranclp_into_rtranclp r_into_rtranclp)
  moreover have "lock_boot lock_example" by (auto simp: lock_boot_def lock_example_def)
  ultimately have "lk_locked (sy_lock ?y2) \<longleftrightarrow> (\<exists>i. inside (sy_pc ?y2 i))"
    "sy_pc ?y2 0 \<noteq> Idle \<longrightarrow> \<not> c_if (sy_cpu ?y2 0)" "lock_step\<^sup>*\<^sup>* lock_example ?y2"
    using lock_mutual_exclusion [of lock_example ?y2] by blast+
  then show ?thesis by (intro exI [of _ ?y2]) auto
qed

end
