(* ===== verification/Xv6_Proc.thy ===== *)
theory Xv6_Proc
  imports Xv6_File Xv6_Spinlock Xv6_Vm
begin

text \<open>
  Processes (proc.c, with \<^verbatim>\<open>switchuvm\<close> of vm.c). A pointer to a process is its index in
  \<^verbatim>\<open>ptable.proc\<close>; \<open>me\<close> is the current process \<^verbatim>\<open>proc\<close>. The trap frame and the saved
  context live in the kernel stack page, at the addresses the code computes; \<open>forkret\<close>
  and \<open>trapret\<close> are the addresses of these entry points. An operation that gives up the
  processor is modelled up to its call of \<^verbatim>\<open>swtch\<close>; what it does when it runs again is
  an operation of its own.
\<close>

unbundle bit_operations_syntax

abbreviation NPROC :: nat where "NPROC \<equiv> 64"
abbreviation NOFILE :: nat where "NOFILE \<equiv> 16"
abbreviation KSTACKSIZE :: nat where "KSTACKSIZE \<equiv> 4096"

text \<open>Offsets of the fields of a trap frame (x86.h) and its size; a context has 20 bytes.\<close>

abbreviation TF_SIZE :: nat where "TF_SIZE \<equiv> 76"
abbreviation TF_EAX :: nat where "TF_EAX \<equiv> 28"
abbreviation TF_ES :: nat where "TF_ES \<equiv> 40"
abbreviation TF_DS :: nat where "TF_DS \<equiv> 44"
abbreviation TF_TRAPNO :: nat where "TF_TRAPNO \<equiv> 48"
abbreviation TF_EIP :: nat where "TF_EIP \<equiv> 56"
abbreviation TF_CS :: nat where "TF_CS \<equiv> 60"
abbreviation TF_EFLAGS :: nat where "TF_EFLAGS \<equiv> 64"
abbreviation TF_ESP :: nat where "TF_ESP \<equiv> 68"
abbreviation TF_SS :: nat where "TF_SS \<equiv> 72"

section \<open>Data\<close>

datatype procstate = UNUSED | EMBRYO | SLEEPING | RUNNABLE | RUNNING | ZOMBIE

record proc =
  p_sz :: nat
  p_pgdir :: nat
  p_kstack :: nat
  p_state :: procstate
  p_pid :: int
  p_parent :: "nat option"
  p_tf :: nat
  p_context :: nat
  p_chan :: nat
  p_killed :: bool
  p_ofile :: "nat \<Rightarrow> nat option"
  p_cwd :: nat
  p_name :: "u8 list"

record kproc = kern +
  pt :: "nat \<Rightarrow> proc"
  pt_lock :: spinlock
  pt_initproc :: nat
  pt_nextpid :: int
  kp_id :: nat
  kp_cpu :: cpu
  kp_esp0 :: nat

definition set_proc :: "nat \<Rightarrow> proc \<Rightarrow> 'a kproc_scheme \<Rightarrow> 'a kproc_scheme" where
  "set_proc p v k = k\<lparr>pt := (pt k)(p := v)\<rparr>"

text \<open>Stores into kernel memory.\<close>

definition poke :: "(mem \<Rightarrow> mem) \<Rightarrow> 'a kern_scheme \<Rightarrow> 'a kern_scheme" where
  "poke f k = k\<lparr>kn_vm := (kn_vm k)\<lparr>k_mem := f (k_mem (kn_vm k))\<rparr>\<rparr>"

definition tf_get :: "nat \<Rightarrow> nat \<Rightarrow> 'a kproc_scheme \<Rightarrow> nat" where
  "tf_get p off k = ld32 (k_mem (kn_vm k)) (p_tf (pt k p) + off)"

definition tf_put :: "nat \<Rightarrow> nat \<Rightarrow> nat \<Rightarrow> 'a kproc_scheme \<Rightarrow> 'a kproc_scheme" where
  "tf_put p off v k = poke (\<lambda>m. st32 m (p_tf (pt k p) + off) v) k"

definition kernel_kalloc :: "'a kproc_scheme \<Rightarrow> nat \<times> 'a kproc_scheme" where
  "kernel_kalloc k = (let (p, s) = kalloc (kn_vm k) in (p, k\<lparr>kn_vm := s\<rparr>))"

section \<open>The process table lock\<close>

definition ptable_acquire :: "'a kproc_scheme \<Rightarrow> 'a kproc_scheme outcome" where
  "ptable_acquire k =
     andthen (acquire (kp_id k) (replicate 10 0) (pt_lock k, kp_cpu k)) (\<lambda>(lk, c).
       Ok (k\<lparr>pt_lock := lk, kp_cpu := c\<rparr>))"

definition ptable_release :: "'a kproc_scheme \<Rightarrow> 'a kproc_scheme outcome" where
  "ptable_release k =
     andthen (release (kp_id k) (pt_lock k, kp_cpu k)) (\<lambda>(lk, c). Ok (k\<lparr>pt_lock := lk, kp_cpu := c\<rparr>))"

definition pinit :: "'a kproc_scheme \<Rightarrow> 'a kproc_scheme" where
  "pinit k = k\<lparr>pt_lock := initlock ''ptable'' (lk_pcs (pt_lock k))\<rparr>"

section \<open>Creating processes\<close>

text \<open>The kernel stack of a new process: trap frame, return address, zeroed context.\<close>

definition new_stack :: "nat \<Rightarrow> nat \<Rightarrow> nat \<Rightarrow> 'a kproc_scheme \<Rightarrow> 'a kproc_scheme" where
  "new_stack forkret trapret p k =
     (let sp = p_kstack (pt k p) + KSTACKSIZE - TF_SIZE;
          k = set_proc p ((pt k p)\<lparr>p_tf := sp\<rparr>) k;
          sp = sp - 4; k = poke (\<lambda>m. st32 m sp trapret) k;
          sp = sp - 20;
          k = set_proc p ((pt k p)\<lparr>p_context := sp\<rparr>) k
      in poke (\<lambda>m. st32 (memset m sp 0 20) (sp + 16) forkret) k)"

definition allocproc :: "nat \<Rightarrow> nat \<Rightarrow> 'a kproc_scheme \<Rightarrow> (nat option \<times> 'a kproc_scheme) outcome" where
  "allocproc forkret trapret k =
     andthen (ptable_acquire k) (\<lambda>k.
       case find (\<lambda>p. p_state (pt k p) = UNUSED) [0..<NPROC] of
         None \<Rightarrow> andthen (ptable_release k) (\<lambda>k. Ok (None, k))
       | Some p \<Rightarrow>
           let k = set_proc p ((pt k p)\<lparr>p_state := EMBRYO, p_pid := pt_nextpid k\<rparr>) k;
               k = k\<lparr>pt_nextpid := pt_nextpid k + 1\<rparr>
           in andthen (ptable_release k) (\<lambda>k.
              let (st, k) = kernel_kalloc k; k = set_proc p ((pt k p)\<lparr>p_kstack := st\<rparr>) k in
              if st = 0 then Ok (None, set_proc p ((pt k p)\<lparr>p_state := UNUSED\<rparr>) k)
              else Ok (Some p, new_stack forkret trapret p k)))"

text \<open>\<open>str_to_name\<close> is \<^verbatim>\<open>safestrcpy\<close> into the 16 bytes of \<^verbatim>\<open>p->name\<close>: at most 15 characters.\<close>

definition str_to_name :: "u8 list \<Rightarrow> u8 list" where
  "str_to_name xs = take 15 xs"

text \<open>\<open>init\<close> and \<open>initsz\<close> are the address and size of the linked-in \<^verbatim>\<open>initcode\<close>.\<close>

definition userinit :: "nat \<Rightarrow> nat \<Rightarrow> nat \<Rightarrow> nat \<Rightarrow> nat \<Rightarrow>
    (dd_state \<Rightarrow> (nat option \<times> dd_state) outcome) \<Rightarrow> 'a kproc_scheme \<Rightarrow> 'a kproc_scheme outcome" where
  "userinit forkret trapret kdata init initsz root k =
     andthen (allocproc forkret trapret k) (\<lambda>(r, k).
       case r of None \<Rightarrow> Undef
       | Some p \<Rightarrow>
         let k = k\<lparr>pt_initproc := p\<rparr> in
         andthen (vm_do (setupkvm kdata) k) (\<lambda>(pgdir, k).
           let k = set_proc p ((pt k p)\<lparr>p_pgdir := pgdir\<rparr>) k in
           if pgdir = 0 then Panic ''userinit: out of memory?''
           else andthen (vm_run (inituvm pgdir init initsz) k) (\<lambda>k.
             let k = set_proc p ((pt k p)\<lparr>p_sz := PGSIZE\<rparr>) k;
                 k = poke (\<lambda>m. memset m (p_tf (pt k p)) 0 TF_SIZE) k;
                 k = tf_put p TF_CS 35 k; k = tf_put p TF_DS 43 k; k = tf_put p TF_ES 43 k;
                 k = tf_put p TF_SS 43 k; k = tf_put p TF_EFLAGS 0x200 k;
                 k = tf_put p TF_ESP PGSIZE k; k = tf_put p TF_EIP 0 k;
                 k = set_proc p ((pt k p)\<lparr>p_name := [105, 110, 105, 116, 99, 111, 100, 101]\<rparr>) k
             in andthen (fs_do root k) (\<lambda>(cwd, k).
                case cwd of None \<Rightarrow> Undef
                | Some ip \<Rightarrow> Ok (set_proc p ((pt k p)\<lparr>p_cwd := ip, p_state := RUNNABLE\<rparr>) k)))))"

text \<open>\<^verbatim>\<open>switchuvm\<close> (vm.c); the segment descriptor of the task state is left out.\<close>

definition switchuvm :: "nat \<Rightarrow> nat \<Rightarrow> 'a kproc_scheme \<Rightarrow> 'a kproc_scheme outcome" where
  "switchuvm me p k =
     (let k = k\<lparr>kp_cpu := pushcli (kp_cpu k), kp_esp0 := p_kstack (pt k me) + KSTACKSIZE\<rparr> in
      if p_pgdir (pt k p) = 0 then Panic ''switchuvm: no pgdir''
      else let k = k\<lparr>kn_vm := (kn_vm k)\<lparr>v_cr3 := v2p (p_pgdir (pt k p))\<rparr>\<rparr>
           in andthen (popcli (kp_cpu k)) (\<lambda>c. Ok (k\<lparr>kp_cpu := c\<rparr>)))"

definition growproc :: "nat \<Rightarrow> nat \<Rightarrow> int \<Rightarrow> 'a kproc_scheme \<Rightarrow> (int \<times> 'a kproc_scheme) outcome" where
  "growproc kend me n k =
     (let sz = p_sz (pt k me); newsz = w32 (sz + of_int32 n); pgdir = p_pgdir (pt k me) in
      andthen
        (if 0 < n then vm_do (allocuvm kend pgdir sz newsz) k
         else if n < 0 then vm_do (deallocuvm kend pgdir sz newsz) k
         else Ok (sz, k)) (\<lambda>(sz, k).
        if n \<noteq> 0 \<and> sz = 0 then Ok (-1, k)
        else andthen (switchuvm me me (set_proc me ((pt k me)\<lparr>p_sz := sz\<rparr>) k)) (\<lambda>k. Ok (0, k))))"

definition dup_files :: "nat \<Rightarrow> nat \<Rightarrow> 'a kproc_scheme \<Rightarrow> 'a kproc_scheme outcome" where
  "dup_files me np = for_each (\<lambda>i k.
     case p_ofile (pt k me) i of
       None \<Rightarrow> Ok k
     | Some f \<Rightarrow> andthen (filedup f k) (\<lambda>k.
         Ok (set_proc np ((pt k np)\<lparr>p_ofile := (p_ofile (pt k np))(i := Some f)\<rparr>) k))) [0..<NOFILE]"

definition fork :: "nat \<Rightarrow> nat \<Rightarrow> nat \<Rightarrow> nat \<Rightarrow> nat \<Rightarrow> 'a kproc_scheme \<Rightarrow> (int \<times> 'a kproc_scheme) outcome" where
  "fork kend kdata forkret trapret me k =
     andthen (allocproc forkret trapret k) (\<lambda>(r, k).
       case r of None \<Rightarrow> Ok (-1, k)
       | Some np \<Rightarrow>
         andthen (vm_do (copyuvm kend kdata (p_pgdir (pt k me)) (p_sz (pt k me))) k) (\<lambda>(d, k).
           let k = set_proc np ((pt k np)\<lparr>p_pgdir := d\<rparr>) k in
           if d = 0 then
             andthen (vm_run (kfree kend (p_kstack (pt k np))) k) (\<lambda>k.
               Ok (-1, set_proc np ((pt k np)\<lparr>p_kstack := 0, p_state := UNUSED\<rparr>) k))
           else
             let k = set_proc np ((pt k np)\<lparr>p_sz := p_sz (pt k me), p_parent := Some me\<rparr>) k;
                 k = poke (\<lambda>m. memmove m (p_tf (pt k np)) (p_tf (pt k me)) TF_SIZE) k;
                 k = tf_put np TF_EAX 0 k
             in andthen (dup_files me np k) (\<lambda>k.
                let k = k\<lparr>kn_fs := idup (p_cwd (pt k me)) (kn_fs k)\<rparr>;
                    k = set_proc np ((pt k np)\<lparr>p_cwd := p_cwd (pt k me)\<rparr>) k;
                    pid = p_pid (pt k np)
                in Ok (pid, set_proc np ((pt k np)\<lparr>p_state := RUNNABLE,
                     p_name := str_to_name (p_name (pt k me))\<rparr>) k))))"

section \<open>Giving up the processor\<close>

definition sched :: "nat \<Rightarrow> 'a kproc_scheme \<Rightarrow> 'a kproc_scheme outcome" where
  "sched me k =
     (if \<not> holding (kp_id k) (pt_lock k) then Panic ''sched ptable.lock''
      else if c_ncli (kp_cpu k) \<noteq> 1 then Panic ''sched locks''
      else if p_state (pt k me) = RUNNING then Panic ''sched running''
      else if c_if (kp_cpu k) then Panic ''sched interruptible''
      else Ok k)"

definition wakeup1 :: "nat \<Rightarrow> 'a kproc_scheme \<Rightarrow> 'a kproc_scheme" where
  "wakeup1 chan k = k\<lparr>pt := (\<lambda>p. if p < NPROC \<and> p_state (pt k p) = SLEEPING \<and> p_chan (pt k p) = chan
     then (pt k p)\<lparr>p_state := RUNNABLE\<rparr> else pt k p)\<rparr>"

definition wakeup :: "nat \<Rightarrow> 'a kproc_scheme \<Rightarrow> 'a kproc_scheme outcome" where
  "wakeup chan k = andthen (ptable_acquire k) (\<lambda>k. ptable_release (wakeup1 chan k))"

definition yield :: "nat \<Rightarrow> 'a kproc_scheme \<Rightarrow> 'a kproc_scheme outcome" where
  "yield me k =
     andthen (ptable_acquire k) (\<lambda>k. sched me (set_proc me ((pt k me)\<lparr>p_state := RUNNABLE\<rparr>) k))"

text \<open>
  \<^verbatim>\<open>sleep\<close> with a lock \<open>lk\<close> other than \<^verbatim>\<open>ptable.lock\<close>: the result is the released lock and the
  state at the switch; \<open>wake_sleep\<close> is the rest, when the process runs again.
\<close>

definition sleep :: "nat \<Rightarrow> nat \<Rightarrow> spinlock \<Rightarrow> 'a kproc_scheme \<Rightarrow> (spinlock \<times> 'a kproc_scheme) outcome" where
  "sleep me chan lk k =
     andthen (ptable_acquire k) (\<lambda>k.
     andthen (release (kp_id k) (lk, kp_cpu k)) (\<lambda>(lk, c).
       let k = k\<lparr>kp_cpu := c\<rparr>;
           k = set_proc me ((pt k me)\<lparr>p_chan := chan, p_state := SLEEPING\<rparr>) k
       in andthen (sched me k) (\<lambda>k. Ok (lk, k))))"

definition wake_sleep :: "nat \<Rightarrow> spinlock \<Rightarrow> 'a kproc_scheme \<Rightarrow> (spinlock \<times> 'a kproc_scheme) outcome" where
  "wake_sleep me lk k =
     (let k = set_proc me ((pt k me)\<lparr>p_chan := 0\<rparr>) k in
      andthen (ptable_release k) (\<lambda>k.
      andthen (acquire (kp_id k) (replicate 10 0) (lk, kp_cpu k)) (\<lambda>(lk, c).
        Ok (lk, k\<lparr>kp_cpu := c\<rparr>))))"

text \<open>One choice of the scheduler, which holds \<^verbatim>\<open>ptable.lock\<close>: the first runnable process from \<open>i\<close> on.\<close>

definition scheduler_pick :: "nat \<Rightarrow> 'a kproc_scheme \<Rightarrow> (nat option \<times> 'a kproc_scheme) outcome" where
  "scheduler_pick i k =
     (case find (\<lambda>p. p_state (pt k p) = RUNNABLE) [i..<NPROC] of
        None \<Rightarrow> Ok (None, k)
      | Some p \<Rightarrow> andthen (switchuvm p p k) (\<lambda>k.
          Ok (Some p, set_proc p ((pt k p)\<lparr>p_state := RUNNING\<rparr>) k)))"

text \<open>\<^verbatim>\<open>forkret\<close>: \<open>first\<close> is its static flag, \<open>initlog\<close> runs on the first call.\<close>

definition forkret_run :: "(dd_state \<Rightarrow> dd_state outcome) \<Rightarrow> bool \<Rightarrow> 'a kproc_scheme \<Rightarrow>
    (bool \<times> 'a kproc_scheme) outcome" where
  "forkret_run init first k =
     andthen (ptable_release k) (\<lambda>k.
       if first then andthen (fs_run init k) (\<lambda>k. Ok (False, k)) else Ok (first, k))"

section \<open>Ending processes\<close>

definition close_files :: "nat \<Rightarrow> nat \<Rightarrow> 'a kproc_scheme \<Rightarrow> 'a kproc_scheme outcome" where
  "close_files kend me = for_each (\<lambda>fd k.
     case p_ofile (pt k me) fd of
       None \<Rightarrow> Ok k
     | Some f \<Rightarrow> andthen (fileclose kend f k) (\<lambda>k.
         Ok (set_proc me ((pt k me)\<lparr>p_ofile := (p_ofile (pt k me))(fd := None)\<rparr>) k))) [0..<NOFILE]"

text \<open>The address of a process is the channel its \<^verbatim>\<open>wait\<close> sleeps on; \<open>paddr\<close> gives it.\<close>

definition reparent :: "(nat \<Rightarrow> nat) \<Rightarrow> nat \<Rightarrow> 'a kproc_scheme \<Rightarrow> 'a kproc_scheme" where
  "reparent paddr me = fold (\<lambda>p k.
     if p_parent (pt k p) = Some me then
       let k = set_proc p ((pt k p)\<lparr>p_parent := Some (pt_initproc k)\<rparr>) k
       in if p_state (pt k p) = ZOMBIE then wakeup1 (paddr (pt_initproc k)) k else k
     else k) [0..<NPROC]"

definition exit :: "nat \<Rightarrow> (nat \<Rightarrow> nat) \<Rightarrow> nat \<Rightarrow> 'a kproc_scheme \<Rightarrow> 'a kproc_scheme outcome" where
  "exit kend paddr me k =
     (if me = pt_initproc k then Panic ''init exiting''
      else andthen (close_files kend me k) (\<lambda>k.
        andthen (fs_run (iput (p_cwd (pt k me))) k) (\<lambda>k.
        andthen (ptable_acquire k) (\<lambda>k.
          let k = (case p_parent (pt k me) of Some pp \<Rightarrow> wakeup1 (paddr pp) k | None \<Rightarrow> wakeup1 0 k);
              k = reparent paddr me k
          in sched me (set_proc me ((pt k me)\<lparr>p_state := ZOMBIE\<rparr>) k)))))"

text \<open>
  One round of the loop of \<^verbatim>\<open>wait\<close> with \<^verbatim>\<open>ptable.lock\<close> held: the scan stops at the first zombie
  child. The result is done, or sleeping on the process's own address.
\<close>

definition reap :: "nat \<Rightarrow> nat \<Rightarrow> 'a kproc_scheme \<Rightarrow> (int \<times> 'a kproc_scheme) outcome" where
  "reap kend p k =
     (let pid = p_pid (pt k p) in
      andthen (vm_run (kfree kend (p_kstack (pt k p))) k) (\<lambda>k.
      let k = set_proc p ((pt k p)\<lparr>p_kstack := 0\<rparr>) k in
      andthen (vm_run (freevm kend (p_pgdir (pt k p))) k) (\<lambda>k.
      let k = set_proc p ((pt k p)\<lparr>p_state := UNUSED, p_pid := 0, p_parent := None, p_name := [], p_killed := False\<rparr>) k
      in andthen (ptable_release k) (\<lambda>k. Ok (pid, k)))))"

definition wait_round :: "nat \<Rightarrow> (nat \<Rightarrow> nat) \<Rightarrow> nat \<Rightarrow> 'a kproc_scheme \<Rightarrow> (int pipe_call \<times> 'a kproc_scheme) outcome" where
  "wait_round kend paddr me k =
     (case find (\<lambda>p. p_parent (pt k p) = Some me \<and> p_state (pt k p) = ZOMBIE) [0..<NPROC] of
        Some p \<Rightarrow> andthen (reap kend p k) (\<lambda>(pid, k). Ok (Done pid, k))
      | None \<Rightarrow>
          if \<not> list_ex (\<lambda>p. p_parent (pt k p) = Some me) [0..<NPROC] \<or> p_killed (pt k me)
          then andthen (ptable_release k) (\<lambda>k. Ok (Done (-1), k))
          else andthen (sched me (set_proc me ((pt k me)\<lparr>p_chan := paddr me, p_state := SLEEPING\<rparr>) k)) (\<lambda>k.
            Ok (Sleeping 0, k)))"

definition wait :: "nat \<Rightarrow> (nat \<Rightarrow> nat) \<Rightarrow> nat \<Rightarrow> 'a kproc_scheme \<Rightarrow> (int pipe_call \<times> 'a kproc_scheme) outcome" where
  "wait kend paddr me k = andthen (ptable_acquire k) (wait_round kend paddr me)"

definition kill :: "int \<Rightarrow> 'a kproc_scheme \<Rightarrow> (int \<times> 'a kproc_scheme) outcome" where
  "kill pid k =
     andthen (ptable_acquire k) (\<lambda>k.
       case find (\<lambda>p. p_pid (pt k p) = pid) [0..<NPROC] of
         Some p \<Rightarrow>
           let k = set_proc p ((pt k p)\<lparr>p_killed := True,
                 p_state := (if p_state (pt k p) = SLEEPING then RUNNABLE else p_state (pt k p))\<rparr>) k
           in andthen (ptable_release k) (\<lambda>k. Ok (0, k))
       | None \<Rightarrow> andthen (ptable_release k) (\<lambda>k. Ok (-1, k)))"

text \<open>\<^verbatim>\<open>register_handler\<close>: push the user's \<^verbatim>\<open>eip\<close> and continue at the handler.\<close>

definition register_handler :: "nat \<Rightarrow> nat \<Rightarrow> 'a kproc_scheme \<Rightarrow> 'a kproc_scheme outcome" where
  "register_handler me sighandler k =
     andthen (uva2ka (p_pgdir (pt k me)) (tf_get me TF_ESP k) (kn_vm k)) (\<lambda>addr.
       if tf_get me TF_ESP k AND 0xFFF = 0 then Panic ''esp_offset == 0''
       else let esp = tf_get me TF_ESP k;
                k = poke (\<lambda>m. st32 m (addr + (w32 (esp + 4294967292) AND 0xFFF)) (tf_get me TF_EIP k)) k;
                k = tf_put me TF_ESP (w32 (esp + 4294967292)) k
            in Ok (tf_put me TF_EIP sighandler k))"

end
