(* ===== verification/Xv6_Dir.thy ===== *)
theory Xv6_Dir
  imports Xv6_Inode Xv6_String
begin

text \<open>
  Directories and path names (fs.c). A directory is a file of 16-byte entries; a path
  is the list of its bytes without the terminating zero. Looking up a name returns the
  inode and the offset of its entry.
\<close>

abbreviation DIRSIZ :: nat where "DIRSIZ \<equiv> 14"
abbreviation ROOTINO :: nat where "ROOTINO \<equiv> 1"
abbreviation SLASH :: u8 where "SLASH \<equiv> 47"

section \<open>Directory entries\<close>

definition de_inum :: "u8 list \<Rightarrow> nat" where
  "de_inum de = get16 de 0"

definition de_name :: "u8 list \<Rightarrow> u8 list" where
  "de_name de = take DIRSIZ (drop 2 de)"

text \<open>The entry that \<^verbatim>\<open>strncpy(de.name, name, DIRSIZ); de.inum = inum\<close> makes.\<close>

definition mk_dirent :: "nat \<Rightarrow> u8 list \<Rightarrow> u8 list" where
  "mk_dirent inum name =
     [of_nat inum, of_nat (inum div 256)] @ take DIRSIZ name @ replicate (DIRSIZ - length name) 0"

definition namecmp :: "u8 list \<Rightarrow> u8 list \<Rightarrow> int" where
  "namecmp s t = strncmp (cstr s) (cstr t) DIRSIZ"

section \<open>Operations on directories\<close>

text \<open>The scan of \<^verbatim>\<open>dirlookup\<close>; \<open>sz\<close> is \<^verbatim>\<open>dp->size\<close>, which reading does not change.\<close>

function dirlookup_from :: "(int \<Rightarrow> 'a ino_state_scheme dev_read option) \<Rightarrow> nat \<Rightarrow> u8 list \<Rightarrow> nat \<Rightarrow> nat \<Rightarrow>
    'a ino_state_scheme \<Rightarrow> ((nat \<times> nat) option \<times> 'a ino_state_scheme) outcome" where
  "dirlookup_from devsw dp name sz off s =
     (if off < sz then
        andthen (readi devsw dp off 16 s) (\<lambda>((r, de), s).
          if r \<noteq> 16 then Panic ''dirlink read''
          else if de_inum de = 0 then dirlookup_from devsw dp name sz (off + 16) s
          else if namecmp name (de_name de) = 0 then
            andthen (iget (i_dev (icache s dp)) (de_inum de) s) (\<lambda>(ip, s). Ok (Some (ip, off), s))
          else dirlookup_from devsw dp name sz (off + 16) s)
      else Ok (None, s))"
  by pat_completeness auto

termination
  by (relation "measure (\<lambda>(devsw, dp, name, sz, off, s). sz - off)") auto

definition dirlookup :: "(int \<Rightarrow> 'a ino_state_scheme dev_read option) \<Rightarrow> nat \<Rightarrow> u8 list \<Rightarrow>
    'a ino_state_scheme \<Rightarrow> ((nat \<times> nat) option \<times> 'a ino_state_scheme) outcome" where
  "dirlookup devsw dp name s =
     (if i_type (icache s dp) \<noteq> T_DIR then Panic ''dirlookup not DIR''
      else dirlookup_from devsw dp name (i_size (icache s dp)) 0 s)"

function dirlink_slot :: "(int \<Rightarrow> 'a ino_state_scheme dev_read option) \<Rightarrow> nat \<Rightarrow> nat \<Rightarrow> nat \<Rightarrow>
    'a ino_state_scheme \<Rightarrow> (nat \<times> 'a ino_state_scheme) outcome" where
  "dirlink_slot devsw dp sz off s =
     (if off < sz then
        andthen (readi devsw dp off 16 s) (\<lambda>((r, de), s).
          if r \<noteq> 16 then Panic ''dirlink read''
          else if de_inum de = 0 then Ok (off, s)
          else dirlink_slot devsw dp sz (off + 16) s)
      else Ok (off, s))"
  by pat_completeness auto

termination
  by (relation "measure (\<lambda>(devsw, dp, sz, off, s). sz - off)") auto

definition dirlink :: "(int \<Rightarrow> 'a ino_state_scheme dev_read option) \<Rightarrow>
    (int \<Rightarrow> 'a ino_state_scheme dev_write option) \<Rightarrow> nat \<Rightarrow> u8 list \<Rightarrow> nat \<Rightarrow>
    'a ino_state_scheme \<Rightarrow> (int \<times> 'a ino_state_scheme) outcome" where
  "dirlink devr devw dp name inum s =
     andthen (dirlookup devr dp name s) (\<lambda>(r, s).
       case r of
         Some (ip, off) \<Rightarrow> andthen (iput ip s) (\<lambda>s. Ok (-1, s))
       | None \<Rightarrow>
           andthen (dirlink_slot devr dp (i_size (icache s dp)) 0 s) (\<lambda>(off, s).
           andthen (writei devw dp (mk_dirent inum name) off s) (\<lambda>(r, s).
             if r \<noteq> 16 then Panic ''dirlink'' else Ok (0, s))))"

section \<open>Paths\<close>

definition skipelem :: "u8 list \<Rightarrow> (u8 list \<times> u8 list) option" where
  "skipelem path =
     (let p = dropWhile (\<lambda>c. c = SLASH) path in
      if p = [] then None
      else let name = takeWhile (\<lambda>c. c \<noteq> SLASH) p;
               rest = dropWhile (\<lambda>c. c \<noteq> SLASH) p
           in Some (dropWhile (\<lambda>c. c = SLASH) rest, take DIRSIZ name))"

lemma skipelem_shorter: "skipelem path = Some (rest, name) \<Longrightarrow> length rest < length path"
proof -
  assume a: "skipelem path = Some (rest, name)"
  let ?p = "dropWhile (\<lambda>c. c = SLASH) path"
  have p: "?p \<noteq> []" and r: "rest = dropWhile (\<lambda>c. c = SLASH) (dropWhile (\<lambda>c. c \<noteq> SLASH) ?p)"
    using a by (auto simp: skipelem_def Let_def split: if_splits)
  obtain c q where q: "?p = c # q" using p by (cases ?p) auto
  then have "c \<noteq> SLASH" using hd_dropWhile [of "\<lambda>c. c = SLASH" path] by force
  then have "length rest \<le> length q"
    unfolding r q using length_dropWhile_le [of "\<lambda>c. c = SLASH" "dropWhile (\<lambda>c. c \<noteq> SLASH) q"]
      length_dropWhile_le [of "\<lambda>c. c \<noteq> SLASH" q] by simp
  moreover have "length q < length path"
    using length_dropWhile_le [of "\<lambda>c. c = SLASH" path] q by simp
  ultimately show ?thesis by simp
qed

text \<open>
  The walk of \<^verbatim>\<open>namex\<close>. The result is the inode (or none) and, for \<^verbatim>\<open>nameiparent\<close>, the
  last path element. \<open>cwd\<close> is the current directory of the calling process.
\<close>

function namex_walk :: "(int \<Rightarrow> 'a ino_state_scheme dev_read option) \<Rightarrow> nat \<Rightarrow> u8 list \<Rightarrow> bool \<Rightarrow> u8 list \<Rightarrow>
    'a ino_state_scheme \<Rightarrow> ((nat \<times> u8 list) option \<times> 'a ino_state_scheme) outcome" where
  "namex_walk devsw ip path parent name s =
     (case skipelem path of
        Some (path', name) \<Rightarrow>
          andthen (ilock ip s) (\<lambda>s.
            if i_type (icache s ip) \<noteq> T_DIR then andthen (iunlockput ip s) (\<lambda>s. Ok (None, s))
            else if parent \<and> path' = [] then andthen (iunlock ip s) (\<lambda>s. Ok (Some (ip, name), s))
            else andthen (dirlookup devsw ip name s) (\<lambda>(r, s).
              case r of
                None \<Rightarrow> andthen (iunlockput ip s) (\<lambda>s. Ok (None, s))
              | Some (next, off) \<Rightarrow> andthen (iunlockput ip s) (\<lambda>s.
                  namex_walk devsw next path' parent name s)))
      | None \<Rightarrow>
          if parent then andthen (iput ip s) (\<lambda>s. Ok (None, s)) else Ok (Some (ip, name), s))"
  by pat_completeness auto

termination
  by (relation "measure (\<lambda>(devsw, ip, path, parent, name, s). length path)")
    (auto dest: skipelem_shorter)

definition namex :: "(int \<Rightarrow> 'a ino_state_scheme dev_read option) \<Rightarrow> nat \<Rightarrow> u8 list \<Rightarrow> bool \<Rightarrow>
    'a ino_state_scheme \<Rightarrow> ((nat \<times> u8 list) option \<times> 'a ino_state_scheme) outcome" where
  "namex devsw cwd path parent s =
     andthen (if path \<noteq> [] \<and> hd path = SLASH then iget ROOTDEV ROOTINO s else Ok (cwd, idup cwd s))
       (\<lambda>(ip, s). namex_walk devsw ip path parent [] s)"

definition namei :: "(int \<Rightarrow> 'a ino_state_scheme dev_read option) \<Rightarrow> nat \<Rightarrow> u8 list \<Rightarrow>
    'a ino_state_scheme \<Rightarrow> (nat option \<times> 'a ino_state_scheme) outcome" where
  "namei devsw cwd path s =
     andthen (namex devsw cwd path False s) (\<lambda>(r, s). Ok (map_option fst r, s))"

definition nameiparent :: "(int \<Rightarrow> 'a ino_state_scheme dev_read option) \<Rightarrow> nat \<Rightarrow> u8 list \<Rightarrow>
    'a ino_state_scheme \<Rightarrow> ((nat \<times> u8 list) option \<times> 'a ino_state_scheme) outcome" where
  "nameiparent devsw cwd path s = namex devsw cwd path True s"

declare dirlookup_from.simps [simp del]
declare dirlink_slot.simps [simp del]
declare namex_walk.simps [simp del]

section \<open>Path elements\<close>

text \<open>The elements that a walk visits, by repeated \<^verbatim>\<open>skipelem\<close>.\<close>

function path_elems :: "u8 list \<Rightarrow> u8 list list" where
  "path_elems path =
     (case skipelem path of None \<Rightarrow> [] | Some (rest, name) \<Rightarrow> name # path_elems rest)"
  by pat_completeness auto

termination
  by (relation "measure length") (auto dest: skipelem_shorter)

declare path_elems.simps [simp del]

text \<open>The reference: the path cut at every slash.\<close>

fun split_slash :: "u8 list \<Rightarrow> u8 list list" where
  "split_slash [] = [[]]"
| "split_slash (c # cs) =
     (if c = SLASH then [] # split_slash cs
      else (case split_slash cs of [] \<Rightarrow> [[c]] | w # ws \<Rightarrow> (c # w) # ws))"

lemma split_slash_neq_Nil [simp]: "split_slash p \<noteq> []"
  by (induction p) (auto split: list.splits)

lemma split_slash_cut:
  "split_slash p = takeWhile (\<lambda>c. c \<noteq> SLASH) p #
    (case dropWhile (\<lambda>c. c \<noteq> SLASH) p of [] \<Rightarrow> [] | c # r \<Rightarrow> split_slash r)"
  by (induction p) auto

lemma split_slash_rest:
  "filter (\<lambda>w. w \<noteq> []) (case dropWhile (\<lambda>c. c \<noteq> SLASH) p of [] \<Rightarrow> [] | c # r \<Rightarrow> split_slash r) =
   filter (\<lambda>w. w \<noteq> []) (split_slash (dropWhile (\<lambda>c. c \<noteq> SLASH) p))"
proof (cases "dropWhile (\<lambda>c. c \<noteq> SLASH) p")
  case (Cons c r)
  then have "c = SLASH" using hd_dropWhile [of "\<lambda>c. c \<noteq> SLASH" p] by simp
  then show ?thesis unfolding Cons by simp
next
  case Nil
  show ?thesis unfolding Nil by simp
qed

lemma split_slash_skip:
  "filter (\<lambda>w. w \<noteq> []) (split_slash (dropWhile (\<lambda>c. c = SLASH) p)) =
   filter (\<lambda>w. w \<noteq> []) (split_slash p)"
  by (induction p) auto

text \<open>
  C16: a path is walked element by element: the names that \<^verbatim>\<open>skipelem\<close> delivers until it
  returns null are the nonempty pieces of the path between slashes, in order, each cut
  to DIRSIZ bytes. In particular the walk ends.
\<close>

theorem skipelem_walks_path:
  "path_elems path = map (take DIRSIZ) (filter (\<lambda>w. w \<noteq> []) (split_slash path))"
proof (induction path rule: path_elems.induct)
  case (1 path)
  let ?p = "dropWhile (\<lambda>c. c = SLASH) path"
  let ?e = "takeWhile (\<lambda>c. c \<noteq> SLASH) ?p" and ?q = "dropWhile (\<lambda>c. c \<noteq> SLASH) ?p"
  have f: "filter (\<lambda>w. w \<noteq> []) (split_slash path) = filter (\<lambda>w. w \<noteq> []) (split_slash ?p)"
    by (simp add: split_slash_skip)
  show ?case
  proof (cases "?p = []")
    case True
    then have "skipelem path = None" by (simp only: skipelem_def Let_def simp_thms if_True)
    then show ?thesis using f True by (simp add: path_elems.simps)
  next
    case False
    then have sk: "skipelem path = Some (dropWhile (\<lambda>c. c = SLASH) ?q, take DIRSIZ ?e)"
      by (simp only: skipelem_def Let_def if_False)
    have "hd ?p \<noteq> SLASH" using hd_dropWhile [OF False] .
    then have ne: "?e \<noteq> []" using False by (cases ?p) auto
    have "filter (\<lambda>w. w \<noteq> []) (split_slash ?p) = ?e # filter (\<lambda>w. w \<noteq> []) (split_slash ?q)"
      by (subst split_slash_cut) (simp only: filter.simps ne simp_thms if_True split_slash_rest)
    then have "map (take DIRSIZ) (filter (\<lambda>w. w \<noteq> []) (split_slash path)) =
        take DIRSIZ ?e # map (take DIRSIZ) (filter (\<lambda>w. w \<noteq> []) (split_slash ?q))"
      unfolding f by (simp only: list.map)
    moreover have "path_elems path = take DIRSIZ ?e # path_elems (dropWhile (\<lambda>c. c = SLASH) ?q)"
      by (subst path_elems.simps) (simp only: sk option.case prod.case)
    ultimately show ?thesis using 1 [OF sk refl] by (simp only: split_slash_skip)
  qed
qed

end
