(* ===== verification/Xv6_Syscall.thy ===== *)
theory Xv6_Syscall
  imports Xv6_Proc Xv6_Dir
begin

text \<open>
  System call arguments (syscall.c) and the system calls of sysproc.c. The kernel reads user
  memory through the page table of the current process; an access to a page that is not
  mapped is a fault in the kernel, \<^term>\<open>Undef\<close> here.
\<close>

unbundle bit_operations_syntax

section \<open>User memory\<close>

definition user_byte :: "nat \<Rightarrow> nat \<Rightarrow> 'a kproc_scheme \<Rightarrow> u8 outcome" where
  "user_byte me va k =
     (let (pte, s) = walkpgdir (p_pgdir (pt k me)) va False (kn_vm k) in
      if pte = 0 \<or> ld32 (k_mem s) pte AND PTE_P = 0 then Undef
      else Ok (k_mem s (p2v (PTE_ADDR (ld32 (k_mem s) pte)) + va mod PGSIZE)))"

fun user_bytes :: "nat \<Rightarrow> nat \<Rightarrow> nat \<Rightarrow> 'a kproc_scheme \<Rightarrow> u8 list outcome" where
  "user_bytes me va 0 k = Ok []"
| "user_bytes me va (Suc n) k =
     andthen (user_byte me va k) (\<lambda>c. andthen (user_bytes me (va + 1) n k) (\<lambda>cs. Ok (c # cs)))"

text \<open>Stores of the kernel into user memory; the kernel ignores the user's write permission.\<close>

fun user_store :: "nat \<Rightarrow> nat \<Rightarrow> u8 list \<Rightarrow> 'a kproc_scheme \<Rightarrow> 'a kproc_scheme outcome" where
  "user_store me va [] k = Ok k"
| "user_store me va (c # cs) k =
     (let (pte, s) = walkpgdir (p_pgdir (pt k me)) va False (kn_vm k) in
      if pte = 0 \<or> ld32 (k_mem s) pte AND PTE_P = 0 then Undef
      else user_store me (va + 1) cs
             (poke (\<lambda>m. m(p2v (PTE_ADDR (ld32 (k_mem s) pte)) + va mod PGSIZE := c)) k))"

definition le_word :: "u8 list \<Rightarrow> nat" where
  "le_word bs = unat (bs ! 0) + 256 * unat (bs ! 1) + 65536 * unat (bs ! 2) + 16777216 * unat (bs ! 3)"

section \<open>Arguments\<close>

text \<open>The result \<open>None\<close> is -1; an int argument is returned as the 32-bit word.\<close>

definition fetchint :: "nat \<Rightarrow> nat \<Rightarrow> 'a kproc_scheme \<Rightarrow> nat option outcome" where
  "fetchint p addr k =
     (if p_sz (pt k p) \<le> addr \<or> p_sz (pt k p) < w32 (addr + 4) then Ok None
      else andthen (user_bytes p addr 4 k) (\<lambda>bs. Ok (Some (le_word bs))))"

function fetchstr_from :: "nat \<Rightarrow> nat \<Rightarrow> nat \<Rightarrow> u8 list \<Rightarrow> 'a kproc_scheme \<Rightarrow> u8 list option outcome" where
  "fetchstr_from p s ep acc k =
     (if s < ep then
        andthen (user_byte p s k) (\<lambda>c.
          if c = 0 then Ok (Some acc) else fetchstr_from p (s + 1) ep (acc @ [c]) k)
      else Ok None)"
  by pat_completeness auto

termination
  by (relation "measure (\<lambda>(p, s, ep, acc, k). ep - s)") auto

text \<open>The string is returned instead of a pointer to it.\<close>

definition fetchstr :: "nat \<Rightarrow> nat \<Rightarrow> 'a kproc_scheme \<Rightarrow> u8 list option outcome" where
  "fetchstr p addr k =
     (if p_sz (pt k p) \<le> addr then Ok None else fetchstr_from p addr (p_sz (pt k p)) [] k)"

definition argint :: "nat \<Rightarrow> nat \<Rightarrow> 'a kproc_scheme \<Rightarrow> nat option outcome" where
  "argint me n k = fetchint me (w32 (tf_get me TF_ESP k + 4 + 4 * n)) k"

definition argptr :: "nat \<Rightarrow> nat \<Rightarrow> int \<Rightarrow> 'a kproc_scheme \<Rightarrow> nat option outcome" where
  "argptr me n sz k =
     andthen (argint me n k) (\<lambda>r.
       case r of None \<Rightarrow> Ok None
       | Some i \<Rightarrow> if p_sz (pt k me) \<le> i \<or> p_sz (pt k me) < w32 (i + of_int32 sz) then Ok None
           else Ok (Some i))"

definition argstr :: "nat \<Rightarrow> nat \<Rightarrow> 'a kproc_scheme \<Rightarrow> u8 list option outcome" where
  "argstr me n k =
     andthen (argint me n k) (\<lambda>r. case r of None \<Rightarrow> Ok None | Some addr \<Rightarrow> fetchstr me addr k)"

declare fetchstr_from.simps [simp del]

section \<open>Process system calls\<close>

text \<open>The clock: \<^verbatim>\<open>ticks\<close> counts timer interrupts modulo \<open>2 ^ 32\<close>.\<close>

record ksys = kproc +
  ticks :: nat
  ticks_lock :: spinlock

definition sys_fork :: "nat \<Rightarrow> nat \<Rightarrow> nat \<Rightarrow> nat \<Rightarrow> nat \<Rightarrow> 'a kproc_scheme \<Rightarrow> (int \<times> 'a kproc_scheme) outcome" where
  "sys_fork kend kdata forkret trapret me k = fork kend kdata forkret trapret me k"

definition sys_exit :: "nat \<Rightarrow> (nat \<Rightarrow> nat) \<Rightarrow> nat \<Rightarrow> 'a kproc_scheme \<Rightarrow> 'a kproc_scheme outcome" where
  "sys_exit kend paddr me k = exit kend paddr me k"

definition sys_wait :: "nat \<Rightarrow> (nat \<Rightarrow> nat) \<Rightarrow> nat \<Rightarrow> 'a kproc_scheme \<Rightarrow> (int pipe_call \<times> 'a kproc_scheme) outcome" where
  "sys_wait kend paddr me k = wait kend paddr me k"

definition sys_kill :: "nat \<Rightarrow> 'a kproc_scheme \<Rightarrow> (int \<times> 'a kproc_scheme) outcome" where
  "sys_kill me k =
     andthen (argint me 0 k) (\<lambda>r. case r of None \<Rightarrow> Ok (-1, k) | Some pid \<Rightarrow> kill (int_of pid) k)"

definition sys_getpid :: "nat \<Rightarrow> 'a kproc_scheme \<Rightarrow> int" where
  "sys_getpid me k = p_pid (pt k me)"

definition sys_sbrk :: "nat \<Rightarrow> nat \<Rightarrow> 'a kproc_scheme \<Rightarrow> (int \<times> 'a kproc_scheme) outcome" where
  "sys_sbrk kend me k =
     andthen (argint me 0 k) (\<lambda>r.
       case r of None \<Rightarrow> Ok (-1, k)
       | Some n \<Rightarrow>
           let addr = int_of (p_sz (pt k me)) in
           andthen (growproc kend me (int_of n) k) (\<lambda>(r, k). if r < 0 then Ok (-1, k) else Ok (addr, k)))"

definition ticks_acquire :: "'a ksys_scheme \<Rightarrow> 'a ksys_scheme outcome" where
  "ticks_acquire k =
     andthen (acquire (kp_id k) (replicate 10 0) (ticks_lock k, kp_cpu k)) (\<lambda>(lk, c).
       Ok (k\<lparr>ticks_lock := lk, kp_cpu := c\<rparr>))"

definition ticks_release :: "'a ksys_scheme \<Rightarrow> 'a ksys_scheme outcome" where
  "ticks_release k =
     andthen (release (kp_id k) (ticks_lock k, kp_cpu k)) (\<lambda>(lk, c). Ok (k\<lparr>ticks_lock := lk, kp_cpu := c\<rparr>))"

text \<open>
  One test of the loop of \<^verbatim>\<open>sys_sleep\<close>, with the start time \<open>ticks0\<close> of the call: done, or sleeping
  on the address \<open>chan\<close> of \<^verbatim>\<open>ticks\<close>. The comparison of the difference with \<open>n\<close> is unsigned.
\<close>

definition sleep_round :: "nat \<Rightarrow> nat \<Rightarrow> nat \<Rightarrow> nat \<Rightarrow> 'a ksys_scheme \<Rightarrow> (int pipe_call \<times> 'a ksys_scheme) outcome" where
  "sleep_round chan me ticks0 n k =
     (if w32 (ticks k + 4294967296 - ticks0) < n then
        if p_killed (pt k me) then andthen (ticks_release k) (\<lambda>k. Ok (Done (-1), k))
        else andthen (sleep me chan (ticks_lock k) k) (\<lambda>(lk, k). Ok (Sleeping 0, k\<lparr>ticks_lock := lk\<rparr>))
      else andthen (ticks_release k) (\<lambda>k. Ok (Done 0, k)))"

definition sys_sleep :: "nat \<Rightarrow> nat \<Rightarrow> 'a ksys_scheme \<Rightarrow> (int pipe_call \<times> 'a ksys_scheme) outcome" where
  "sys_sleep chan me k =
     andthen (argint me 0 k) (\<lambda>r.
       case r of None \<Rightarrow> Ok (Done (-1), k)
       | Some n \<Rightarrow> andthen (ticks_acquire k) (\<lambda>k. sleep_round chan me (ticks k) n k))"

definition sys_uptime :: "'a ksys_scheme \<Rightarrow> (int \<times> 'a ksys_scheme) outcome" where
  "sys_uptime k =
     andthen (ticks_acquire k) (\<lambda>k.
       let xticks = ticks k in andthen (ticks_release k) (\<lambda>k. Ok (int_of xticks, k)))"

definition sys_getFreeBlocks :: "'a kproc_scheme \<Rightarrow> (int \<times> 'a kproc_scheme) outcome" where
  "sys_getFreeBlocks k = fs_do (\<lambda>s. andthen (getFreeBlocks s) (\<lambda>(n, s). Ok (int n, s))) k"

definition sys_getSharedBlocksRate :: "'a kproc_scheme \<Rightarrow> (int \<times> 'a kproc_scheme) outcome" where
  "sys_getSharedBlocksRate k = fs_do (\<lambda>s. andthen (getSharedBlocksRate s) (\<lambda>(r, s). Ok (0, s))) k"

definition sys_dedup :: "(nat \<Rightarrow> nat \<Rightarrow> nat) \<Rightarrow> 'a kproc_scheme \<Rightarrow> (int \<times> 'a kproc_scheme) outcome" where
  "sys_dedup oob k = fs_do (dedup oob) k"

definition sys_getBlkRef :: "nat \<Rightarrow> 'a kproc_scheme \<Rightarrow> (int \<times> 'a kproc_scheme) outcome" where
  "sys_getBlkRef me k =
     andthen (argint me 0 k) (\<lambda>r.
       case r of None \<Rightarrow> Ok (-1, k) | Some n \<Rightarrow> fs_do (getBlkRef n) k)"

end
