(* ===== verification/Xv6_Sysfile.thy ===== *)
theory Xv6_Sysfile
  imports Xv6_Syscall
begin

text \<open>
  The file system calls (sysfile.c): checking of arguments, links, creation and opening of
  files. The parts that only touch the file system are functions of its state; \<open>cwd\<close> is the
  current directory of the calling process, \<open>devr\<close> and \<open>devw\<close> the device table.
\<close>

unbundle bit_operations_syntax

section \<open>Directories and links\<close>

definition add_nlink :: "nat \<Rightarrow> int \<Rightarrow> 'a ino_state_scheme \<Rightarrow> 'a ino_state_scheme" where
  "add_nlink ip d s =
     set_inode ip ((icache s ip)\<lparr>i_nlink := short_of (of_short (i_nlink (icache s ip) + d))\<rparr>) s"

text \<open>The scan of \<^verbatim>\<open>isdirempty\<close>; \<open>sz\<close> is \<^verbatim>\<open>dp->size\<close>, which reading does not change.\<close>

function dirempty_from :: "(int \<Rightarrow> 'a ino_state_scheme dev_read option) \<Rightarrow> nat \<Rightarrow> nat \<Rightarrow> nat \<Rightarrow>
    'a ino_state_scheme \<Rightarrow> (bool \<times> 'a ino_state_scheme) outcome" where
  "dirempty_from devr dp sz off s =
     (if off < sz then
        andthen (readi devr dp off 16 s) (\<lambda>((r, de), s).
          if r \<noteq> 16 then Panic ''isdirempty: readi''
          else if de_inum de \<noteq> 0 then Ok (False, s)
          else dirempty_from devr dp sz (off + 16) s)
      else Ok (True, s))"
  by pat_completeness auto

termination
  by (relation "measure (\<lambda>(devr, dp, sz, off, s). sz - off)") auto

definition isdirempty :: "(int \<Rightarrow> 'a ino_state_scheme dev_read option) \<Rightarrow> nat \<Rightarrow>
    'a ino_state_scheme \<Rightarrow> (bool \<times> 'a ino_state_scheme) outcome" where
  "isdirempty devr dp s = dirempty_from devr dp (i_size (icache s dp)) 32 s"

text \<open>The exit \<^verbatim>\<open>bad\<close> of \<^verbatim>\<open>sys_link\<close> takes the new link back.\<close>

definition link_bad :: "nat \<Rightarrow> 'a ino_state_scheme \<Rightarrow> (int \<times> 'a ino_state_scheme) outcome" where
  "link_bad ip s =
     andthen (ilock ip s) (\<lambda>s.
     andthen (iupdate ip (add_nlink ip (-1) s)) (\<lambda>s.
     andthen (iunlockput ip s) (\<lambda>s.
     andthen (commit_trans s) (\<lambda>s. Ok (-1, s)))))"

definition link_paths :: "(int \<Rightarrow> 'a ino_state_scheme dev_read option) \<Rightarrow>
    (int \<Rightarrow> 'a ino_state_scheme dev_write option) \<Rightarrow> nat \<Rightarrow> u8 list \<Rightarrow> u8 list \<Rightarrow>
    'a ino_state_scheme \<Rightarrow> (int \<times> 'a ino_state_scheme) outcome" where
  "link_paths devr devw cwd old new s =
     andthen (namei devr cwd old s) (\<lambda>(r, s).
       case r of None \<Rightarrow> Ok (-1, s)
       | Some ip \<Rightarrow>
         andthen (begin_trans s) (\<lambda>s.
         andthen (ilock ip s) (\<lambda>s.
           if i_type (icache s ip) = T_DIR then
             andthen (iunlockput ip s) (\<lambda>s. andthen (commit_trans s) (\<lambda>s. Ok (-1, s)))
           else
             andthen (iupdate ip (add_nlink ip 1 s)) (\<lambda>s.
             andthen (iunlock ip s) (\<lambda>s.
             andthen (nameiparent devr cwd new s) (\<lambda>(r, s).
               case r of None \<Rightarrow> link_bad ip s
               | Some (dp, name) \<Rightarrow>
                 andthen (ilock dp s) (\<lambda>s.
                 andthen (if i_dev (icache s dp) \<noteq> i_dev (icache s ip) then Ok (-1, s)
                          else dirlink devr devw dp name (i_inum (icache s ip)) s) (\<lambda>(r, s).
                   if r < 0 then andthen (iunlockput dp s) (link_bad ip)
                   else
                     andthen (iunlockput dp s) (\<lambda>s.
                     andthen (iput ip s) (\<lambda>s.
                     andthen (commit_trans s) (\<lambda>s. Ok (0, s))))))))))))"

definition unlink_bad :: "nat \<Rightarrow> 'a ino_state_scheme \<Rightarrow> (int \<times> 'a ino_state_scheme) outcome" where
  "unlink_bad dp s = andthen (iunlockput dp s) (\<lambda>s. andthen (commit_trans s) (\<lambda>s. Ok (-1, s)))"

text \<open>Removing the entry at \<open>off\<close> of \<open>dp\<close> for the locked inode \<open>ip\<close>.\<close>

definition unlink_entry :: "(int \<Rightarrow> 'a ino_state_scheme dev_write option) \<Rightarrow> nat \<Rightarrow> nat \<Rightarrow> nat \<Rightarrow>
    'a ino_state_scheme \<Rightarrow> (int \<times> 'a ino_state_scheme) outcome" where
  "unlink_entry devw dp ip off s =
     andthen (writei devw dp (replicate 16 0) off s) (\<lambda>(r, s).
       if r \<noteq> 16 then Panic ''unlink: writei''
       else
         andthen (if i_type (icache s ip) = T_DIR then iupdate dp (add_nlink dp (-1) s) else Ok s) (\<lambda>s.
         andthen (iunlockput dp s) (\<lambda>s.
         andthen (iupdate ip (add_nlink ip (-1) s)) (\<lambda>s.
         andthen (iunlockput ip s) (\<lambda>s.
         andthen (commit_trans s) (\<lambda>s. Ok (0, s)))))))"

definition unlink_path :: "(int \<Rightarrow> 'a ino_state_scheme dev_read option) \<Rightarrow>
    (int \<Rightarrow> 'a ino_state_scheme dev_write option) \<Rightarrow> nat \<Rightarrow> u8 list \<Rightarrow>
    'a ino_state_scheme \<Rightarrow> (int \<times> 'a ino_state_scheme) outcome" where
  "unlink_path devr devw cwd path s =
     andthen (nameiparent devr cwd path s) (\<lambda>(r, s).
       case r of None \<Rightarrow> Ok (-1, s)
       | Some (dp, name) \<Rightarrow>
         andthen (begin_trans s) (\<lambda>s.
         andthen (ilock dp s) (\<lambda>s.
           if namecmp name [46] = 0 \<or> namecmp name [46, 46] = 0 then unlink_bad dp s
           else andthen (dirlookup devr dp name s) (\<lambda>(r, s).
             case r of None \<Rightarrow> unlink_bad dp s
             | Some (ip, off) \<Rightarrow>
               andthen (ilock ip s) (\<lambda>s.
                 if i_nlink (icache s ip) < 1 then Panic ''unlink: nlink < 1''
                 else andthen (if i_type (icache s ip) = T_DIR then isdirempty devr ip s else Ok (True, s)) (\<lambda>(e, s).
                   if \<not> e then andthen (iunlockput ip s) (unlink_bad dp)
                   else unlink_entry devw dp ip off s))))))"

text \<open>The entries \<^verbatim>\<open>.\<close> and \<^verbatim>\<open>..\<close> of a new directory.\<close>

definition create_dots :: "(int \<Rightarrow> 'a ino_state_scheme dev_read option) \<Rightarrow>
    (int \<Rightarrow> 'a ino_state_scheme dev_write option) \<Rightarrow> nat \<Rightarrow> nat \<Rightarrow> 'a ino_state_scheme \<Rightarrow> 'a ino_state_scheme outcome" where
  "create_dots devr devw dp ip s =
     andthen (iupdate dp (add_nlink dp 1 s)) (\<lambda>s.
     andthen (dirlink devr devw ip [46] (i_inum (icache s ip)) s) (\<lambda>(r, s).
       if r < 0 then Panic ''create dots''
       else andthen (dirlink devr devw ip [46, 46] (i_inum (icache s dp)) s) (\<lambda>(r, s).
         if r < 0 then Panic ''create dots'' else Ok s)))"

definition create :: "(int \<Rightarrow> 'a ino_state_scheme dev_read option) \<Rightarrow>
    (int \<Rightarrow> 'a ino_state_scheme dev_write option) \<Rightarrow> nat \<Rightarrow> u8 list \<Rightarrow> int \<Rightarrow> int \<Rightarrow> int \<Rightarrow>
    'a ino_state_scheme \<Rightarrow> (nat option \<times> 'a ino_state_scheme) outcome" where
  "create devr devw cwd path ty major minor s =
     andthen (nameiparent devr cwd path s) (\<lambda>(r, s).
       case r of None \<Rightarrow> Ok (None, s)
       | Some (dp, name) \<Rightarrow>
         andthen (ilock dp s) (\<lambda>s.
         andthen (dirlookup devr dp name s) (\<lambda>(r, s).
           case r of
             Some (ip, off) \<Rightarrow>
               andthen (iunlockput dp s) (\<lambda>s.
               andthen (ilock ip s) (\<lambda>s.
                 if ty = T_FILE \<and> i_type (icache s ip) = T_FILE then Ok (Some ip, s)
                 else andthen (iunlockput ip s) (\<lambda>s. Ok (None, s))))
           | None \<Rightarrow>
               andthen (ialloc (i_dev (icache s dp)) ty s) (\<lambda>(ip, s).
               andthen (ilock ip s) (\<lambda>s.
               andthen (iupdate ip (set_inode ip ((icache s ip)\<lparr>i_major := major, i_minor := minor, i_nlink := 1\<rparr>) s)) (\<lambda>s.
               andthen (if ty = T_DIR then create_dots devr devw dp ip s else Ok s) (\<lambda>s.
               andthen (dirlink devr devw dp name (i_inum (icache s ip)) s) (\<lambda>(r, s).
                 if r < 0 then Panic ''create: dirlink''
                 else andthen (iunlockput dp s) (\<lambda>s. Ok (Some ip, s))))))))))"

section \<open>Opening files\<close>

abbreviation O_RDONLY :: nat where "O_RDONLY \<equiv> 0"
abbreviation O_WRONLY :: nat where "O_WRONLY \<equiv> 1"
abbreviation O_RDWR :: nat where "O_RDWR \<equiv> 2"
abbreviation O_CREATE :: nat where "O_CREATE \<equiv> 0x200"

text \<open>The locked inode of a path to open, by creation or lookup.\<close>

definition open_inode :: "(int \<Rightarrow> dd_state dev_read option) \<Rightarrow> (int \<Rightarrow> dd_state dev_write option) \<Rightarrow>
    nat \<Rightarrow> u8 list \<Rightarrow> nat \<Rightarrow> dd_state \<Rightarrow> (nat option \<times> dd_state) outcome" where
  "open_inode devr devw cwd path omode s =
     (if omode AND O_CREATE \<noteq> 0 then
        andthen (begin_trans s) (\<lambda>s.
        andthen (create devr devw cwd path T_FILE 0 0 s) (\<lambda>(r, s).
        andthen (commit_trans s) (\<lambda>s. Ok (r, s))))
      else
        andthen (namei devr cwd path s) (\<lambda>(r, s).
          case r of None \<Rightarrow> Ok (None, s)
          | Some ip \<Rightarrow>
            andthen (ilock ip s) (\<lambda>s.
              if i_type (icache s ip) = T_DIR \<and> omode \<noteq> O_RDONLY
              then andthen (iunlockput ip s) (\<lambda>s. Ok (None, s)) else Ok (Some ip, s))))"

definition set_open :: "nat \<Rightarrow> nat \<Rightarrow> nat \<Rightarrow> 'a kern_scheme \<Rightarrow> 'a kern_scheme" where
  "set_open f ip omode k =
     set_file f ((kn_file k f)\<lparr>f_type := FD_INODE, f_ip := ip, f_off := 0,
       f_readable := (omode AND O_WRONLY = 0),
       f_writable := (omode AND O_WRONLY \<noteq> 0 \<or> omode AND O_RDWR \<noteq> 0)\<rparr>) k"

definition fileopen :: "(int \<Rightarrow> dd_state dev_read option) \<Rightarrow> (int \<Rightarrow> dd_state dev_write option) \<Rightarrow>
    nat \<Rightarrow> u8 list \<Rightarrow> nat \<Rightarrow> 'a kern_scheme \<Rightarrow> (nat option \<times> 'a kern_scheme) outcome" where
  "fileopen devr devw cwd path omode k =
     andthen (fs_do (open_inode devr devw cwd path omode) k) (\<lambda>(r, k).
       case r of None \<Rightarrow> Ok (None, k)
       | Some ip \<Rightarrow>
         (let (r, k) = filealloc k in
          case r of
            None \<Rightarrow> andthen (fs_run (iunlockput ip) k) (\<lambda>k. Ok (None, k))
          | Some f \<Rightarrow> andthen (fs_run (iunlock ip) k) (\<lambda>k. Ok (Some f, set_open f ip omode k))))"

text \<open>
  \<^verbatim>\<open>getFileBlocks\<close> (file.c): the result and the lines it prints, each a label with the index and
  the block. The file it opens is not closed again.
\<close>

definition file_block_lines :: "nat \<Rightarrow> 'a ino_state_scheme \<Rightarrow>
    ((string \<times> nat \<times> nat) list \<times> 'a ino_state_scheme) outcome" where
  "file_block_lines ip s =
     (let as = i_addrs (icache s ip);
          ls = map (\<lambda>i. (''DIRECT'', i, as ! i)) (filter (\<lambda>i. as ! i \<noteq> 0) [0..<NDIRECT]) in
      if as ! NDIRECT \<noteq> 0 then
        andthen (bread (i_dev (icache s ip)) (as ! NDIRECT) s) (\<lambda>(bp, s).
          let a = (\<lambda>i. get32 (b_data (bufs s bp)) (4 * i));
              ls = ls @ (''INDIRECT TABLE'', NDIRECT, as ! NDIRECT) #
                   map (\<lambda>i. (''INDIRECT'', i, a i)) (filter (\<lambda>i. a i \<noteq> 0) [0..<NINDIRECT])
          in andthen (brelse bp s) (\<lambda>s. Ok (ls, s)))
      else Ok (ls, s))"

definition getFileBlocks :: "(int \<Rightarrow> dd_state dev_read option) \<Rightarrow> (int \<Rightarrow> dd_state dev_write option) \<Rightarrow>
    nat \<Rightarrow> u8 list \<Rightarrow> 'a kern_scheme \<Rightarrow> ((int \<times> (string \<times> nat \<times> nat) list) \<times> 'a kern_scheme) outcome" where
  "getFileBlocks devr devw cwd path k =
     andthen (fileopen devr devw cwd path O_RDONLY k) (\<lambda>(r, k).
       case r of None \<Rightarrow> Ok ((-1, []), k)
       | Some f \<Rightarrow>
         let ip = f_ip (kn_file k f) in
         andthen (fs_run (ilock ip) k) (\<lambda>k.
         andthen (fs_do (file_block_lines ip) k) (\<lambda>(ls, k).
         andthen (fs_run (iunlock ip) k) (\<lambda>k. Ok ((0, ls), k)))))"

declare dirempty_from.simps [simp del]

end
