(* ===== verification/Xv6_Exec.thy ===== *)
theory Xv6_Exec
  imports Xv6_Sysfile
begin

text \<open>
  Loading programs (exec.c, \<^verbatim>\<open>loaduvm\<close> of vm.c). Headers are the bytes read from the file, with
  fields at the offsets of elf.h.
\<close>

unbundle bit_operations_syntax

abbreviation MAXARG :: nat where "MAXARG \<equiv> 32"
abbreviation ELF_MAGIC :: nat where "ELF_MAGIC \<equiv> 0x464C457F"
abbreviation ELF_PROG_LOAD :: nat where "ELF_PROG_LOAD \<equiv> 1"

definition store_bytes :: "nat \<Rightarrow> u8 list \<Rightarrow> mem \<Rightarrow> mem" where
  "store_bytes a bs m = (\<lambda>x. if a \<le> x \<and> x < a + length bs then bs ! (x - a) else m x)"

section \<open>Program segments\<close>

text \<open>
  The counter \<open>i\<close> is unsigned: past the last page below \<open>2 ^ 32\<close> it starts again at 0 and the loop
  does not end, which is the outcome \<^term>\<open>NoFuel\<close>.
\<close>

function loaduvm_from :: "(int \<Rightarrow> dd_state dev_read option) \<Rightarrow> nat \<Rightarrow> nat \<Rightarrow> nat \<Rightarrow> nat \<Rightarrow> nat \<Rightarrow> nat \<Rightarrow>
    'a kern_scheme \<Rightarrow> (int \<times> 'a kern_scheme) outcome" where
  "loaduvm_from devr pgdir addr ip offset sz i k =
     (if i < sz then
        let (pte, s) = walkpgdir pgdir (w32 (addr + i)) False (kn_vm k) in
        if pte = 0 then Panic ''loaduvm: address should exist''
        else let pa = PTE_ADDR (ld32 (k_mem s) pte); n = (if sz - i < PGSIZE then sz - i else PGSIZE) in
          andthen (fs_do (readi devr ip (w32 (offset + i)) n) k) (\<lambda>((r, bs), k).
            let k = k\<lparr>kn_vm := (kn_vm k)\<lparr>k_mem := store_bytes (p2v pa) bs (k_mem (kn_vm k))\<rparr>\<rparr> in
            if of_int32 r \<noteq> n then Ok (-1, k)
            else if 4294967296 \<le> i + PGSIZE then NoFuel
            else loaduvm_from devr pgdir addr ip offset sz (i + PGSIZE) k)
      else Ok (0, k))"
  by pat_completeness auto

termination
  by (relation "measure (\<lambda>(devr, pgdir, addr, ip, offset, sz, i, k). sz - i)") auto

definition loaduvm :: "(int \<Rightarrow> dd_state dev_read option) \<Rightarrow> nat \<Rightarrow> nat \<Rightarrow> nat \<Rightarrow> nat \<Rightarrow> nat \<Rightarrow>
    'a kern_scheme \<Rightarrow> (int \<times> 'a kern_scheme) outcome" where
  "loaduvm devr pgdir addr ip offset sz k =
     (if addr mod PGSIZE \<noteq> 0 then Panic ''loaduvm: addr must be page aligned''
      else loaduvm_from devr pgdir addr ip offset sz 0 k)"

text \<open>
  The loop over the program headers, \<open>n\<close> of them left; the result is the size of the image,
  \<open>None\<close> for the jump to \<^verbatim>\<open>bad\<close>.
\<close>

fun exec_load :: "nat \<Rightarrow> (int \<Rightarrow> dd_state dev_read option) \<Rightarrow> nat \<Rightarrow> nat \<Rightarrow> nat \<Rightarrow> nat \<Rightarrow> nat \<Rightarrow>
    'a kern_scheme \<Rightarrow> (nat option \<times> 'a kern_scheme) outcome" where
  "exec_load kend devr pgdir ip 0 off sz k = Ok (Some sz, k)"
| "exec_load kend devr pgdir ip (Suc n) off sz k =
     andthen (fs_do (readi devr ip off 32) k) (\<lambda>((r, ph), k).
       if r \<noteq> 32 then Ok (None, k)
       else if get32 ph 0 \<noteq> ELF_PROG_LOAD then exec_load kend devr pgdir ip n (w32 (off + 32)) sz k
       else if get32 ph 20 < get32 ph 16 then Ok (None, k)
       else andthen (vm_do (allocuvm kend pgdir sz (w32 (get32 ph 8 + get32 ph 20))) k) (\<lambda>(sz, k).
         if sz = 0 then Ok (None, k)
         else andthen (loaduvm devr pgdir (get32 ph 8) ip (get32 ph 4) (get32 ph 16) k) (\<lambda>(r, k).
           if r < 0 then Ok (None, k)
           else exec_load kend devr pgdir ip n (w32 (off + 32)) sz k)))"

section \<open>Arguments\<close>

text \<open>
  \<^verbatim>\<open>copyout\<close> (vm.c) with a source outside the new image, whose bytes \<open>bs\<close> the copy does not
  change: the argument strings of the caller and the array \<^verbatim>\<open>ustack\<close>.
\<close>

function copyout_bytes :: "nat \<Rightarrow> nat \<Rightarrow> u8 list \<Rightarrow> 'a kmem_state_scheme \<Rightarrow> (int \<times> 'a kmem_state_scheme) outcome" where
  "copyout_bytes pgdir va bs s =
     (if bs \<noteq> [] \<and> va < 4294967296 then
        let va0 = PGROUNDDOWN va in
        andthen (uva2ka pgdir va0 s) (\<lambda>pa0.
          if pa0 = 0 then Ok (-1, s)
          else let n = (if PGSIZE - (va - va0) > length bs then length bs else PGSIZE - (va - va0))
            in copyout_bytes pgdir (w32 (va0 + PGSIZE)) (drop n bs)
                 (s\<lparr>k_mem := store_bytes (pa0 + (va - va0)) (take n bs) (k_mem s)\<rparr>))
      else Ok (0, s))"
  by pat_completeness auto

termination
  by (relation "measure (\<lambda>(pgdir, va, bs, s). length bs)") (auto dest: PGROUNDDOWN_gap)

text \<open>Push the strings; the result is the stack pointer and the addresses of the strings.\<close>

fun push_args :: "nat \<Rightarrow> u8 list list \<Rightarrow> nat \<Rightarrow> nat list \<Rightarrow> 'a kmem_state_scheme \<Rightarrow>
    ((nat \<times> nat list) option \<times> 'a kmem_state_scheme) outcome" where
  "push_args pgdir [] sp us s = Ok (Some (sp, us), s)"
| "push_args pgdir (arg # args) sp us s =
     (if MAXARG \<le> length us then Ok (None, s)
      else let sp = w32 (sp + 4294967296 - (length arg + 1)) AND 0xFFFFFFFC in
        andthen (copyout_bytes pgdir sp (arg @ [0]) s) (\<lambda>(r, s).
          if r < 0 then Ok (None, s) else push_args pgdir args sp (us @ [sp]) s))"

definition word_bytes :: "nat \<Rightarrow> u8 list" where
  "word_bytes v = [of_nat v, of_nat (v div 256), of_nat (v div 65536), of_nat (v div 16777216)]"

text \<open>\<^verbatim>\<open>ustack\<close>: fake return address, argc, argv, the argument pointers, a null pointer.\<close>

definition ustack :: "nat \<Rightarrow> nat list \<Rightarrow> nat list" where
  "ustack sp us = [0xFFFFFFFF, length us, w32 (sp + 4294967296 - (length us + 1) * 4)] @ us @ [0]"

definition exec_stack :: "nat \<Rightarrow> nat \<Rightarrow> u8 list list \<Rightarrow> 'a kmem_state_scheme \<Rightarrow> (nat option \<times> 'a kmem_state_scheme) outcome" where
  "exec_stack pgdir sz argv s =
     andthen (push_args pgdir argv sz [] s) (\<lambda>(r, s).
       case r of None \<Rightarrow> Ok (None, s)
       | Some (sp, us) \<Rightarrow>
         let st = ustack sp us; sp = w32 (sp + 4294967296 - 4 * length st) in
         andthen (copyout_bytes pgdir sp (concat (map word_bytes st)) s) (\<lambda>(r, s).
           if r < 0 then Ok (None, s) else Ok (Some sp, s)))"

text \<open>The part of the path after the last slash.\<close>

definition base_name :: "u8 list \<Rightarrow> u8 list" where
  "base_name path = rev (takeWhile (\<lambda>c. c \<noteq> SLASH) (rev path))"

section \<open>The system call\<close>

definition exec_bad :: "nat \<Rightarrow> nat \<Rightarrow> nat option \<Rightarrow> 'a kern_scheme \<Rightarrow> (int \<times> 'a kern_scheme) outcome" where
  "exec_bad kend pgdir ip k =
     andthen (if pgdir \<noteq> 0 then vm_run (freevm kend pgdir) k else Ok k) (\<lambda>k.
     andthen (case ip of Some ip \<Rightarrow> fs_run (iunlockput ip) k | None \<Rightarrow> Ok k) (\<lambda>k. Ok (-1, k)))"

text \<open>The image is complete: switch to it and free the old one.\<close>

definition exec_commit :: "nat \<Rightarrow> nat \<Rightarrow> u8 list \<Rightarrow> nat \<Rightarrow> nat \<Rightarrow> nat \<Rightarrow> nat \<Rightarrow> 'a kproc_scheme \<Rightarrow>
    (int \<times> 'a kproc_scheme) outcome" where
  "exec_commit kend me path pgdir sz entry sp k =
     (let oldpgdir = p_pgdir (pt k me);
          k = set_proc me ((pt k me)\<lparr>p_name := str_to_name (base_name path), p_pgdir := pgdir, p_sz := sz\<rparr>) k;
          k = tf_put me TF_EIP entry k; k = tf_put me TF_ESP sp k
      in andthen (switchuvm me me k) (\<lambda>k.
         andthen (vm_run (freevm kend oldpgdir) k) (\<lambda>k. Ok (0, k))))"

text \<open>Two more pages, the first without user access, and the arguments on the second.\<close>

definition exec_finish :: "nat \<Rightarrow> nat \<Rightarrow> u8 list \<Rightarrow> u8 list list \<Rightarrow> nat \<Rightarrow> nat \<Rightarrow> nat \<Rightarrow> 'a kproc_scheme \<Rightarrow>
    (int \<times> 'a kproc_scheme) outcome" where
  "exec_finish kend me path argv pgdir entry sz k =
     (let sz = PGROUNDUP sz in
      andthen (vm_do (allocuvm kend pgdir sz (w32 (sz + 2 * PGSIZE))) k) (\<lambda>(sz, k).
        if sz = 0 then exec_bad kend pgdir None k
        else andthen (vm_run (clearpteu pgdir (sz - 2 * PGSIZE)) k) (\<lambda>k.
          andthen (vm_do (exec_stack pgdir sz argv) k) (\<lambda>(r, k).
            case r of None \<Rightarrow> exec_bad kend pgdir None k
            | Some sp \<Rightarrow> exec_commit kend me path pgdir sz entry sp k))))"

text \<open>
  The test of the first read is unsigned, so a result -1 passes it; the header is then
  uninitialised.
\<close>

definition exec :: "nat \<Rightarrow> nat \<Rightarrow> (int \<Rightarrow> dd_state dev_read option) \<Rightarrow> nat \<Rightarrow> u8 list \<Rightarrow> u8 list list \<Rightarrow>
    'a kproc_scheme \<Rightarrow> (int \<times> 'a kproc_scheme) outcome" where
  "exec kend kdata devr me path argv k =
     andthen (fs_do (namei devr (p_cwd (pt k me)) path) k) (\<lambda>(r, k).
       case r of None \<Rightarrow> Ok (-1, k)
       | Some ip \<Rightarrow>
         andthen (fs_run (ilock ip) k) (\<lambda>k.
         andthen (fs_do (readi devr ip 0 52) k) (\<lambda>((r, elf), k).
           if of_int32 r < 52 then exec_bad kend 0 (Some ip) k
           else if length elf < 52 then Undef
           else if get32 elf 0 \<noteq> ELF_MAGIC then exec_bad kend 0 (Some ip) k
           else andthen (vm_do (setupkvm kdata) k) (\<lambda>(pgdir, k).
             if pgdir = 0 then exec_bad kend 0 (Some ip) k
             else andthen (exec_load kend devr pgdir ip (get16 elf 44) (get32 elf 28) 0 k) (\<lambda>(r, k).
               case r of None \<Rightarrow> exec_bad kend pgdir (Some ip) k
               | Some sz \<Rightarrow> andthen (fs_run (iunlockput ip) k) (\<lambda>k.
                   exec_finish kend me path argv pgdir (get32 elf 24) sz k))))))"

declare loaduvm_from.simps [simp del]
declare copyout_bytes.simps [simp del]

end
