(* ===== verification/Xv6_Calls.thy ===== *)
theory Xv6_Calls
  imports Xv6_Exec
begin

text \<open>
  The entry points of the file system calls (sysfile.c), the system call table (syscall.c)
  and the trap handler (trap.c). The parameters of the kernel image, its device tables and
  its interrupt handlers are collected in a record.
\<close>

unbundle bit_operations_syntax

datatype call_end = Return int | Asleep | Exited

record env =
  e_kend :: nat
  e_kdata :: nat
  e_forkret :: nat
  e_trapret :: nat
  e_paddr :: "nat \<Rightarrow> nat"
  e_ticks :: nat
  e_oob :: "nat \<Rightarrow> nat \<Rightarrow> nat"
  e_devr :: "int \<Rightarrow> dd_state dev_read option"
  e_devw :: "int \<Rightarrow> dd_state dev_write option"
  e_intr :: "nat \<Rightarrow> ksys \<Rightarrow> ksys outcome"

section \<open>File descriptors\<close>

definition argfd :: "nat \<Rightarrow> nat \<Rightarrow> 'a kproc_scheme \<Rightarrow> (nat \<times> nat) option outcome" where
  "argfd me n k =
     andthen (argint me n k) (\<lambda>r.
       case r of None \<Rightarrow> Ok None
       | Some fd \<Rightarrow>
           if int_of fd < 0 \<or> int NOFILE \<le> int_of fd then Ok None
           else case p_ofile (pt k me) fd of None \<Rightarrow> Ok None | Some f \<Rightarrow> Ok (Some (fd, f)))"

definition set_ofile :: "nat \<Rightarrow> nat \<Rightarrow> nat option \<Rightarrow> 'a kproc_scheme \<Rightarrow> 'a kproc_scheme" where
  "set_ofile me fd v k = set_proc me ((pt k me)\<lparr>p_ofile := (p_ofile (pt k me))(fd := v)\<rparr>) k"

text \<open>The result \<open>None\<close> is -1.\<close>

definition fdalloc :: "nat \<Rightarrow> nat \<Rightarrow> 'a kproc_scheme \<Rightarrow> nat option \<times> 'a kproc_scheme" where
  "fdalloc me f k =
     (case find (\<lambda>fd. p_ofile (pt k me) fd = None) [0..<NOFILE] of
        Some fd \<Rightarrow> (Some fd, set_ofile me fd (Some f) k)
      | None \<Rightarrow> (None, k))"

definition sys_dup :: "nat \<Rightarrow> 'a kproc_scheme \<Rightarrow> (int \<times> 'a kproc_scheme) outcome" where
  "sys_dup me k =
     andthen (argfd me 0 k) (\<lambda>r.
       case r of None \<Rightarrow> Ok (-1, k)
       | Some (_, f) \<Rightarrow>
           (let (fd, k) = fdalloc me f k in
            case fd of None \<Rightarrow> Ok (-1, k)
            | Some fd \<Rightarrow> andthen (filedup f k) (\<lambda>k. Ok (int fd, k))))"

text \<open>The arguments of \<^verbatim>\<open>sys_read\<close> and \<^verbatim>\<open>sys_write\<close>: file, buffer, count.\<close>

definition rw_args :: "nat \<Rightarrow> 'a kproc_scheme \<Rightarrow> (nat \<times> nat \<times> int) option outcome" where
  "rw_args me k =
     andthen (argfd me 0 k) (\<lambda>r. case r of None \<Rightarrow> Ok None | Some (_, f) \<Rightarrow>
     andthen (argint me 2 k) (\<lambda>r. case r of None \<Rightarrow> Ok None | Some n \<Rightarrow>
     andthen (argptr me 1 (int_of n) k) (\<lambda>r. case r of None \<Rightarrow> Ok None | Some p \<Rightarrow>
       Ok (Some (f, p, int_of n)))))"

definition sys_read :: "env \<Rightarrow> nat \<Rightarrow> 'a kproc_scheme \<Rightarrow> (int pipe_call \<times> 'a kproc_scheme) outcome" where
  "sys_read e me k =
     andthen (rw_args me k) (\<lambda>r.
       case r of None \<Rightarrow> Ok (Done (-1), k)
       | Some (f, p, n) \<Rightarrow>
           andthen (fileread (e_devr e) (p_killed (pt k me)) f n k) (\<lambda>(r, k).
             case r of Sleeping i \<Rightarrow> Ok (Sleeping i, k)
             | Done (r, bs) \<Rightarrow> andthen (user_store me p bs k) (\<lambda>k. Ok (Done r, k))))"

definition sys_write :: "env \<Rightarrow> nat \<Rightarrow> 'a kproc_scheme \<Rightarrow> (int pipe_call \<times> 'a kproc_scheme) outcome" where
  "sys_write e me k =
     andthen (rw_args me k) (\<lambda>r.
       case r of None \<Rightarrow> Ok (Done (-1), k)
       | Some (f, p, n) \<Rightarrow>
           andthen (if f_writable (kn_file k f) then user_bytes me p (nat n) k else Ok []) (\<lambda>src.
             filewrite (e_devw e) (p_killed (pt k me)) f n src k))"

definition sys_close :: "env \<Rightarrow> nat \<Rightarrow> 'a kproc_scheme \<Rightarrow> (int \<times> 'a kproc_scheme) outcome" where
  "sys_close e me k =
     andthen (argfd me 0 k) (\<lambda>r.
       case r of None \<Rightarrow> Ok (-1, k)
       | Some (fd, f) \<Rightarrow>
           andthen (fileclose (e_kend e) f (set_ofile me fd None k)) (\<lambda>k. Ok (0, k)))"

text \<open>
  The layout of \<^verbatim>\<open>struct stat\<close> (stat.h), written field by field: the two bytes of padding after each
  short are not stored.
\<close>

definition half_bytes :: "int \<Rightarrow> u8 list" where
  "half_bytes i = take 2 (word_bytes (of_short i))"

definition store_stat :: "nat \<Rightarrow> nat \<Rightarrow> stat \<Rightarrow> 'a kproc_scheme \<Rightarrow> 'a kproc_scheme outcome" where
  "store_stat me st v k =
     andthen (user_store me (st + 4) (word_bytes (st_dev v)) k) (\<lambda>k.
     andthen (user_store me (st + 8) (word_bytes (st_ino v)) k) (\<lambda>k.
     andthen (user_store me st (half_bytes (st_type v)) k) (\<lambda>k.
     andthen (user_store me (st + 12) (half_bytes (st_nlink v)) k) (\<lambda>k.
       user_store me (st + 16) (word_bytes (st_size v)) k))))"

definition sys_fstat :: "nat \<Rightarrow> 'a kproc_scheme \<Rightarrow> (int \<times> 'a kproc_scheme) outcome" where
  "sys_fstat me k =
     andthen (argfd me 0 k) (\<lambda>r. case r of None \<Rightarrow> Ok (-1, k) | Some (_, f) \<Rightarrow>
     andthen (argptr me 1 20 k) (\<lambda>r. case r of None \<Rightarrow> Ok (-1, k) | Some st \<Rightarrow>
     andthen (filestat f k) (\<lambda>(r, k).
       case r of None \<Rightarrow> Ok (-1, k)
       | Some v \<Rightarrow> andthen (store_stat me st v k) (\<lambda>k. Ok (0, k)))))"

section \<open>Paths\<close>

definition sys_link :: "env \<Rightarrow> nat \<Rightarrow> 'a kproc_scheme \<Rightarrow> (int \<times> 'a kproc_scheme) outcome" where
  "sys_link e me k =
     andthen (argstr me 0 k) (\<lambda>r. case r of None \<Rightarrow> Ok (-1, k) | Some old \<Rightarrow>
     andthen (argstr me 1 k) (\<lambda>r. case r of None \<Rightarrow> Ok (-1, k) | Some new \<Rightarrow>
       fs_do (link_paths (e_devr e) (e_devw e) (p_cwd (pt k me)) old new) k))"

definition sys_unlink :: "env \<Rightarrow> nat \<Rightarrow> 'a kproc_scheme \<Rightarrow> (int \<times> 'a kproc_scheme) outcome" where
  "sys_unlink e me k =
     andthen (argstr me 0 k) (\<lambda>r. case r of None \<Rightarrow> Ok (-1, k) | Some path \<Rightarrow>
       fs_do (unlink_path (e_devr e) (e_devw e) (p_cwd (pt k me)) path) k)"

definition sys_open :: "env \<Rightarrow> nat \<Rightarrow> 'a kproc_scheme \<Rightarrow> (int \<times> 'a kproc_scheme) outcome" where
  "sys_open e me k =
     andthen (argstr me 0 k) (\<lambda>r. case r of None \<Rightarrow> Ok (-1, k) | Some path \<Rightarrow>
     andthen (argint me 1 k) (\<lambda>r. case r of None \<Rightarrow> Ok (-1, k) | Some omode \<Rightarrow>
     andthen (fs_do (open_inode (e_devr e) (e_devw e) (p_cwd (pt k me)) path omode) k) (\<lambda>(r, k).
       case r of None \<Rightarrow> Ok (-1, k)
       | Some ip \<Rightarrow>
         (let (f, k) = filealloc k in
          case f of
            None \<Rightarrow> andthen (fs_run (iunlockput ip) k) (\<lambda>k. Ok (-1, k))
          | Some f \<Rightarrow>
            (let (fd, k) = fdalloc me f k in
             case fd of
               None \<Rightarrow> andthen (fileclose (e_kend e) f k) (\<lambda>k.
                 andthen (fs_run (iunlockput ip) k) (\<lambda>k. Ok (-1, k)))
             | Some fd \<Rightarrow> andthen (fs_run (iunlock ip) k) (\<lambda>k. Ok (int fd, set_open f ip omode k)))))))"

text \<open>\<^verbatim>\<open>sys_mkdir\<close> and \<^verbatim>\<open>sys_mknod\<close> after their arguments: create, release, commit.\<close>

definition make_node :: "env \<Rightarrow> nat \<Rightarrow> u8 list \<Rightarrow> int \<Rightarrow> int \<Rightarrow> int \<Rightarrow> 'a kproc_scheme \<Rightarrow>
    (int \<times> 'a kproc_scheme) outcome" where
  "make_node e cwd path ty major minor k =
     andthen (fs_do (create (e_devr e) (e_devw e) cwd path ty major minor) k) (\<lambda>(r, k).
       case r of
         None \<Rightarrow> andthen (fs_run commit_trans k) (\<lambda>k. Ok (-1, k))
       | Some ip \<Rightarrow> andthen (fs_run (iunlockput ip) k) (\<lambda>k.
           andthen (fs_run commit_trans k) (\<lambda>k. Ok (0, k))))"

definition sys_mkdir :: "env \<Rightarrow> nat \<Rightarrow> 'a kproc_scheme \<Rightarrow> (int \<times> 'a kproc_scheme) outcome" where
  "sys_mkdir e me k =
     andthen (fs_run begin_trans k) (\<lambda>k.
     andthen (argstr me 0 k) (\<lambda>r.
       case r of None \<Rightarrow> andthen (fs_run commit_trans k) (\<lambda>k. Ok (-1, k))
       | Some path \<Rightarrow> make_node e (p_cwd (pt k me)) path T_DIR 0 0 k))"

text \<open>The device numbers are cut to 16 bits when they are passed to \<^verbatim>\<open>create\<close>.\<close>

definition sys_mknod :: "env \<Rightarrow> nat \<Rightarrow> 'a kproc_scheme \<Rightarrow> (int \<times> 'a kproc_scheme) outcome" where
  "sys_mknod e me k =
     andthen (fs_run begin_trans k) (\<lambda>k.
       let bad = andthen (fs_run commit_trans k) (\<lambda>k. Ok (-1, k)) in
       andthen (argstr me 0 k) (\<lambda>r. case r of None \<Rightarrow> bad | Some path \<Rightarrow>
       andthen (argint me 1 k) (\<lambda>r. case r of None \<Rightarrow> bad | Some major \<Rightarrow>
       andthen (argint me 2 k) (\<lambda>r. case r of None \<Rightarrow> bad | Some minor \<Rightarrow>
         make_node e (p_cwd (pt k me)) path T_DEV (short_of (major mod 65536)) (short_of (minor mod 65536)) k))))"

definition sys_chdir :: "env \<Rightarrow> nat \<Rightarrow> 'a kproc_scheme \<Rightarrow> (int \<times> 'a kproc_scheme) outcome" where
  "sys_chdir e me k =
     andthen (argstr me 0 k) (\<lambda>r. case r of None \<Rightarrow> Ok (-1, k) | Some path \<Rightarrow>
     andthen (fs_do (namei (e_devr e) (p_cwd (pt k me)) path) k) (\<lambda>(r, k).
       case r of None \<Rightarrow> Ok (-1, k)
       | Some ip \<Rightarrow>
         andthen (fs_run (ilock ip) k) (\<lambda>k.
           if i_type (icache (kn_fs k) ip) \<noteq> T_DIR
           then andthen (fs_run (iunlockput ip) k) (\<lambda>k. Ok (-1, k))
           else
             andthen (fs_run (iunlock ip) k) (\<lambda>k.
             andthen (fs_run (iput (p_cwd (pt k me))) k) (\<lambda>k.
               Ok (0, set_proc me ((pt k me)\<lparr>p_cwd := ip\<rparr>) k))))))"

text \<open>The argument vector, with \<open>n\<close> entries of the array \<^verbatim>\<open>argv\<close> left.\<close>

fun exec_args :: "nat \<Rightarrow> nat \<Rightarrow> nat \<Rightarrow> u8 list list \<Rightarrow> 'a kproc_scheme \<Rightarrow> u8 list list option outcome" where
  "exec_args me uargv 0 args k = Ok None"
| "exec_args me uargv (Suc n) args k =
     andthen (fetchint me (w32 (uargv + 4 * length args)) k) (\<lambda>r.
       case r of None \<Rightarrow> Ok None
       | Some uarg \<Rightarrow>
           if uarg = 0 then Ok (Some args)
           else andthen (fetchstr me uarg k) (\<lambda>r.
             case r of None \<Rightarrow> Ok None | Some arg \<Rightarrow> exec_args me uargv n (args @ [arg]) k))"

definition sys_exec :: "env \<Rightarrow> nat \<Rightarrow> 'a kproc_scheme \<Rightarrow> (int \<times> 'a kproc_scheme) outcome" where
  "sys_exec e me k =
     andthen (argstr me 0 k) (\<lambda>r. case r of None \<Rightarrow> Ok (-1, k) | Some path \<Rightarrow>
     andthen (argint me 1 k) (\<lambda>r. case r of None \<Rightarrow> Ok (-1, k) | Some uargv \<Rightarrow>
     andthen (exec_args me uargv MAXARG [] k) (\<lambda>r. case r of None \<Rightarrow> Ok (-1, k) | Some argv \<Rightarrow>
       exec (e_kend e) (e_kdata e) (e_devr e) me path argv k)))"

definition sys_pipe :: "env \<Rightarrow> nat \<Rightarrow> 'a kproc_scheme \<Rightarrow> (int \<times> 'a kproc_scheme) outcome" where
  "sys_pipe e me k =
     andthen (argptr me 0 8 k) (\<lambda>r. case r of None \<Rightarrow> Ok (-1, k) | Some fd \<Rightarrow>
     andthen (pipealloc (e_kend e) k) (\<lambda>(r, k). case r of None \<Rightarrow> Ok (-1, k) | Some (rdf, wrf) \<Rightarrow>
       let close = (\<lambda>k. andthen (fileclose (e_kend e) rdf k) (\<lambda>k.
                        andthen (fileclose (e_kend e) wrf k) (\<lambda>k. Ok (-1, k))));
           (fd0, k) = fdalloc me rdf k in
       case fd0 of None \<Rightarrow> close k
       | Some fd0 \<Rightarrow>
         (let (fd1, k) = fdalloc me wrf k in
          case fd1 of None \<Rightarrow> close (set_ofile me fd0 None k)
          | Some fd1 \<Rightarrow>
            andthen (user_store me fd (word_bytes fd0) k) (\<lambda>k.
            andthen (user_store me (fd + 4) (word_bytes fd1) k) (\<lambda>k. Ok (0, k))))))"

definition sys_getFileBlocks :: "env \<Rightarrow> nat \<Rightarrow> 'a kproc_scheme \<Rightarrow> (int \<times> 'a kproc_scheme) outcome" where
  "sys_getFileBlocks e me k =
     andthen (argstr me 0 k) (\<lambda>r. case r of None \<Rightarrow> Ok (-1, k) | Some path \<Rightarrow>
     andthen (getFileBlocks (e_devr e) (e_devw e) (p_cwd (pt k me)) path k) (\<lambda>((r, _), k). Ok (r, k)))"

end
