(* ===== verification/Xv6_Trap.thy ===== *)
theory Xv6_Trap
  imports Xv6_Calls
begin

text \<open>
  The system call table (syscall.c) and the trap handler (trap.c). The interrupt handlers of
  the devices are the component \<^term>\<open>e_intr\<close> of the kernel's parameters, by interrupt number; the
  acknowledgement of an interrupt and the messages on the console change no state of the model.
\<close>

unbundle bit_operations_syntax

abbreviation T_SYSCALL :: nat where "T_SYSCALL \<equiv> 64"
abbreviation T_IRQ0 :: nat where "T_IRQ0 \<equiv> 32"
abbreviation IRQ_TIMER :: nat where "IRQ_TIMER \<equiv> 0"
abbreviation IRQ_KBD :: nat where "IRQ_KBD \<equiv> 1"
abbreviation IRQ_COM1 :: nat where "IRQ_COM1 \<equiv> 4"
abbreviation IRQ_IDE :: nat where "IRQ_IDE \<equiv> 14"
abbreviation IRQ_SPURIOUS :: nat where "IRQ_SPURIOUS \<equiv> 31"
abbreviation SYS_open :: nat where "SYS_open \<equiv> 15"

section \<open>System calls\<close>

definition ret_int :: "(int \<times> 'a) outcome \<Rightarrow> (call_end \<times> 'a) outcome" where
  "ret_int m = andthen m (\<lambda>(r, k). Ok (Return r, k))"

definition ret_call :: "(int pipe_call \<times> 'a) outcome \<Rightarrow> (call_end \<times> 'a) outcome" where
  "ret_call m = andthen m (\<lambda>(r, k). Ok (case r of Done r \<Rightarrow> Return r | Sleeping _ \<Rightarrow> Asleep, k))"

text \<open>The array \<^verbatim>\<open>syscalls\<close>; entry 0 is null.\<close>

definition syscalls :: "env \<Rightarrow> nat \<Rightarrow> (nat \<times> (ksys \<Rightarrow> (call_end \<times> ksys) outcome)) list" where
  "syscalls e me =
    [(1, \<lambda>k. ret_int (sys_fork (e_kend e) (e_kdata e) (e_forkret e) (e_trapret e) me k)),
     (2, \<lambda>k. andthen (sys_exit (e_kend e) (e_paddr e) me k) (\<lambda>k. Ok (Exited, k))),
     (3, \<lambda>k. ret_call (sys_wait (e_kend e) (e_paddr e) me k)),
     (4, \<lambda>k. ret_int (sys_pipe e me k)),
     (5, \<lambda>k. ret_call (sys_read e me k)),
     (6, \<lambda>k. ret_int (sys_kill me k)),
     (7, \<lambda>k. ret_int (sys_exec e me k)),
     (8, \<lambda>k. ret_int (sys_fstat me k)),
     (9, \<lambda>k. ret_int (sys_chdir e me k)),
     (10, \<lambda>k. ret_int (sys_dup me k)),
     (11, \<lambda>k. Ok (Return (sys_getpid me k), k)),
     (12, \<lambda>k. ret_int (sys_sbrk (e_kend e) me k)),
     (13, \<lambda>k. ret_call (sys_sleep (e_ticks e) me k)),
     (14, \<lambda>k. ret_int (sys_uptime k)),
     (15, \<lambda>k. ret_int (sys_open e me k)),
     (16, \<lambda>k. ret_call (sys_write e me k)),
     (17, \<lambda>k. ret_int (sys_mknod e me k)),
     (18, \<lambda>k. ret_int (sys_unlink e me k)),
     (19, \<lambda>k. ret_int (sys_link e me k)),
     (20, \<lambda>k. ret_int (sys_mkdir e me k)),
     (21, \<lambda>k. ret_int (sys_close e me k)),
     (22, \<lambda>k. ret_int (sys_getFileBlocks e me k)),
     (23, \<lambda>k. ret_int (sys_getFreeBlocks k)),
     (24, \<lambda>k. ret_int (sys_getSharedBlocksRate k)),
     (25, \<lambda>k. ret_int (sys_dedup (e_oob e) k)),
     (26, \<lambda>k. ret_int (sys_getBlkRef me k))]"

text \<open>
  \<^verbatim>\<open>num\<close> is the word read as a signed number. The second test compares it with \<^verbatim>\<open>NELEM\<close>, which is
  unsigned; there it is not negative.
\<close>

definition syscall :: "env \<Rightarrow> nat \<Rightarrow> ksys \<Rightarrow> (call_end \<times> ksys) outcome" where
  "syscall e me k =
     (let eax = tf_get me TF_EAX k; num = int_of eax;
          call = (if 0 \<le> num \<and> num < int SYS_open then map_of (syscalls e me) eax
                  else if int SYS_open \<le> num \<and> num < 27 then map_of (syscalls e me) eax
                  else None) in
      case call of
        Some f \<Rightarrow> andthen (f k) (\<lambda>(r, k).
          case r of Return v \<Rightarrow> Ok (Return v, tf_put me TF_EAX (of_int32 v) k) | _ \<Rightarrow> Ok (r, k))
      | None \<Rightarrow> Ok (Return (-1), tf_put me TF_EAX (of_int32 (-1)) k))"

section \<open>Traps\<close>

datatype trap_end = Returns | Exits | Sleeps | Yields

definition timer_tick :: "env \<Rightarrow> ksys \<Rightarrow> ksys outcome" where
  "timer_tick e k =
     (if kp_id k = 0 then
        andthen (ticks_acquire k) (\<lambda>k.
        andthen (wakeup (e_ticks e) (k\<lparr>ticks := w32 (ticks k + 1)\<rparr>)) ticks_release)
      else Ok k)"

text \<open>The branch of a system call; the address \<open>tf\<close> of the trap frame becomes \<^verbatim>\<open>proc->tf\<close>.\<close>

definition trap_syscall :: "env \<Rightarrow> nat \<Rightarrow> nat \<Rightarrow> ksys \<Rightarrow> (trap_end \<times> ksys) outcome" where
  "trap_syscall e tf me k =
     (let die = (\<lambda>k. andthen (exit (e_kend e) (e_paddr e) me k) (\<lambda>k. Ok (Exits, k))) in
      if p_killed (pt k me) then die k
      else andthen (syscall e me (set_proc me ((pt k me)\<lparr>p_tf := tf\<rparr>) k)) (\<lambda>(r, k).
        case r of Exited \<Rightarrow> Ok (Exits, k) | Asleep \<Rightarrow> Ok (Sleeps, k)
        | Return v \<Rightarrow> if p_killed (pt k me) then die k else Ok (Returns, k)))"

text \<open>The switch on the trap number, \<open>cs\<close> being the code segment of the interrupted code.\<close>

definition trap_switch :: "env \<Rightarrow> nat \<Rightarrow> nat \<Rightarrow> nat option \<Rightarrow> ksys \<Rightarrow> ksys outcome" where
  "trap_switch e trapno cs me k =
     (if trapno = T_IRQ0 + IRQ_TIMER then timer_tick e k
      else if trapno = T_IRQ0 + IRQ_IDE then e_intr e IRQ_IDE k
      else if trapno = T_IRQ0 + IRQ_IDE + 1 then Ok k
      else if trapno = T_IRQ0 + IRQ_KBD then e_intr e IRQ_KBD k
      else if trapno = T_IRQ0 + IRQ_COM1 then e_intr e IRQ_COM1 k
      else if trapno = T_IRQ0 + 7 \<or> trapno = T_IRQ0 + IRQ_SPURIOUS then Ok k
      else case me of
        None \<Rightarrow> Panic ''trap''
      | Some p \<Rightarrow> if cs AND 3 = 0 then Panic ''trap''
          else Ok (set_proc p ((pt k p)\<lparr>p_killed := True\<rparr>) k))"

text \<open>The test for a killed process in user mode, before and after it yields.\<close>

definition trap_killed :: "env \<Rightarrow> nat \<Rightarrow> nat \<Rightarrow> ksys \<Rightarrow> (trap_end \<times> ksys) outcome option" where
  "trap_killed e cs p k =
     (if p_killed (pt k p) \<and> cs AND 3 = 3
      then Some (andthen (exit (e_kend e) (e_paddr e) p k) (\<lambda>k. Ok (Exits, k))) else None)"

definition trap :: "env \<Rightarrow> nat \<Rightarrow> nat option \<Rightarrow> ksys \<Rightarrow> (trap_end \<times> ksys) outcome" where
  "trap e tf me k =
     (let trapno = ld32 (k_mem (kn_vm k)) (tf + TF_TRAPNO);
          cs = ld32 (k_mem (kn_vm k)) (tf + TF_CS) mod 65536 in
      if trapno = T_SYSCALL then (case me of None \<Rightarrow> Undef | Some p \<Rightarrow> trap_syscall e tf p k)
      else andthen (trap_switch e trapno cs me k) (\<lambda>k.
        case me of None \<Rightarrow> Ok (Returns, k)
        | Some p \<Rightarrow>
          case trap_killed e cs p k of Some r \<Rightarrow> r
          | None \<Rightarrow>
            if p_state (pt k p) = RUNNING \<and> trapno = T_IRQ0 + IRQ_TIMER
            then andthen (yield p k) (\<lambda>k. Ok (Yields, k))
            else Ok (Returns, k)))"

text \<open>The rest of the handler when a process that yielded runs again: release the lock, test once more.\<close>

definition trap_resume :: "env \<Rightarrow> nat \<Rightarrow> nat \<Rightarrow> ksys \<Rightarrow> (trap_end \<times> ksys) outcome" where
  "trap_resume e tf p k =
     andthen (ptable_release k) (\<lambda>k.
       let cs = ld32 (k_mem (kn_vm k)) (tf + TF_CS) mod 65536 in
       case trap_killed e cs p k of Some r \<Rightarrow> r | None \<Rightarrow> Ok (Returns, k))"

end
