(* ===== verification/Xv6_Proc_Props.thy ===== *)
theory Xv6_Proc_Props
  imports Xv6_Proc
begin

text \<open>
  The process table: the lock of the table around a switch, sleeping and waking up, what
  \<^verbatim>\<open>exit\<close> leaves behind, and the invariant that no two processes have the same number.
\<close>

section \<open>The table lock\<close>

text \<open>
  A processor that holds no lock, and one that holds only the lock of the process table, as
  \<^verbatim>\<open>sched\<close> requires.
\<close>

definition no_locks :: "'a kproc_scheme \<Rightarrow> bool" where
  "no_locks k \<longleftrightarrow> \<not> lk_locked (pt_lock k) \<and> c_ncli (kp_cpu k) = 0"

definition table_locked :: "bool \<Rightarrow> 'a kproc_scheme \<Rightarrow> bool" where
  "table_locked intena k \<longleftrightarrow> holding (kp_id k) (pt_lock k) \<and> c_ncli (kp_cpu k) = 1 \<and>
     \<not> c_if (kp_cpu k) \<and> c_intena (kp_cpu k) = intena"

named_theorems lock_defs

declare ptable_acquire_def [lock_defs] ptable_release_def [lock_defs] acquire_def [lock_defs]
declare release_def [lock_defs] acquire_enter_def [lock_defs] acquire_xchg_def [lock_defs]
declare acquire_record_def [lock_defs] release_enter_def [lock_defs] release_xchg_def [lock_defs]
declare pushcli_def [lock_defs] popcli_def [lock_defs] holding_def [lock_defs] Let_def [lock_defs]

lemma ptable_acquire_free:
  assumes "no_locks k"
  obtains lk c where "ptable_acquire k = Ok (k\<lparr>pt_lock := lk, kp_cpu := c\<rparr>)"
    and "table_locked (c_if (kp_cpu k)) (k\<lparr>pt_lock := lk, kp_cpu := c\<rparr>)"
  using assms by (force simp: no_locks_def table_locked_def lock_defs)

lemma ptable_release_held:
  assumes "table_locked b k"
  obtains lk c where "ptable_release k = Ok (k\<lparr>pt_lock := lk, kp_cpu := c\<rparr>)"
    and "\<not> lk_locked lk" and "c_ncli c = 0" and "c_if c = b"
  using assms by (force simp: table_locked_def lock_defs)

lemma ptable_acquire_frame:
  assumes "ptable_acquire k = Ok k'"
  obtains lk c where "k' = k\<lparr>pt_lock := lk, kp_cpu := c\<rparr>"
  using assms by (auto simp: ptable_acquire_def andthen_eq_Ok)

lemma ptable_release_frame:
  assumes "ptable_release k = Ok k'"
  obtains lk c where "k' = k\<lparr>pt_lock := lk, kp_cpu := c\<rparr>"
  using assms by (auto simp: ptable_release_def andthen_eq_Ok)

lemma table_locked_set_proc [simp]: "table_locked b (set_proc p v k) = table_locked b k"
  by (simp add: table_locked_def set_proc_def)

lemma set_proc_simps [simp]:
  "pt (set_proc p v k) = (pt k)(p := v)" "pt_nextpid (set_proc p v k) = pt_nextpid k"
  "pt_lock (set_proc p v k) = pt_lock k" "kp_cpu (set_proc p v k) = kp_cpu k" "kp_id (set_proc p v k) = kp_id k"
  "pt_initproc (set_proc p v k) = pt_initproc k" "kn_vm (set_proc p v k) = kn_vm k"
  "kn_file (set_proc p v k) = kn_file k" "kn_fs (set_proc p v k) = kn_fs k"
  by (simp_all add: set_proc_def)

lemma sched_table_locked:
  "table_locked b k \<Longrightarrow> p_state (pt k me) \<noteq> RUNNING \<Longrightarrow> sched me k = Ok k"
  by (simp add: sched_def table_locked_def)

section \<open>Sleeping and waking up\<close>

text \<open>A lock other than the table's, held by this processor and the only one.\<close>

definition only_lock :: "spinlock \<Rightarrow> 'a kproc_scheme \<Rightarrow> bool" where
  "only_lock lk k \<longleftrightarrow> holding (kp_id k) lk \<and> \<not> lk_locked (pt_lock k) \<and> c_ncli (kp_cpu k) = 1 \<and>
     \<not> c_if (kp_cpu k)"

lemma sleep_switches:
  assumes "only_lock lk k"
  obtains lk' tl c where "sleep me chan lk k = Ok (lk', set_proc me ((pt k me)\<lparr>p_chan := chan, p_state := SLEEPING\<rparr>)
      (k\<lparr>pt_lock := tl, kp_cpu := c\<rparr>))"
    and "\<not> lk_locked lk'" and "table_locked (c_intena (kp_cpu k)) (k\<lparr>pt_lock := tl, kp_cpu := c\<rparr>)"
  using assms by (force simp: only_lock_def table_locked_def sleep_def sched_def set_proc_def lock_defs)

lemma wakeup1_pt: "pt (wakeup1 chan k) p = (if p < NPROC \<and> p_state (pt k p) = SLEEPING \<and> p_chan (pt k p) = chan
   then (pt k p)\<lparr>p_state := RUNNABLE\<rparr> else pt k p)"
  by (simp add: wakeup1_def)

lemma wakeup1_frame [simp]:
  "pt_lock (wakeup1 chan k) = pt_lock k" "kp_cpu (wakeup1 chan k) = kp_cpu k" "kp_id (wakeup1 chan k) = kp_id k"
  "pt_nextpid (wakeup1 chan k) = pt_nextpid k" "pt_initproc (wakeup1 chan k) = pt_initproc k"
  by (simp_all add: wakeup1_def)

lemma wakeup_free:
  assumes "no_locks k"
  obtains k' where "wakeup chan k = Ok k'" and "no_locks k'" and "pt k' = pt (wakeup1 chan k)"
    and "c_if (kp_cpu k') = c_if (kp_cpu k)" and "kp_id k' = kp_id k"
  using assms by (force simp: wakeup_def wakeup1_def no_locks_def lock_defs)

lemma switchuvm_locked:
  assumes "table_locked b k" and "p_pgdir (pt k p) \<noteq> 0"
  obtains v e c where "switchuvm me p k = Ok (k\<lparr>kn_vm := v, kp_esp0 := e, kp_cpu := c\<rparr>)"
    and "table_locked b (k\<lparr>kn_vm := v, kp_esp0 := e, kp_cpu := c\<rparr>)"
proof (rule that)
  show "switchuvm me p k = Ok (k\<lparr>kn_vm := (kn_vm k)\<lparr>v_cr3 := v2p (p_pgdir (pt k p))\<rparr>,
      kp_esp0 := p_kstack (pt k me) + KSTACKSIZE, kp_cpu := (kp_cpu k)\<lparr>c_ncli := 1, c_if := False\<rparr>\<rparr>)"
    using assms by (simp add: switchuvm_def table_locked_def pushcli_def popcli_def Let_def)
qed (use assms in \<open>simp add: table_locked_def holding_def\<close>)

lemma scheduler_pick_runnable:
  assumes "table_locked b k" and "p < NPROC" and "p_state (pt k p) = RUNNABLE" and "p_pgdir (pt k p) \<noteq> 0"
  obtains v e c where "scheduler_pick p k = Ok (Some p, set_proc p ((pt k p)\<lparr>p_state := RUNNING\<rparr>)
      (k\<lparr>kn_vm := v, kp_esp0 := e, kp_cpu := c\<rparr>))"
    and "table_locked b (k\<lparr>kn_vm := v, kp_esp0 := e, kp_cpu := c\<rparr>)"
proof -
  have "find (\<lambda>q. p_state (pt k q) = RUNNABLE) [p..<NPROC] = Some p"
    using assms(2,3) by (simp add: upt_conv_Cons)
  moreover obtain v e c where "switchuvm p p k = Ok (k\<lparr>kn_vm := v, kp_esp0 := e, kp_cpu := c\<rparr>)"
    and "table_locked b (k\<lparr>kn_vm := v, kp_esp0 := e, kp_cpu := c\<rparr>)"
    using switchuvm_locked [OF assms(1,4)] by metis
  ultimately show thesis using that by (simp add: scheduler_pick_def)
qed

lemma wake_sleep_locked:
  assumes "table_locked b k" and "\<not> lk_locked lk"
  obtains lk' tl c where "wake_sleep me lk k = Ok (lk', set_proc me ((pt k me)\<lparr>p_chan := 0\<rparr>) (k\<lparr>pt_lock := tl, kp_cpu := c\<rparr>))"
    and "only_lock lk' (k\<lparr>pt_lock := tl, kp_cpu := c\<rparr>)" and "c_intena c = b"
proof (rule that)
  let ?tl = "(pt_lock k)\<lparr>lk_locked := False, lk_cpu := None, lk_pcs := (lk_pcs (pt_lock k))[0 := 0]\<rparr>"
  let ?c = "(kp_cpu k)\<lparr>c_ncli := 1, c_intena := b, c_if := False\<rparr>"
  let ?lk = "lk\<lparr>lk_locked := True, lk_cpu := Some (kp_id k), lk_pcs := replicate 10 0\<rparr>"
  show "wake_sleep me lk k = Ok (?lk, set_proc me ((pt k me)\<lparr>p_chan := 0\<rparr>) (k\<lparr>pt_lock := ?tl, kp_cpu := ?c\<rparr>))"
    using assms by (simp add: wake_sleep_def table_locked_def set_proc_def lock_defs)
  show "only_lock ?lk (k\<lparr>pt_lock := ?tl, kp_cpu := ?c\<rparr>)"
    by (simp add: only_lock_def holding_def)
qed simp


section \<open>Process numbers\<close>

text \<open>The number of the process in a slot in use.\<close>

definition pid_at :: "'a kproc_scheme \<Rightarrow> nat \<Rightarrow> int option" where
  "pid_at k p = (if p_state (pt k p) = UNUSED then None else Some (p_pid (pt k p)))"

definition pids_ok :: "'a kproc_scheme \<Rightarrow> bool" where
  "pids_ok k \<longleftrightarrow> 0 < pt_nextpid k \<and>
     (\<forall>p i. pid_at k p = Some i \<longrightarrow> 0 < i \<and> i < pt_nextpid k \<and> (\<forall>q. pid_at k q = Some i \<longrightarrow> q = p))"

text \<open>What an operation does to the numbers: at most one slot gets the next one, others keep or lose theirs.\<close>

definition pid_move :: "'a kproc_scheme \<Rightarrow> 'a kproc_scheme \<Rightarrow> bool" where
  "pid_move k k' \<longleftrightarrow> pt_nextpid k \<le> pt_nextpid k' \<and>
     (\<exists>q. (\<forall>p. p \<noteq> q \<longrightarrow> pid_at k' p = pid_at k p \<or> pid_at k' p = None) \<and>
          (pid_at k' q = None \<or> pid_at k' q = pid_at k q \<or>
           pid_at k' q = Some (pt_nextpid k) \<and> pt_nextpid k < pt_nextpid k'))"

lemma pid_move_ok:
  assumes ok: "pids_ok k" and mv: "pid_move k k'"
  shows "pids_ok k'"
proof -
  obtain q where q: "\<And>p. p \<noteq> q \<Longrightarrow> pid_at k' p = pid_at k p \<or> pid_at k' p = None"
      "pid_at k' q = None \<or> pid_at k' q = pid_at k q \<or>
       pid_at k' q = Some (pt_nextpid k) \<and> pt_nextpid k < pt_nextpid k'"
    and le: "pt_nextpid k \<le> pt_nextpid k'"
    using mv unfolding pid_move_def by blast
  have src: "pid_at k p = Some i \<or> p = q \<and> i = pt_nextpid k \<and> pt_nextpid k < pt_nextpid k'"
    if "pid_at k' p = Some i" for p i
    using q that by (metis option.distinct(1) option.inject)
  have old: "0 < i \<and> i < pt_nextpid k \<and> (\<forall>r. pid_at k r = Some i \<longrightarrow> r = p)" if "pid_at k p = Some i" for p i
    using ok that unfolding pids_ok_def by blast
  show ?thesis
    unfolding pids_ok_def using ok le
    by (auto dest!: src dest: old simp: pids_ok_def)
qed

lemma pid_move_same:
  "pt_nextpid k' = pt_nextpid k \<Longrightarrow> (\<And>p. pid_at k' p = pid_at k p) \<Longrightarrow> pid_move k k'"
  by (auto simp: pid_move_def)

section \<open>What the parts of the kernel leave alone\<close>

text \<open>The part of the state that belongs to processes.\<close>

definition procs :: "'a kproc_scheme \<Rightarrow> (nat \<Rightarrow> proc) \<times> int \<times> nat \<times> spinlock \<times> cpu \<times> nat" where
  "procs k = (pt k, pt_nextpid k, pt_initproc k, pt_lock k, kp_cpu k, kp_id k)"

lemma procs_eq:
  assumes "procs k' = procs k"
  shows "pt k' = pt k" "pt_nextpid k' = pt_nextpid k" "pt_initproc k' = pt_initproc k"
    "pt_lock k' = pt_lock k" "kp_cpu k' = kp_cpu k" "kp_id k' = kp_id k"
  using assms by (simp_all add: procs_def)

lemma procs_set_file [simp]: "procs (set_file f v k) = procs k"
  by (simp add: procs_def set_file_def)

lemma procs_set_pipe [simp]: "procs (set_pipe f v k) = procs k"
  by (simp add: procs_def set_pipe_def)

lemma procs_poke [simp]: "procs (poke f k) = procs k"
  by (simp add: procs_def poke_def)

lemma procs_tf_put [simp]: "procs (tf_put p off v k) = procs k"
  by (simp add: tf_put_def)

lemma procs_kern_update [simp]: "procs (k\<lparr>kn_vm := v\<rparr>) = procs k" "procs (k\<lparr>kn_fs := s\<rparr>) = procs k"
  by (simp_all add: procs_def)

lemma fs_run_procs: "fs_run f k = Ok k' \<Longrightarrow> procs k' = procs k"
  by (auto simp: fs_run_def andthen_eq_Ok)

lemma fs_do_procs: "fs_do f k = Ok (r, k') \<Longrightarrow> procs k' = procs k"
  by (auto simp: fs_do_def andthen_eq_Ok)

lemma vm_run_procs: "vm_run f k = Ok k' \<Longrightarrow> procs k' = procs k"
  by (auto simp: vm_run_def andthen_eq_Ok)

lemma vm_do_procs: "vm_do f k = Ok (r, k') \<Longrightarrow> procs k' = procs k"
  by (auto simp: vm_do_def andthen_eq_Ok)

lemmas lift_procs = fs_run_procs fs_do_procs vm_run_procs vm_do_procs

lemma filedup_procs: "filedup f k = Ok k' \<Longrightarrow> procs k' = procs k"
  by (auto simp: filedup_def split: if_splits)

lemma fileclose_procs: "fileclose kend f k = Ok k' \<Longrightarrow> procs k' = procs k"
  by (auto simp: fileclose_def Let_def andthen_eq_Ok split: if_splits fd_type.splits prod.splits dest!: lift_procs)

lemma procs_set_proc: "procs k = procs l \<Longrightarrow> procs (set_proc p v k) = procs (set_proc p v l)"
  by (simp add: procs_def)

section \<open>Ending a process\<close>

lemma for_each_close_files:
  assumes "for_each (\<lambda>fd k. case p_ofile (pt k me) fd of
       None \<Rightarrow> Ok k
     | Some f \<Rightarrow> andthen (fileclose kend f k) (\<lambda>k.
         Ok (set_proc me ((pt k me)\<lparr>p_ofile := (p_ofile (pt k me))(fd := None)\<rparr>) k))) fds k = Ok k'"
  shows "procs k' = procs (set_proc me ((pt k me)\<lparr>p_ofile := \<lambda>fd. if fd \<in> set fds then None else p_ofile (pt k me) fd\<rparr>) k)"
  using assms
proof (induction fds arbitrary: k)
  case Nil
  then show ?case by (simp add: procs_def)
next
  case (Cons fd fds)
  show ?case
  proof (cases "p_ofile (pt k me) fd")
    case None
    then have "(\<lambda>i. if i \<in> set fds then None else p_ofile (pt k me) i) =
        (\<lambda>i. if i \<in> set (fd # fds) then None else p_ofile (pt k me) i)" by (auto simp: fun_eq_iff)
    then show ?thesis using Cons None by simp
  next
    case (Some f)
    with Cons.prems obtain k1 where c: "fileclose kend f k = Ok k1" and r: "for_each (\<lambda>fd k. case p_ofile (pt k me) fd of
       None \<Rightarrow> Ok k
     | Some f \<Rightarrow> andthen (fileclose kend f k) (\<lambda>k.
         Ok (set_proc me ((pt k me)\<lparr>p_ofile := (p_ofile (pt k me))(fd := None)\<rparr>) k))) fds
         (set_proc me ((pt k1 me)\<lparr>p_ofile := (p_ofile (pt k1 me))(fd := None)\<rparr>) k1) = Ok k'"
      by (auto simp: andthen_eq_Ok)
    have e: "(\<lambda>i. if i \<in> set fds then None else ((p_ofile (pt k me))(fd := None)) i) =
        (\<lambda>i. if i \<in> set (fd # fds) then None else p_ofile (pt k me) i)" by (auto simp: fun_eq_iff)
    show ?thesis
      using Cons.IH [OF r] procs_eq [OF fileclose_procs [OF c]] unfolding e [symmetric]
      by (simp add: procs_def cong: if_cong)
  qed
qed

lemma close_files_procs:
  assumes "close_files kend me k = Ok k'"
  shows "procs k' = procs (set_proc me ((pt k me)\<lparr>p_ofile := \<lambda>fd. if fd < NOFILE then None else p_ofile (pt k me) fd\<rparr>) k)"
  using for_each_close_files [OF assms [unfolded close_files_def]] by simp

text \<open>
  The passing of the children to \<open>init\<close>, process by process: parents change as described, states
  only from sleeping to runnable, and \<open>init\<close> does not sleep in \<^verbatim>\<open>wait\<close> once it has a zombie.
\<close>

definition asleep_on :: "nat \<Rightarrow> nat \<Rightarrow> 'a kproc_scheme \<Rightarrow> bool" where
  "asleep_on chan p k \<longleftrightarrow> p_state (pt k p) = SLEEPING \<and> p_chan (pt k p) = chan"

definition woken :: "procstate \<Rightarrow> procstate \<Rightarrow> bool" where
  "woken st st' \<longleftrightarrow> st' = st \<or> st = SLEEPING \<and> st' = RUNNABLE"

definition adopt :: "nat \<Rightarrow> nat list \<Rightarrow> 'a kproc_scheme \<Rightarrow> 'a kproc_scheme \<Rightarrow> bool" where
  "adopt me ps k k' \<longleftrightarrow> pt_nextpid k' = pt_nextpid k \<and> pt_initproc k' = pt_initproc k \<and> pt_lock k' = pt_lock k \<and>
     kp_cpu k' = kp_cpu k \<and> kp_id k' = kp_id k \<and>
     (\<forall>p. woken (p_state (pt k p)) (p_state (pt k' p)) \<and>
        pt k' p = (pt k p)\<lparr>p_state := p_state (pt k' p),
          p_parent := (if p \<in> set ps \<and> p_parent (pt k p) = Some me then Some (pt_initproc k) else p_parent (pt k p))\<rparr>)"

lemma adopt_pt:
  "adopt me ps k k' \<Longrightarrow> pt k' p = (pt k p)\<lparr>p_state := p_state (pt k' p),
     p_parent := (if p \<in> set ps \<and> p_parent (pt k p) = Some me then Some (pt_initproc k) else p_parent (pt k p))\<rparr>"
  unfolding adopt_def by blast

lemma adopt_refl: "adopt me [] k k"
  by (simp add: adopt_def woken_def)

lemma adopt_wakeup1: "adopt me [] k (wakeup1 chan k)"
  by (simp add: adopt_def woken_def wakeup1_pt)

lemma adopt_one:
  "p_parent (pt k p) = Some me \<Longrightarrow> adopt me [p] k (set_proc p ((pt k p)\<lparr>p_parent := Some (pt_initproc k)\<rparr>) k)"
  by (simp add: adopt_def woken_def)

lemma adopt_skip: "p_parent (pt k p) \<noteq> Some me \<Longrightarrow> adopt me [p] k k"
  by (auto simp: adopt_def woken_def)

lemma woken_trans: "woken a b \<Longrightarrow> woken b c \<Longrightarrow> woken a c"
  by (auto simp: woken_def)

lemma adopt_trans:
  assumes a: "adopt me ps k k1" and b: "adopt me qs k1 k2" and ne: "pt_initproc k \<noteq> me"
  shows "adopt me (ps @ qs) k k2"
proof -
  have p1: "woken (p_state (pt k p)) (p_state (pt k1 p))" "pt k1 p = (pt k p)\<lparr>p_state := p_state (pt k1 p),
      p_parent := (if p \<in> set ps \<and> p_parent (pt k p) = Some me then Some (pt_initproc k) else p_parent (pt k p))\<rparr>"
    and p2: "woken (p_state (pt k1 p)) (p_state (pt k2 p))" "pt k2 p = (pt k1 p)\<lparr>p_state := p_state (pt k2 p),
      p_parent := (if p \<in> set qs \<and> p_parent (pt k1 p) = Some me then Some (pt_initproc k1) else p_parent (pt k1 p))\<rparr>" for p
    using a b unfolding adopt_def by blast+
  have i1: "pt_initproc k1 = pt_initproc k" using a by (simp add: adopt_def)
  have "pt k2 p = (pt k p)\<lparr>p_state := p_state (pt k2 p),
      p_parent := (if p \<in> set (ps @ qs) \<and> p_parent (pt k p) = Some me then Some (pt_initproc k) else p_parent (pt k p))\<rparr>" for p
    by (subst p2(2), subst (1 2 3) p1(2)) (use ne i1 in simp)
  then show ?thesis
    using a b woken_trans [OF p1(1) p2(1)] by (simp add: adopt_def)
qed

lemma adopt_not_asleep: "adopt me ps k k' \<Longrightarrow> \<not> asleep_on chan p k \<Longrightarrow> \<not> asleep_on chan p k'"
  unfolding adopt_def asleep_on_def woken_def
  by (metis procstate.distinct(19) proc.select_convs(9) proc.surjective proc.update_convs(4) proc.update_convs(6))

lemma wakeup1_not_asleep: "p < NPROC \<Longrightarrow> \<not> asleep_on chan p (wakeup1 chan k)"
  by (simp add: asleep_on_def wakeup1_pt)

definition pass_child :: "(nat \<Rightarrow> nat) \<Rightarrow> nat \<Rightarrow> nat \<Rightarrow> 'a kproc_scheme \<Rightarrow> 'a kproc_scheme" where
  "pass_child paddr me p k =
     (if p_parent (pt k p) = Some me then
       let k = set_proc p ((pt k p)\<lparr>p_parent := Some (pt_initproc k)\<rparr>) k
       in if p_state (pt k p) = ZOMBIE then wakeup1 (paddr (pt_initproc k)) k else k
     else k)"

lemma reparent_pass: "reparent paddr me = fold (pass_child paddr me) [0..<NPROC]"
  by (simp add: reparent_def pass_child_def [abs_def])

lemma pass_child_adopt: "pt_initproc k \<noteq> me \<Longrightarrow> adopt me [p] k (pass_child paddr me p k)"
  using adopt_trans [OF adopt_one adopt_wakeup1, of k p me] adopt_one [of k p me] adopt_skip [of k p me]
  by (simp add: pass_child_def Let_def)

lemma fold_adopt: "pt_initproc k \<noteq> me \<Longrightarrow> adopt me ps k (fold (pass_child paddr me) ps k)"
proof (induction ps arbitrary: k)
  case Nil
  then show ?case by (simp add: adopt_refl)
next
  case (Cons p ps)
  have a: "adopt me [p] k (pass_child paddr me p k)" using pass_child_adopt Cons.prems .
  then have "pt_initproc (pass_child paddr me p k) \<noteq> me" using Cons.prems by (simp add: adopt_def)
  then show ?case using adopt_trans [OF a Cons.IH] Cons.prems by simp
qed

lemma fold_wakes_init:
  assumes "pt_initproc k \<noteq> me" and "pt_initproc k < NPROC" and "p \<in> set ps"
    and "p_parent (pt k p) = Some me" and "p_state (pt k p) = ZOMBIE"
  shows "\<not> asleep_on (paddr (pt_initproc k)) (pt_initproc k) (fold (pass_child paddr me) ps k)"
  using assms
proof (induction ps arbitrary: k)
  case (Cons q ps)
  let ?k = "pass_child paddr me q k"
  have a: "adopt me [q] k ?k" using pass_child_adopt Cons.prems(1) .
  then have i: "pt_initproc ?k = pt_initproc k" by (simp add: adopt_def)
  show ?case
  proof (cases "q = p")
    case True
    then have "\<not> asleep_on (paddr (pt_initproc k)) (pt_initproc k) ?k"
      using Cons.prems by (simp add: pass_child_def Let_def wakeup1_not_asleep)
    then show ?thesis using adopt_not_asleep [OF fold_adopt [of ?k me]] Cons.prems(1) i by simp
  next
    case False
    then have "pt ?k p = (pt k p)\<lparr>p_state := p_state (pt ?k p)\<rparr>" "p_state (pt ?k p) = ZOMBIE"
      using a Cons.prems(5) unfolding adopt_def woken_def by (auto dest: spec [of _ p])
    then show ?thesis using Cons.IH [of ?k] Cons.prems False i by simp
  qed
qed simp

lemma exit_parts:
  assumes ex: "exit kend paddr me k = Ok k'"
  obtains k3 k4 k5 where "pt_initproc k \<noteq> me"
    and "pt k3 = (pt k)(me := (pt k me)\<lparr>p_ofile := \<lambda>fd. if fd < NOFILE then None else p_ofile (pt k me) fd\<rparr>)"
    and "pt_initproc k3 = pt_initproc k" and "pt_nextpid k3 = pt_nextpid k"
    and "k4 = (case p_parent (pt k3 me) of Some pp \<Rightarrow> wakeup1 (paddr pp) k3 | None \<Rightarrow> wakeup1 0 k3)"
    and "k5 = reparent paddr me k4" and "adopt me [] k3 k4" and "adopt me [0..<NPROC] k4 k5" and "adopt me [0..<NPROC] k3 k5"
    and "k' = set_proc me ((pt k5 me)\<lparr>p_state := ZOMBIE\<rparr>) k5" and "holding (kp_id k') (pt_lock k')"
proof -
  have ne: "pt_initproc k \<noteq> me" using ex by (auto simp: exit_def)
  from ex obtain k1 k2 k3 where c: "close_files kend me k = Ok k1" and i: "fs_run (iput (p_cwd (pt k1 me))) k1 = Ok k2"
    and l: "ptable_acquire k2 = Ok k3"
    and s: "\<And>k4. k4 = (case p_parent (pt k3 me) of Some pp \<Rightarrow> wakeup1 (paddr pp) k3 | None \<Rightarrow> wakeup1 0 k3) \<Longrightarrow>
      sched me (set_proc me ((pt (reparent paddr me k4) me)\<lparr>p_state := ZOMBIE\<rparr>) (reparent paddr me k4)) = Ok k'"
    by (auto simp: exit_def andthen_eq_Ok Let_def split: if_splits)
  define k4 where "k4 = (case p_parent (pt k3 me) of Some pp \<Rightarrow> wakeup1 (paddr pp) k3 | None \<Rightarrow> wakeup1 0 k3)"
  define k5 where "k5 = reparent paddr me k4"
  have k': "k' = set_proc me ((pt k5 me)\<lparr>p_state := ZOMBIE\<rparr>) k5" and h: "holding (kp_id k') (pt_lock k')"
    using s [OF k4_def] by (auto simp: k5_def [symmetric] sched_def split: if_splits)
  have p3: "pt k3 = (pt k)(me := (pt k me)\<lparr>p_ofile := \<lambda>fd. if fd < NOFILE then None else p_ofile (pt k me) fd\<rparr>)"
    "pt_initproc k3 = pt_initproc k" "pt_nextpid k3 = pt_nextpid k"
    using procs_eq [OF close_files_procs [OF c]] procs_eq [OF fs_run_procs [OF i]] l
    by (auto elim!: ptable_acquire_frame)
  have a4: "adopt me [] k3 k4" by (auto simp: k4_def adopt_wakeup1 split: option.split)
  then have "pt_initproc k4 \<noteq> me" using p3 ne by (simp add: adopt_def)
  then have a5: "adopt me [0..<NPROC] k4 k5"
    using fold_adopt [of k4 me "[0..<NPROC]" paddr] by (simp add: k5_def reparent_pass)
  have "adopt me [0..<NPROC] k3 k5" using adopt_trans [OF a4 a5] ne p3 by simp
  then show thesis using that ne p3 k4_def k5_def a4 a5 k' h by blast
qed

text \<open>
  C24: a process that exits leaves nothing behind that needs it. When \<^verbatim>\<open>exit\<close> reaches its switch,
  the caller is not \<open>init\<close> and is a zombie with no open files, its children have \<open>init\<close> as
  parent, no other parent has changed, its own parent and (when there is a zombie among the children) \<open>init\<close> are not
  asleep in \<^verbatim>\<open>wait\<close>, and the table is locked.
\<close>
theorem exit_correct:
  assumes ex: "exit kend paddr me k = Ok k'" and me: "me < NPROC" and ini: "pt_initproc k < NPROC"
  shows "me \<noteq> pt_initproc k \<and> p_state (pt k' me) = ZOMBIE \<and> (\<forall>fd < NOFILE. p_ofile (pt k' me) fd = None) \<and>
    (\<forall>p < NPROC. p_parent (pt k' p) =
       (if p_parent (pt k p) = Some me then Some (pt_initproc k) else p_parent (pt k p))) \<and>
    (\<forall>pp < NPROC. p_parent (pt k me) = Some pp \<longrightarrow> \<not> asleep_on (paddr pp) pp k') \<and>
    ((\<exists>p < NPROC. p \<noteq> me \<and> p_parent (pt k p) = Some me \<and> p_state (pt k p) = ZOMBIE) \<longrightarrow>
       \<not> asleep_on (paddr (pt_initproc k)) (pt_initproc k) k') \<and>
    holding (kp_id k') (pt_lock k')"
proof -
  obtain k3 k4 k5 where ne: "pt_initproc k \<noteq> me"
    and p3: "pt k3 = (pt k)(me := (pt k me)\<lparr>p_ofile := \<lambda>fd. if fd < NOFILE then None else p_ofile (pt k me) fd\<rparr>)"
      "pt_initproc k3 = pt_initproc k"
    and k4: "k4 = (case p_parent (pt k3 me) of Some pp \<Rightarrow> wakeup1 (paddr pp) k3 | None \<Rightarrow> wakeup1 0 k3)"
    and k5: "k5 = reparent paddr me k4" and a4: "adopt me [] k3 k4" and a5: "adopt me [0..<NPROC] k4 k5"
    and a: "adopt me [0..<NPROC] k3 k5" and k': "k' = set_proc me ((pt k5 me)\<lparr>p_state := ZOMBIE\<rparr>) k5"
    and h: "holding (kp_id k') (pt_lock k')"
    by (rule exit_parts [OF ex])
  have i4: "pt_initproc k4 = pt_initproc k" using a4 p3 by (simp add: adopt_def)
  have f: "pt k5 p = (pt k3 p)\<lparr>p_state := p_state (pt k5 p), p_parent := (if p < NPROC \<and> p_parent (pt k3 p) = Some me
      then Some (pt_initproc k) else p_parent (pt k3 p))\<rparr>" for p
    using adopt_pt [OF a, of p] by (simp only: p3(2) set_upt atLeastLessThan_iff le0 simp_thms)
  have z: "\<not> asleep_on ch q k5 \<Longrightarrow> \<not> asleep_on ch q k'" for ch q by (auto simp: k' asleep_on_def)
  have par: "\<not> asleep_on (paddr pp) pp k5" if "p_parent (pt k me) = Some pp" "pp < NPROC" for pp
    using adopt_not_asleep [OF a5] wakeup1_not_asleep [of pp "paddr pp" k3] that p3 by (simp add: k4)
  have zom: "\<not> asleep_on (paddr (pt_initproc k)) (pt_initproc k) k5"
    if "p < NPROC" "p \<noteq> me" "p_parent (pt k p) = Some me" "p_state (pt k p) = ZOMBIE" for p
  proof -
    have "p_parent (pt k4 p) = Some me" "p_state (pt k4 p) = ZOMBIE"
      using a4 that p3 unfolding adopt_def woken_def by (auto dest: spec [of _ p])
    then show ?thesis using fold_wakes_init [of k4 me p "[0..<NPROC]" paddr] that ne i4 ini by (simp add: k5 reparent_pass)
  qed
  have "p_parent (pt k' p) = (if p_parent (pt k p) = Some me then Some (pt_initproc k) else p_parent (pt k p))"
    if "p < NPROC" for p
    using arg_cong [OF f [of p], of p_parent] that p3 by (cases "p = me") (simp_all add: k')
  moreover have "p_ofile (pt k' me) fd = None" if "fd < NOFILE" for fd
    using arg_cong [OF f [of me], of p_ofile] that p3 by (simp add: k')
  moreover have "p_state (pt k' me) = ZOMBIE" by (simp add: k')
  ultimately show ?thesis using ne h z par zom by blast
qed

section \<open>The operations and the process numbers\<close>

lemma pid_at_cong: "pt k' = pt k \<Longrightarrow> pid_at k' = pid_at k"
  by (simp add: pid_at_def fun_eq_iff)

lemma pid_at_set_proc [simp]:
  "pid_at (set_proc p v k) = (pid_at k)(p := (if p_state v = UNUSED then None else Some (p_pid v)))"
  by (auto simp: pid_at_def fun_eq_iff)

lemma pid_at_updates [simp]:
  "pid_at (k\<lparr>pt_lock := l\<rparr>) = pid_at k" "pid_at (k\<lparr>kp_cpu := c\<rparr>) = pid_at k" "pid_at (k\<lparr>kp_esp0 := e\<rparr>) = pid_at k"
  "pid_at (k\<lparr>kn_vm := v\<rparr>) = pid_at k" "pid_at (k\<lparr>kn_fs := s\<rparr>) = pid_at k" "pid_at (k\<lparr>pt_initproc := i\<rparr>) = pid_at k"
  by (simp_all add: pid_at_def fun_eq_iff)

lemma pid_at_set_same:
  "p_state v = UNUSED \<longleftrightarrow> p_state (pt k p) = UNUSED \<Longrightarrow> p_pid v = p_pid (pt k p) \<Longrightarrow> pid_at (set_proc p v k) = pid_at k"
  by (auto simp: pid_at_def fun_eq_iff)

lemma procs_pid_at: "procs k' = procs k \<Longrightarrow> pid_at k' = pid_at k \<and> pt_nextpid k' = pt_nextpid k"
  by (auto dest: procs_eq intro: pid_at_cong)

lemma for_each_keeps:
  assumes step: "\<And>i s s'. f i s = Ok s' \<Longrightarrow> g s' = g s" and "for_each f xs s = Ok s'"
  shows "g s' = g s"
  using assms(2) by (induction xs arbitrary: s) (auto simp: andthen_eq_Ok dest: step)

lemma find_UNUSED:
  assumes "find (\<lambda>p. p_state (pt k p) = UNUSED) [0..<NPROC] = Some p"
  shows "p < NPROC" "pid_at k p = None"
  using assms by (auto simp: find_Some_iff pid_at_def)

lemma new_stack_pt:
  obtains t c where "pt (new_stack fr tr p k) = (pt k)(p := (pt k p)\<lparr>p_tf := t, p_context := c\<rparr>)"
  by (simp add: new_stack_def Let_def poke_def)

lemma new_stack_nextpid [simp]: "pt_nextpid (new_stack fr tr p k) = pt_nextpid k"
  by (simp add: new_stack_def Let_def poke_def)

lemma kernel_kalloc_pt: "pt (snd (kernel_kalloc k)) = pt k" "pt_nextpid (snd (kernel_kalloc k)) = pt_nextpid k"
  by (simp_all add: kernel_kalloc_def case_prod_unfold Let_def)

lemma allocproc_cases:
  assumes "allocproc fr tr k = Ok (r, k')"
  obtains (full) "r = None" "pt k' = pt k" "pt_nextpid k' = pt_nextpid k"
  | (slot) p k2 st where "find (\<lambda>p. p_state (pt k p) = UNUSED) [0..<NPROC] = Some p" "pt_nextpid k2 = pt_nextpid k + 1"
      "pt k2 = (pt k)(p := (pt k p)\<lparr>p_state := EMBRYO, p_pid := pt_nextpid k, p_kstack := st\<rparr>)"
      "if st = 0 then r = None \<and> k' = set_proc p ((pt k2 p)\<lparr>p_state := UNUSED\<rparr>) k2
       else r = Some p \<and> k' = new_stack fr tr p k2"
proof -
  from assms obtain k1 where a: "ptable_acquire k = Ok k1" by (auto simp: allocproc_def andthen_eq_Ok)
  then have p1: "pt k1 = pt k" "pt_nextpid k1 = pt_nextpid k" by (auto elim: ptable_acquire_frame)
  show thesis
  proof (cases "find (\<lambda>p. p_state (pt k1 p) = UNUSED) [0..<NPROC]")
    case None
    then show ?thesis using assms a p1 full by (auto simp: allocproc_def andthen_eq_Ok elim!: ptable_release_frame)
  next
    case (Some p)
    let ?k = "set_proc p ((pt k1 p)\<lparr>p_state := EMBRYO, p_pid := pt_nextpid k1\<rparr>) k1\<lparr>pt_nextpid := pt_nextpid k1 + 1\<rparr>"
    obtain kr where r: "ptable_release ?k = Ok kr" using assms a Some by (auto simp: allocproc_def andthen_eq_Ok Let_def)
    let ?a = "kernel_kalloc kr"
    define k2 where "k2 = set_proc p ((pt (snd ?a) p)\<lparr>p_kstack := fst ?a\<rparr>) (snd ?a)"
    have p2: "pt kr = pt ?k" "pt_nextpid kr = pt_nextpid k + 1" using r p1 by (auto elim!: ptable_release_frame)
    show ?thesis
    proof (rule slot)
      show "find (\<lambda>p. p_state (pt k p) = UNUSED) [0..<NPROC] = Some p" using Some p1 by simp
      show "pt k2 = (pt k)(p := (pt k p)\<lparr>p_state := EMBRYO, p_pid := pt_nextpid k, p_kstack := fst ?a\<rparr>)"
        using p1 p2 by (simp add: k2_def kernel_kalloc_pt)
      show "pt_nextpid k2 = pt_nextpid k + 1" using p2 by (simp add: k2_def kernel_kalloc_pt)
      show "if fst ?a = 0 then r = None \<and> k' = set_proc p ((pt k2 p)\<lparr>p_state := UNUSED\<rparr>) k2
          else r = Some p \<and> k' = new_stack fr tr p k2"
        using assms a Some r by (auto simp: allocproc_def Let_def case_prod_unfold k2_def split: if_splits)
    qed
  qed
qed

text \<open>The slot \<^verbatim>\<open>allocproc\<close> returns has a new number, and all it had before apart from state, number and stack.\<close>

lemma allocproc_Some:
  assumes "allocproc fr tr k = Ok (Some p, k')"
  obtains st t c where "p < NPROC" and "p_state (pt k p) = UNUSED" and "pt_nextpid k' = pt_nextpid k + 1"
    and "pt k' = (pt k)(p := (pt k p)\<lparr>p_state := EMBRYO, p_pid := pt_nextpid k, p_kstack := st, p_tf := t, p_context := c\<rparr>)"
  using assms
proof (cases rule: allocproc_cases)
  case (slot q k2 st)
  then have q: "q = p" "k' = new_stack fr tr p k2" by (auto split: if_splits)
  obtain t c where n: "pt (new_stack fr tr p k2) = (pt k2)(p := (pt k2 p)\<lparr>p_tf := t, p_context := c\<rparr>)"
    by (rule new_stack_pt)
  show thesis
  proof (rule that)
    show "p < NPROC" "p_state (pt k p) = UNUSED" using slot(1) q by (auto simp: find_Some_iff)
    show "pt k' = (pt k)(p := (pt k p)\<lparr>p_state := EMBRYO, p_pid := pt_nextpid k, p_kstack := st, p_tf := t, p_context := c\<rparr>)"
      using n slot(3) q by simp
  qed (use slot(2) q in simp)
qed simp

lemma allocproc_None:
  assumes "allocproc fr tr k = Ok (None, k')"
  shows "pid_at k' p = pid_at k p" and "pt_nextpid k \<le> pt_nextpid k'"
  using assms by (auto elim!: allocproc_cases simp: pid_at_def find_Some_iff split: if_splits)

lemma dup_files_procs:
  assumes "for_each (\<lambda>i k. case p_ofile (pt k me) i of
       None \<Rightarrow> Ok k
     | Some f \<Rightarrow> andthen (filedup f k) (\<lambda>k.
         Ok (set_proc np ((pt k np)\<lparr>p_ofile := (p_ofile (pt k np))(i := Some f)\<rparr>) k))) fds k = Ok k'"
  shows "(pid_at k', pt_nextpid k') = (pid_at k, pt_nextpid k)"
proof (rule for_each_keeps [OF _ assms])
  fix i k k'
  assume "(case p_ofile (pt k me) i of None \<Rightarrow> Ok k
     | Some f \<Rightarrow> andthen (filedup f k) (\<lambda>k.
         Ok (set_proc np ((pt k np)\<lparr>p_ofile := (p_ofile (pt k np))(i := Some f)\<rparr>) k))) = Ok k'"
  then show "(pid_at k', pt_nextpid k') = (pid_at k, pt_nextpid k)"
    by (auto simp: andthen_eq_Ok pid_at_set_same simp del: pid_at_set_proc split: option.splits
        dest!: filedup_procs procs_pid_at)
qed

text \<open>
  One operation of the process table by the process \<open>me\<close> that runs, by the scheduler, or by an
  interrupt.
\<close>

inductive proc_step :: "nat \<Rightarrow> nat \<Rightarrow> nat \<Rightarrow> nat \<Rightarrow> (nat \<Rightarrow> nat) \<Rightarrow> 'a kproc_scheme \<Rightarrow> 'a kproc_scheme \<Rightarrow> bool"
  for kend kdata fr tr paddr where
  step_userinit: "userinit fr tr kdata ini sz root k = Ok k' \<Longrightarrow> proc_step kend kdata fr tr paddr k k'"
| step_fork: "p_state (pt k me) = RUNNING \<Longrightarrow> fork kend kdata fr tr me k = Ok (r, k') \<Longrightarrow> proc_step kend kdata fr tr paddr k k'"
| step_exit: "p_state (pt k me) = RUNNING \<Longrightarrow> exit kend paddr me k = Ok k' \<Longrightarrow> proc_step kend kdata fr tr paddr k k'"
| step_wait: "p_state (pt k me) = RUNNING \<Longrightarrow> wait kend paddr me k = Ok (w, k') \<Longrightarrow> proc_step kend kdata fr tr paddr k k'"
| step_rewait: "p_state (pt k me) = RUNNING \<Longrightarrow> wait_round kend paddr me k = Ok (w, k') \<Longrightarrow> proc_step kend kdata fr tr paddr k k'"
| step_kill: "kill pid k = Ok (r, k') \<Longrightarrow> proc_step kend kdata fr tr paddr k k'"
| step_grow: "p_state (pt k me) = RUNNING \<Longrightarrow> growproc kend me n k = Ok (r, k') \<Longrightarrow> proc_step kend kdata fr tr paddr k k'"
| step_yield: "p_state (pt k me) = RUNNING \<Longrightarrow> yield me k = Ok k' \<Longrightarrow> proc_step kend kdata fr tr paddr k k'"
| step_sleep: "p_state (pt k me) = RUNNING \<Longrightarrow> sleep me chan lk k = Ok (lk', k') \<Longrightarrow> proc_step kend kdata fr tr paddr k k'"
| step_wake: "p_state (pt k me) = RUNNING \<Longrightarrow> wake_sleep me lk k = Ok (lk', k') \<Longrightarrow> proc_step kend kdata fr tr paddr k k'"
| step_wakeup: "wakeup chan k = Ok k' \<Longrightarrow> proc_step kend kdata fr tr paddr k k'"
| step_pick: "scheduler_pick i k = Ok (r, k') \<Longrightarrow> proc_step kend kdata fr tr paddr k k'"
| step_acquire: "ptable_acquire k = Ok k' \<Longrightarrow> proc_step kend kdata fr tr paddr k k'"
| step_release: "ptable_release k = Ok k' \<Longrightarrow> proc_step kend kdata fr tr paddr k k'"

lemma switchuvm_pt: "switchuvm me p k = Ok k' \<Longrightarrow> pt k' = pt k \<and> pt_nextpid k' = pt_nextpid k"
  by (auto simp: switchuvm_def Let_def andthen_eq_Ok split: if_splits)

lemma sched_same: "sched me k = Ok k' \<Longrightarrow> k' = k"
  by (auto simp: sched_def split: if_splits)

lemma woken_UNUSED: "woken a b \<Longrightarrow> b = UNUSED \<longleftrightarrow> a = UNUSED"
  by (auto simp: woken_def)

lemma adopt_pid_at:
  assumes "adopt me ps k k'"
  shows "pid_at k' = pid_at k" and "pt_nextpid k' = pt_nextpid k"
proof -
  have "p_pid (pt k' p) = p_pid (pt k p)" for p using arg_cong [OF adopt_pt [OF assms, of p], of p_pid] by simp
  moreover have "p_state (pt k' p) = UNUSED \<longleftrightarrow> p_state (pt k p) = UNUSED" for p
    using assms woken_UNUSED unfolding adopt_def by blast
  ultimately show "pid_at k' = pid_at k" by (simp add: pid_at_def fun_eq_iff)
qed (use assms in \<open>simp add: adopt_def\<close>)

lemma exit_move:
  assumes "p_state (pt k me) = RUNNING" and "exit kend paddr me k = Ok k'"
  shows "pid_move k k'"
  using assms(2)
proof (rule exit_parts)
  fix k3 k5 :: "'a kproc_scheme"
  assume p3: "pt k3 = (pt k)(me := (pt k me)\<lparr>p_ofile := \<lambda>fd. if fd < NOFILE then None else p_ofile (pt k me) fd\<rparr>)"
      "pt_nextpid k3 = pt_nextpid k"
    and a: "adopt me [0..<NPROC] k3 k5" and k': "k' = set_proc me ((pt k5 me)\<lparr>p_state := ZOMBIE\<rparr>) k5"
  have e: "pid_at k3 = pid_at k" using p3 by (auto simp: pid_at_def fun_eq_iff)
  have "pid_at k5 me = pid_at k me" using adopt_pid_at(1) [OF a] e by simp
  then have "p_state (pt k5 me) \<noteq> UNUSED" using assms(1) by (auto simp: pid_at_def split: if_splits)
  then have "pid_at k' = pid_at k"
    using adopt_pid_at(1) [OF a] e by (simp add: k' pid_at_set_same del: pid_at_set_proc)
  then show ?thesis using adopt_pid_at(2) [OF a] p3(2) k' by (intro pid_move_same) simp_all
qed

lemma pid_move_alloc:
  assumes "allocproc fr tr k = Ok (Some p, k1)" and "pt_nextpid k' = pt_nextpid k1"
    and "\<And>q. q \<noteq> p \<Longrightarrow> pid_at k' q = pid_at k1 q" and "pid_at k' p = None \<or> pid_at k' p = pid_at k1 p"
  shows "pid_move k k'"
  using assms(1)
proof (rule allocproc_Some)
  fix st t c
  assume "pt_nextpid k1 = pt_nextpid k + 1"
    and "pt k1 = (pt k)(p := (pt k p)\<lparr>p_state := EMBRYO, p_pid := pt_nextpid k, p_kstack := st, p_tf := t, p_context := c\<rparr>)"
  then have "pt_nextpid k < pt_nextpid k1" "pid_at k1 p = Some (pt_nextpid k)" "\<And>q. q \<noteq> p \<Longrightarrow> pid_at k1 q = pid_at k q"
    by (simp_all add: pid_at_def)
  then show ?thesis using assms(2-4) unfolding pid_move_def by (intro conjI exI [of _ p]) auto
qed

lemma pid_move_alloc_None: "allocproc fr tr k = Ok (None, k') \<Longrightarrow> pid_move k k'"
  using allocproc_None by (force simp: pid_move_def)

lemma reap_pid_at:
  assumes "reap kend p k = Ok (pid, k')"
  shows "pid_at k' = (pid_at k)(p := None)" and "pt_nextpid k' = pt_nextpid k"
proof -
  from assms obtain k1 k2 where a: "vm_run (kfree kend (p_kstack (pt k p))) k = Ok k1"
    and b: "vm_run (freevm kend (p_pgdir (pt (set_proc p ((pt k1 p)\<lparr>p_kstack := 0\<rparr>) k1) p))) (set_proc p ((pt k1 p)\<lparr>p_kstack := 0\<rparr>) k1) = Ok k2"
    and c: "ptable_release (set_proc p ((pt k2 p)\<lparr>p_state := UNUSED, p_pid := 0, p_parent := None, p_name := [],
        p_killed := False\<rparr>) k2) = Ok k'"
    by (auto simp: reap_def Let_def andthen_eq_Ok)
  have "pid_at (set_proc p ((pt k1 p)\<lparr>p_kstack := 0\<rparr>) k1) = pid_at k1" by (rule pid_at_set_same) simp_all
  then have "pid_at k2 = pid_at k" "pt_nextpid k2 = pt_nextpid k"
    using a b by (simp_all del: pid_at_set_proc add: vm_run_procs procs_pid_at [OF vm_run_procs])
  then show "pid_at k' = (pid_at k)(p := None)" "pt_nextpid k' = pt_nextpid k"
    using c by (auto elim!: ptable_release_frame)
qed

lemma pid_move_eq: "pid_at k' = pid_at k \<Longrightarrow> pt_nextpid k' = pt_nextpid k \<Longrightarrow> pid_move k k'"
  by (simp add: pid_move_same)

lemma wakeup1_pid_at [simp]: "pid_at (wakeup1 chan k) = pid_at k"
  by (auto simp: pid_at_def wakeup1_pt fun_eq_iff)

lemma set_running_pid_at:
  "p_state (pt k me) \<noteq> UNUSED \<Longrightarrow> st \<noteq> UNUSED \<Longrightarrow> pid_at (set_proc me ((pt k me)\<lparr>p_state := st\<rparr>) k) = pid_at k"
  by (rule pid_at_set_same) simp_all

lemma fork_move:
  assumes "fork kend kdata fr tr me k = Ok (r, k')"
  shows "pid_move k k'"
proof -
  from assms obtain r1 k1 where al: "allocproc fr tr k = Ok (r1, k1)" by (auto simp: fork_def andthen_eq_Ok)
  show ?thesis
  proof (cases r1)
    case None
    then show ?thesis using assms al by (auto simp: fork_def intro: pid_move_alloc_None)
  next
    case (Some np)
    with assms al obtain d k2 where c: "vm_do (copyuvm kend kdata (p_pgdir (pt k1 me)) (p_sz (pt k1 me))) k1 = Ok (d, k2)"
      by (auto simp: fork_def andthen_eq_Ok)
    define k3 where "k3 = set_proc np ((pt k2 np)\<lparr>p_pgdir := d\<rparr>) k2"
    have "pid_at k3 = pid_at k2" unfolding k3_def by (rule pid_at_set_same) simp_all
    then have e3: "pid_at k3 = pid_at k1" "pt_nextpid k3 = pt_nextpid k1"
      using procs_pid_at [OF vm_do_procs [OF c]] by (simp_all add: k3_def)
    show ?thesis
    proof (cases "d = 0")
      case True
      with assms al Some c obtain k4 where v: "vm_run (kfree kend (p_kstack (pt k3 np))) k3 = Ok k4"
        and "k' = set_proc np ((pt k4 np)\<lparr>p_kstack := 0, p_state := UNUSED\<rparr>) k4"
        by (auto simp: fork_def andthen_eq_Ok k3_def Let_def)
      then show ?thesis using al Some e3 procs_pid_at [OF vm_run_procs [OF v]] by (auto intro!: pid_move_alloc)
    next
      case False
      let ?k4 = "set_proc np ((pt k3 np)\<lparr>p_sz := p_sz (pt k3 me), p_parent := Some me\<rparr>) k3"
      let ?k5 = "tf_put np TF_EAX 0 (poke (\<lambda>m. memmove m (p_tf (pt ?k4 np)) (p_tf (pt ?k4 me)) TF_SIZE) ?k4)"
      have "pid_at ?k4 = pid_at k3" by (rule pid_at_set_same) simp_all
      then have e5: "pid_at ?k5 = pid_at k3" "pt_nextpid ?k5 = pt_nextpid k3"
        using procs_pid_at [of ?k5 ?k4] by (simp_all del: pid_at_set_proc)
      from False assms al Some c obtain k6 where d: "dup_files me np ?k5 = Ok k6"
        and k': "\<And>k7. k7 = set_proc np ((pt k6 np)\<lparr>p_cwd := p_cwd (pt k6 me)\<rparr>) (k6\<lparr>kn_fs := idup (p_cwd (pt k6 me)) (kn_fs k6)\<rparr>) \<Longrightarrow>
          k' = set_proc np ((pt k7 np)\<lparr>p_state := RUNNABLE, p_name := str_to_name (p_name (pt k7 me))\<rparr>) k7"
        by (auto simp: fork_def andthen_eq_Ok k3_def Let_def)
      have e6: "pid_at k6 = pid_at k1" "pt_nextpid k6 = pt_nextpid k1"
        using dup_files_procs [OF d [unfolded dup_files_def]] e3 e5 by simp_all
      have "p_state (pt k1 np) \<noteq> UNUSED" using al Some by (auto elim!: allocproc_Some)
      then have "pid_at k6 np \<noteq> None" using e6 by (simp add: pid_at_def)
      then have "p_state (pt k6 np) \<noteq> UNUSED" by (auto simp: pid_at_def)
      then have "pid_at k' = pid_at k6" using k' [OF refl] by (auto simp: pid_at_def fun_eq_iff)
      then show ?thesis using al Some e6 k' [OF refl] by (auto intro!: pid_move_alloc)
    qed
  qed
qed

lemma userinit_move:
  assumes "userinit fr tr kdata ini sz root k = Ok k'"
  shows "pid_move k k'"
proof -
  from assms obtain p k1 where al: "allocproc fr tr k = Ok (Some p, k1)"
    by (auto simp: userinit_def andthen_eq_Ok split: option.splits)
  with assms obtain d k2 where s: "vm_do (setupkvm kdata) (k1\<lparr>pt_initproc := p\<rparr>) = Ok (d, k2)"
    by (auto simp: userinit_def andthen_eq_Ok Let_def)
  define k3 where "k3 = set_proc p ((pt k2 p)\<lparr>p_pgdir := d\<rparr>) k2"
  from assms al s obtain k4 where i: "vm_run (inituvm d ini sz) k3 = Ok k4"
    by (auto simp: userinit_def andthen_eq_Ok Let_def k3_def split: if_splits)
  have n3: "pt_nextpid k3 = pt_nextpid k1" using procs_eq [OF vm_do_procs [OF s]] by (simp add: k3_def)
  have e3: "pid_at k3 = pid_at k1"
    using procs_eq [OF vm_do_procs [OF s]] by (auto simp: k3_def pid_at_def fun_eq_iff)
  have e4: "pid_at k4 = pid_at k1" "pt_nextpid k4 = pt_nextpid k1"
    using procs_pid_at [OF vm_run_procs [OF i]] e3 n3 by simp_all
  have u: "p_state (pt k4 p) \<noteq> UNUSED"
  proof -
    have "p_state (pt k1 p) \<noteq> UNUSED" using al by (auto elim!: allocproc_Some)
    then have "pid_at k4 p \<noteq> None" using e4 by (simp add: pid_at_def)
    then show ?thesis by (auto simp: pid_at_def)
  qed
  have "pid_at k' = pid_at k4 \<and> pt_nextpid k' = pt_nextpid k4"
    using assms al s i u
    by (auto simp: userinit_def andthen_eq_Ok Let_def k3_def fs_do_def tf_put_def poke_def pid_at_def fun_eq_iff
        split: if_splits option.splits)
  then show ?thesis using al e4 by (auto intro!: pid_move_alloc)
qed

lemma wait_round_move:
  assumes "p_state (pt k me) = RUNNING" and "wait_round kend paddr me k = Ok (w, k')"
  shows "pid_move k k'"
proof (cases "find (\<lambda>p. p_parent (pt k p) = Some me \<and> p_state (pt k p) = ZOMBIE) [0..<NPROC]")
  case None
  then show ?thesis
    using assms
    by (auto simp: wait_round_def andthen_eq_Ok pid_at_set_same simp del: pid_at_set_proc split: if_splits
        dest!: sched_same elim!: ptable_release_frame intro!: pid_move_eq)
next
  case (Some p)
  with assms obtain pid where "reap kend p k = Ok (pid, k')" by (auto simp: wait_round_def andthen_eq_Ok)
  from reap_pid_at [OF this] show ?thesis by (auto simp: pid_move_def)
qed

lemma kill_move: "kill pid k = Ok (r, k') \<Longrightarrow> pid_move k k'"
  by (auto simp: kill_def andthen_eq_Ok Let_def pid_at_set_same simp del: pid_at_set_proc split: option.splits
      elim!: ptable_acquire_frame ptable_release_frame intro!: pid_move_eq)

lemma growproc_move: "growproc kend me n k = Ok (r, k') \<Longrightarrow> pid_move k k'"
  by (auto simp: growproc_def Let_def andthen_eq_Ok pid_at_set_same simp del: pid_at_set_proc split: if_splits
      dest!: switchuvm_pt vm_do_procs procs_pid_at intro!: pid_move_eq dest: pid_at_cong)

lemma yield_move: "p_state (pt k me) = RUNNING \<Longrightarrow> yield me k = Ok k' \<Longrightarrow> pid_move k k'"
  by (auto simp: yield_def andthen_eq_Ok pid_at_set_same simp del: pid_at_set_proc
      dest!: sched_same elim!: ptable_acquire_frame intro!: pid_move_eq)

lemma sleep_move: "p_state (pt k me) = RUNNING \<Longrightarrow> sleep me chan lk k = Ok (lk', k') \<Longrightarrow> pid_move k k'"
  by (auto simp: sleep_def andthen_eq_Ok Let_def pid_at_set_same simp del: pid_at_set_proc
      dest!: sched_same elim!: ptable_acquire_frame intro!: pid_move_eq)

lemma wake_sleep_move: "wake_sleep me lk k = Ok (lk', k') \<Longrightarrow> pid_move k k'"
  by (auto simp: wake_sleep_def andthen_eq_Ok Let_def pid_at_set_same simp del: pid_at_set_proc
      elim!: ptable_release_frame intro!: pid_move_eq)

lemma wakeup_move: "wakeup chan k = Ok k' \<Longrightarrow> pid_move k k'"
  by (auto simp: wakeup_def andthen_eq_Ok elim!: ptable_acquire_frame ptable_release_frame intro!: pid_move_eq)

lemma pick_move:
  assumes "scheduler_pick i k = Ok (r, k')"
  shows "pid_move k k'"
proof (cases "find (\<lambda>p. p_state (pt k p) = RUNNABLE) [i..<NPROC]")
  case (Some p)
  with assms obtain k1 where s: "switchuvm p p k = Ok k1" and k': "k' = set_proc p ((pt k1 p)\<lparr>p_state := RUNNING\<rparr>) k1"
    by (auto simp: scheduler_pick_def andthen_eq_Ok)
  have "p_state (pt k p) = RUNNABLE" using Some by (auto simp: find_Some_iff)
  then have "pid_at k' = pid_at k1" unfolding k' using switchuvm_pt [OF s] by (intro pid_at_set_same) simp_all
  then show ?thesis using switchuvm_pt [OF s] pid_at_cong [of k1 k] by (auto simp: k' intro!: pid_move_eq)
qed (use assms in \<open>auto simp: scheduler_pick_def intro!: pid_move_eq\<close>)

lemma wait_move:
  assumes "p_state (pt k me) = RUNNING" and "wait kend paddr me k = Ok (w, k')"
  shows "pid_move k k'"
proof -
  from assms obtain k1 where a: "ptable_acquire k = Ok k1" and r: "wait_round kend paddr me k1 = Ok (w, k')"
    by (auto simp: wait_def andthen_eq_Ok)
  then have "pt k1 = pt k" "pt_nextpid k1 = pt_nextpid k" "pid_at k1 = pid_at k" by (auto elim!: ptable_acquire_frame)
  then show ?thesis using wait_round_move [OF _ r] assms(1) by (simp add: pid_move_def)
qed

lemma acquire_move: "ptable_acquire k = Ok k' \<Longrightarrow> pid_move k k'"
  by (auto elim!: ptable_acquire_frame intro!: pid_move_eq)

lemma release_move: "ptable_release k = Ok k' \<Longrightarrow> pid_move k k'"
  by (auto elim!: ptable_release_frame intro!: pid_move_eq)

lemmas pid_moves = acquire_move release_move userinit_move fork_move exit_move wait_move wait_round_move kill_move growproc_move
  yield_move sleep_move wake_sleep_move wakeup_move pick_move

lemma proc_step_move: "proc_step kend kdata fr tr paddr k k' \<Longrightarrow> pid_move k k'"
  by (induction rule: proc_step.induct)
    (blast intro: pid_moves)+

lemma boot_pids_ok: "(\<And>p. p_state (pt k p) = UNUSED) \<Longrightarrow> pt_nextpid k = 1 \<Longrightarrow> pids_ok k"
  by (simp add: pids_ok_def pid_at_def)


lemma kill_found:
  assumes "no_locks k" and "find (\<lambda>q. p_pid (pt k q) = pid) [0..<NPROC] = Some p"
  obtains k' where "kill pid k = Ok (0, k')" and "no_locks k'" and "kn_vm k' = kn_vm k"
    and "pt k' = (pt k)(p := (pt k p)\<lparr>p_killed := True,
      p_state := (if p_state (pt k p) = SLEEPING then RUNNABLE else p_state (pt k p))\<rparr>)"
  using assms(1)
proof (rule ptable_acquire_free)
  fix lk c
  let ?k = "set_proc p ((pt k p)\<lparr>p_killed := True,
      p_state := (if p_state (pt k p) = SLEEPING then RUNNABLE else p_state (pt k p))\<rparr>) (k\<lparr>pt_lock := lk, kp_cpu := c\<rparr>)"
  assume a: "ptable_acquire k = Ok (k\<lparr>pt_lock := lk, kp_cpu := c\<rparr>)"
    and "table_locked (c_if (kp_cpu k)) (k\<lparr>pt_lock := lk, kp_cpu := c\<rparr>)"
  then have "table_locked (c_if (kp_cpu k)) ?k" by simp
  then show thesis
  proof (rule ptable_release_held)
    fix lk' c'
    assume r: "ptable_release ?k = Ok (?k\<lparr>pt_lock := lk', kp_cpu := c'\<rparr>)" and f: "\<not> lk_locked lk'" "c_ncli c' = 0"
    show thesis
    proof (rule that)
      show "kill pid k = Ok (0, ?k\<lparr>pt_lock := lk', kp_cpu := c'\<rparr>)" using a r assms(2) by (simp add: kill_def Let_def split del: if_split cong: if_cong)
    qed (use f in \<open>simp_all add: no_locks_def\<close>)
  qed
qed

lemma allocproc_succeeds:
  assumes "no_locks k" and "find (\<lambda>p. p_state (pt k p) = UNUSED) [0..<NPROC] = Some p"
    and "fst (kalloc (kn_vm k)) \<noteq> 0"
  obtains k' where "allocproc fr tr k = Ok (Some p, k')"
  using assms(1)
proof (rule ptable_acquire_free)
  fix lk c
  let ?k = "(set_proc p ((pt k p)\<lparr>p_state := EMBRYO, p_pid := pt_nextpid k\<rparr>) (k\<lparr>pt_lock := lk, kp_cpu := c\<rparr>))
    \<lparr>pt_nextpid := pt_nextpid k + 1\<rparr>"
  assume a: "ptable_acquire k = Ok (k\<lparr>pt_lock := lk, kp_cpu := c\<rparr>)"
    and "table_locked (c_if (kp_cpu k)) (k\<lparr>pt_lock := lk, kp_cpu := c\<rparr>)"
  then have "table_locked (c_if (kp_cpu k)) ?k" by (simp add: table_locked_def)
  then show thesis
  proof (rule ptable_release_held)
    fix lk' c'
    assume "ptable_release ?k = Ok (?k\<lparr>pt_lock := lk', kp_cpu := c'\<rparr>)"
    then show thesis
      using a assms(2,3) that by (auto simp: allocproc_def Let_def kernel_kalloc_def case_prod_unfold)
  qed
qed

text \<open>
  \<^verbatim>\<open>kill\<close> of process number 0 is not refused. Number 0 is the number of free slots, so the call marks
  the first free slot as killed and reports success, and the next process created in
  that slot is killed from the start.
\<close>
theorem kill_zero_marks_free_slot:
  assumes "no_locks k" and "fst (kalloc (kn_vm k)) \<noteq> 0"
    and "find (\<lambda>p. p_state (pt k p) = UNUSED) [0..<NPROC] = Some p"
    and "find (\<lambda>q. p_pid (pt k q) = 0) [0..<NPROC] = Some p"
  shows "\<exists>k1 k2. kill 0 k = Ok (0, k1) \<and> allocproc fr tr k1 = Ok (Some p, k2) \<and> p_killed (pt k2 p)"
proof -
  have f: "p < NPROC" "p_state (pt k p) = UNUSED" using assms(3) by (auto simp: find_Some_iff)
  obtain k1 where k1: "kill 0 k = Ok (0, k1)" "no_locks k1" "kn_vm k1 = kn_vm k"
    "pt k1 = (pt k)(p := (pt k p)\<lparr>p_killed := True, p_state := UNUSED\<rparr>)"
    by (rule kill_found [OF assms(1,4)]) (simp add: f)
  have "(\<lambda>q. p_state (pt k1 q) = UNUSED) = (\<lambda>q. p_state (pt k q) = UNUSED)" using f by (simp add: k1(4) fun_eq_iff)
  then have "find (\<lambda>q. p_state (pt k1 q) = UNUSED) [0..<NPROC] = Some p" using assms(3) by simp
  then obtain k2 where k2: "allocproc fr tr k1 = Ok (Some p, k2)"
    using allocproc_succeeds [OF k1(2)] assms(2) k1(3) by metis
  then have "p_killed (pt k2 p)" by (rule allocproc_Some) (simp add: k1(4))
  then show ?thesis using k1(1) k2 by blast
qed

section \<open>An example\<close>

text \<open>
  A kernel with one free page and three processes: \<open>init\<close> in \<^verbatim>\<open>wait\<close>, a process that runs, and a
  zombie child of it.
\<close>

definition example_fs :: dd_state where
  "example_fs = \<lparr>memdisk = \<lambda>_. zero_block, disksize = 1024, iotrace = [],
     bufs = \<lambda>_. \<lparr>b_busy = False, b_valid = False, b_dirty = False, b_dev = 1, b_sector = 0, b_prev = 0, b_next = 0, b_data = zero_block\<rparr>,
     log_start = 1014, log_size = 10, log_busy = False, log_dev = 1, lh_n = 0, lh_sector = [],
     nextInum = 0, refCount1 = 1012, refCount2 = 1013,
     icache = \<lambda>_. \<lparr>i_dev = 1, i_inum = 1, i_ref = 3, i_busy = False, i_valid = True, i_type = 1, i_major = 0, i_minor = 0,
       i_nlink = 1, i_size = 512, i_addrs = replicate 13 0\<rparr>,
     directChanged = False, indirectChanged = False\<rparr>"

definition free_proc :: proc where
  "free_proc = \<lparr>p_sz = 0, p_pgdir = 0, p_kstack = 0, p_state = UNUSED, p_pid = 0, p_parent = None, p_tf = 0, p_context = 0,
     p_chan = 0, p_killed = False, p_ofile = \<lambda>_. None, p_cwd = 0, p_name = []\<rparr>"

definition used_proc :: "procstate \<Rightarrow> int \<Rightarrow> nat option \<Rightarrow> nat \<Rightarrow> proc" where
  "used_proc st pid parent chan = free_proc\<lparr>p_state := st, p_pid := pid, p_parent := parent, p_chan := chan, p_pgdir := 0x80300000\<rparr>"

definition example_paddr :: "nat \<Rightarrow> nat" where
  "example_paddr p = 0x80112000 + 124 * p"

definition example_kern :: kproc where
  "example_kern = \<lparr>
     kn_vm = \<lparr>k_mem = \<lambda>_. 0, k_use_lock = True, k_freelist = 0x80200000, v_kpgdir = 0, v_cr3 = 0\<rparr>,
     kn_fs = example_fs, kn_file = \<lambda>_. \<lparr>f_type = FD_NONE, f_ref = 0, f_readable = False, f_writable = False, f_pipe = 0, f_ip = 0, f_off = 0\<rparr>,
     kn_pipe = \<lambda>_. pipe_setup [],
     pt = (\<lambda>_. free_proc)(0 := used_proc SLEEPING 1 None (example_paddr 0), 1 := used_proc RUNNING 2 (Some 0) 0,
       2 := used_proc ZOMBIE 3 (Some 1) 0),
     pt_lock = initlock ''ptable'' [], pt_initproc = 0, pt_nextpid = 4, kp_id = 0,
     kp_cpu = \<lparr>c_ncli = 0, c_intena = True, c_if = True\<rparr>, kp_esp0 = 0\<rparr>"

lemma example_simps:
  "pt example_kern 0 = used_proc SLEEPING 1 None (example_paddr 0)" "pt example_kern 1 = used_proc RUNNING 2 (Some 0) 0"
  "pt example_kern 2 = used_proc ZOMBIE 3 (Some 1) 0" "3 \<le> p \<Longrightarrow> pt example_kern p = free_proc"
  "pt_initproc example_kern = 0" "pt_nextpid example_kern = 4"
  by (simp_all add: example_kern_def)

lemma example_no_locks: "no_locks example_kern"
  by (simp add: no_locks_def example_kern_def initlock_def)

lemma example_find_free: "find (\<lambda>p. p_state (pt example_kern p) = UNUSED) [0..<NPROC] = Some 3"
  "find (\<lambda>q. p_pid (pt example_kern q) = 0) [0..<NPROC] = Some 3"
  by (simp_all add: upt_conv_Cons example_kern_def used_proc_def free_proc_def)

theorem kill_zero_marks_free_slot_witness:
  "\<exists>k1 k2. kill 0 example_kern = Ok (0, k1) \<and> allocproc 0x80103000 0x80105000 k1 = Ok (Some 3, k2) \<and> p_killed (pt k2 3)"
  by (rule kill_zero_marks_free_slot [OF example_no_locks _ example_find_free])
    (simp add: kalloc_def example_kern_def)

definition example_held :: spinlock where
  "example_held = \<lparr>lk_locked = True, lk_name = ''time'', lk_cpu = Some 0, lk_pcs = []\<rparr>"

definition example_busy :: kproc where
  "example_busy = example_kern\<lparr>kp_cpu := \<lparr>c_ncli = 1, c_intena = True, c_if = False\<rparr>\<rparr>"


lemma close_files_none:
  "(\<And>fd. fd \<in> set fds \<Longrightarrow> p_ofile (pt k me) fd = None) \<Longrightarrow> for_each (\<lambda>fd k. case p_ofile (pt k me) fd of
       None \<Rightarrow> Ok k
     | Some f \<Rightarrow> andthen (fileclose kend f k) (\<lambda>k.
         Ok (set_proc me ((pt k me)\<lparr>p_ofile := (p_ofile (pt k me))(fd := None)\<rparr>) k))) fds k = Ok k"
  by (induction fds) simp_all

lemma exit_reaches_switch:
  assumes "me \<noteq> pt_initproc k" and "close_files kend me k = Ok k1" and "fs_run (iput (p_cwd (pt k1 me))) k1 = Ok k2" and "no_locks k2"
    and "pt_initproc k2 = pt_initproc k"
  obtains k' where "exit kend paddr me k = Ok k'"
  using assms(4)
proof (rule ptable_acquire_free)
  fix lk c
  define k3 where "k3 = k2\<lparr>pt_lock := lk, kp_cpu := c\<rparr>"
  define k4 where "k4 = (case p_parent (pt k3 me) of Some pp \<Rightarrow> wakeup1 (paddr pp) k3 | None \<Rightarrow> wakeup1 0 k3)"
  assume a: "ptable_acquire k2 = Ok (k2\<lparr>pt_lock := lk, kp_cpu := c\<rparr>)"
    and t: "table_locked (c_if (kp_cpu k2)) (k2\<lparr>pt_lock := lk, kp_cpu := c\<rparr>)"
  have a4: "adopt me [] k3 k4" by (auto simp: k4_def adopt_wakeup1 split: option.split)
  then have "pt_initproc k4 \<noteq> me" using assms(1,5) by (simp add: adopt_def k3_def)
  then have "adopt me [0..<NPROC] k4 (reparent paddr me k4)" by (simp add: reparent_pass fold_adopt)
  then have "table_locked (c_if (kp_cpu k2)) (reparent paddr me k4)"
    using a4 t by (simp add: adopt_def table_locked_def k3_def)
  then have "sched me (set_proc me ((pt (reparent paddr me k4) me)\<lparr>p_state := ZOMBIE\<rparr>) (reparent paddr me k4)) =
      Ok (set_proc me ((pt (reparent paddr me k4) me)\<lparr>p_state := ZOMBIE\<rparr>) (reparent paddr me k4))"
    by (intro sched_table_locked) simp_all
  then show thesis using assms(1-3) a [folded k3_def] that by (simp add: exit_def Let_def k4_def)
qed

theorem exit_correct_witness:
  "\<exists>k'. exit 0x80110000 example_paddr 1 example_kern = Ok k' \<and> p_state (pt k' 1) = ZOMBIE \<and>
     p_parent (pt k' 2) = Some 0 \<and> \<not> asleep_on (example_paddr 0) 0 k'"
proof -
  have c: "close_files 0x80110000 1 example_kern = Ok example_kern"
    unfolding close_files_def by (rule close_files_none) (simp add: example_simps used_proc_def free_proc_def)
  obtain k2 where i: "fs_run (iput (p_cwd (pt example_kern 1))) example_kern = Ok k2"
    by (simp add: fs_run_def iput_def example_simps used_proc_def free_proc_def) (simp add: example_kern_def example_fs_def)
  have n: "no_locks k2" "pt_initproc k2 = pt_initproc example_kern"
    using procs_eq [OF fs_run_procs [OF i]] example_no_locks by (simp_all add: no_locks_def)
  have "1 \<noteq> pt_initproc example_kern" by (simp add: example_simps)
  from exit_reaches_switch [OF this c i n] obtain k' where e: "exit 0x80110000 example_paddr 1 example_kern = Ok k'"
    by metis
  then show ?thesis
    using exit_correct [OF e] by (auto simp: example_simps used_proc_def free_proc_def)
qed


end
