(* ===== verification/Xv6_Example.thy ===== *)
theory Xv6_Example
  imports Xv6_Syscall Xv6_Proc_Props Xv6_Vm_Correct
begin

text \<open>
  A kernel in which a process with one page of memory is about to make a system call, for the
  examples of the theories on system calls and traps.
\<close>

unbundle bit_operations_syntax

text \<open>
  Process 1 has one page of memory, a trap frame with stack pointer 4000 that was saved in user mode, the system call
  argument \<open>a\<close> on its stack, and the string \<^verbatim>\<open>ab\<close> at address 16.
\<close>

definition user_mem :: "nat \<Rightarrow> mem" where
  "user_mem a = (st32 (st32 (st32 (k_mem vm_example) (0x80210000 + TF_ESP) 4000) (0x80210000 + TF_CS) 27) (0x80202000 + 4004) a)
     (0x80202010 := 97, 0x80202011 := 98)"

definition example_user :: "nat \<Rightarrow> ksys" where
  "example_user a = kproc.extend (example_kern\<lparr>
       kn_vm := \<lparr>k_mem = (user_mem a), k_use_lock = True, k_freelist = 0x80203000, v_kpgdir = 0, v_cr3 = 0\<rparr>,
       pt := (pt example_kern)(1 := (used_proc RUNNING 2 (Some 0) 0)\<lparr>p_pgdir := 0x80200000, p_sz := 4096, p_tf := 0x80210000\<rparr>)\<rparr>)
     (ksys.fields 4294967295 (initlock ''time'' []))"

lemma user_mem_entries:
  "ld32 (user_mem a) 0x80200000 = 0x201007" "ld32 (user_mem a) 0x80201000 = 0x202007"
  "ld32 (user_mem a) (0x80210000 + TF_ESP) = 4000" "ld32 (user_mem a) (0x80210000 + TF_CS) = 27" "ld32 (user_mem a) (0x80210000 + TF_TRAPNO) = 0"
proof -
  have far: "ld32 (user_mem a) b = ld32 (st32 (st32 (st32 (k_mem vm_example) (0x80210000 + TF_ESP) 4000) (0x80210000 + TF_CS) 27) (0x80202000 + 4004) a) b"
    if "b + 4 \<le> 0x80202010 \<or> 0x80202012 \<le> b" for b
    using that by (intro ld32_cong) (auto simp: user_mem_def)
  have z: "ld32 (k_mem vm_example) (0x80210000 + TF_TRAPNO) = 0" by (rule vm_example_ld32) simp_all
  show "ld32 (user_mem a) 0x80200000 = 0x201007" "ld32 (user_mem a) 0x80201000 = 0x202007"
    "ld32 (user_mem a) (0x80210000 + TF_ESP) = 4000" "ld32 (user_mem a) (0x80210000 + TF_CS) = 27" "ld32 (user_mem a) (0x80210000 + TF_TRAPNO) = 0"
    using vm_example_ld32_entries z by (simp_all add: far ld32_st32_other)
qed

lemma example_user_simps:
  "kn_vm (example_user a) = \<lparr>k_mem = (user_mem a), k_use_lock = True, k_freelist = 0x80203000, v_kpgdir = 0, v_cr3 = 0\<rparr>"
  "pt (example_user a) = (pt example_kern)(1 := (used_proc RUNNING 2 (Some 0) 0)\<lparr>p_pgdir := 0x80200000, p_sz := 4096, p_tf := 0x80210000\<rparr>)"
  "ticks (example_user a) = 4294967295" "ticks_lock (example_user a) = initlock ''time'' []"
  by (simp_all add: example_user_def kproc.defs ksys.defs)

lemma example_user_byte:
  assumes "v < PGSIZE"
  shows "user_byte 1 v (example_user a) = Ok ((user_mem a) (0x80202000 + v))"
proof -
  have x: "PDX v = 0" "PTX v = 0" using assms by (simp_all add: PDX_eq PTX_eq)
  have "(0x201007 :: nat) = 0x201000 OR 7" "(0x202007 :: nat) = 0x202000 OR 7" by (simp_all add: or_nat_unfold)
  then have e: "PTE_ADDR 0x201007 = 0x201000" "PTE_ADDR 0x202007 = 0x202000"
    using PTE_ADDR_entry [of "0x201000" 7] PTE_ADDR_entry [of "0x202000" 7] by simp_all
  have p: "(0x201007 :: nat) AND PTE_P \<noteq> 0" "(0x202007 :: nat) AND PTE_P \<noteq> 0" by (simp_all add: and_nat_unfold)
  show ?thesis
    using assms e p by (simp add: user_byte_def walkpgdir_def example_user_simps x user_mem_entries p2v_def)
qed

lemma example_argint:
  assumes "a < 256"
  shows "argint 1 0 (example_user a) = Ok (Some a)"
proof -
  have "user_mem a (0x80202000 + 4004) = of_nat a" "user_mem a (0x80202000 + 4005) = 0" "user_mem a (0x80202000 + 4006) = 0"
    "user_mem a (0x80202000 + 4007) = 0"
    using assms by (simp_all add: user_mem_def st32_def)
  then have "user_bytes 1 4004 (Suc (Suc (Suc (Suc 0)))) (example_user a) = Ok [of_nat a, 0, 0, 0]"
    using example_user_byte [of 4004 a] example_user_byte [of 4005 a] example_user_byte [of 4006 a] example_user_byte [of 4007 a] by simp
  moreover have "Suc (Suc (Suc (Suc 0))) = (4 :: nat)" by simp
  ultimately have b: "user_bytes 1 4004 4 (example_user a) = Ok [of_nat a, 0, 0, 0]" by (simp only:)
  have "tf_get 1 TF_ESP (example_user a) = 4000"
    using user_mem_entries(3) by (simp add: tf_get_def example_user_simps)
  then show ?thesis using b assms by (simp add: argint_def fetchint_def example_user_simps le_word_def unat_of_nat8)
qed

end
