(* ===== verification/Xv6_Calls_Props.thy ===== *)
theory Xv6_Calls_Props
  imports Xv6_Calls Xv6_Example
begin

text \<open>
  Open files: the reference counts of the file table against the descriptors of the processes.
\<close>

section \<open>Descriptors and reference counts\<close>

definition fd_set :: "'a kproc_scheme \<Rightarrow> nat \<Rightarrow> (nat \<times> nat) set" where
  "fd_set k f = {(p, fd). p < NPROC \<and> fd < NOFILE \<and> p_ofile (pt k p) fd = Some f}"

text \<open>Every descriptor names an entry of the file table, and is counted there.\<close>

definition files_ok :: "'a kproc_scheme \<Rightarrow> bool" where
  "files_ok k \<longleftrightarrow> (\<forall>f. int (card (fd_set k f)) \<le> f_ref (kn_file k f)) \<and>
     (\<forall>f. fd_set k f \<noteq> {} \<longrightarrow> f < NFILE)"

lemma finite_fd_set [simp]: "finite (fd_set k f)"
  by (rule finite_subset [of _ "{..<NPROC} \<times> {..<NOFILE}"]) (auto simp: fd_set_def)

lemma fd_set_cong: "pt k' = pt k \<Longrightarrow> fd_set k' f = fd_set k f"
  by (simp add: fd_set_def)

lemma fd_set_set_ofile:
  assumes "me < NPROC" and "fd < NOFILE"
  shows "fd_set (set_ofile me fd v k) f = (if v = Some f then insert (me, fd) (fd_set k f) else fd_set k f - {(me, fd)})"
  using assms by (auto simp: fd_set_def set_ofile_def split: if_splits)

lemma set_ofile_frame [simp]: "kn_file (set_ofile me fd v k) = kn_file k"
  by (simp add: set_ofile_def)

lemma card_fd_set_add:
  assumes "me < NPROC" and "fd < NOFILE" and "p_ofile (pt k me) fd = None"
  shows "card (fd_set (set_ofile me fd (Some f) k) g) = card (fd_set k g) + (if g = f then 1 else 0)"
proof -
  have "(me, fd) \<notin> fd_set k h" for h using assms(3) by (simp add: fd_set_def)
  then show ?thesis using assms(1,2) by (auto simp: fd_set_set_ofile One_nat_def)
qed

lemma card_fd_set_remove:
  assumes "me < NPROC" and "fd < NOFILE" and "p_ofile (pt k me) fd = Some f"
  shows "card (fd_set (set_ofile me fd None k) g) + (if g = f then 1 else 0) = card (fd_set k g)"
proof -
  have "(me, fd) \<in> fd_set k f" "\<And>h. h \<noteq> f \<Longrightarrow> (me, fd) \<notin> fd_set k h" using assms by (auto simp: fd_set_def)
  then show ?thesis
    using assms(1,2) card_Suc_Diff1 [of "fd_set k f" "(me, fd)"] by (auto simp: fd_set_set_ofile One_nat_def)
qed

section \<open>Operations on open files\<close>

lemma fileclose_kn_file:
  assumes "fileclose kend f k = Ok k'"
  shows "f_ref (kn_file k' g) = f_ref (kn_file k g) - (if g = f then 1 else 0)" and "1 \<le> f_ref (kn_file k f)"
  using assms
  by (auto simp: fileclose_def Let_def andthen_eq_Ok set_file_def set_pipe_def fs_run_def vm_run_def
      split: if_splits fd_type.splits prod.splits)

lemma filedup_kn_file:
  assumes "filedup f k = Ok k'"
  shows "f_ref (kn_file k' g) = f_ref (kn_file k g) + (if g = f then 1 else 0)"
  using assms by (auto simp: filedup_def set_file_def split: if_splits)

lemma filealloc_cases:
  assumes "filealloc k = (r, k')"
  obtains (full) "r = None" "k' = k"
  | (entry) f where "r = Some f" "f < NFILE" "f_ref (kn_file k f) = 0" "k' = set_file f ((kn_file k f)\<lparr>f_ref := 1\<rparr>) k"
proof (cases "find (\<lambda>f. f_ref (kn_file k f) = 0) [0..<NFILE]")
  case None
  then show thesis using assms full by (simp add: filealloc_def)
next
  case (Some f)
  then show thesis using assms entry [of f] find_SomeD [OF Some] by (simp add: filealloc_def)
qed

lemma fdalloc_cases:
  assumes "fdalloc me f k = (r, k')"
  obtains (full) "r = None" "k' = k"
  | (slot) fd where "r = Some fd" "fd < NOFILE" "p_ofile (pt k me) fd = None" "k' = set_ofile me fd (Some f) k"
proof (cases "find (\<lambda>fd. p_ofile (pt k me) fd = None) [0..<NOFILE]")
  case None
  then show thesis using assms full by (simp add: fdalloc_def)
next
  case (Some fd)
  then show thesis using assms slot [of fd] find_SomeD [OF Some] by (simp add: fdalloc_def)
qed

lemma le_word_less: "le_word bs < 4294967296"
  using unat_u8 [of "bs ! 0"] unat_u8 [of "bs ! 1"] unat_u8 [of "bs ! 2"] unat_u8 [of "bs ! 3"]
  unfolding le_word_def by linarith

lemma argint_less: "argint me n k = Ok (Some i) \<Longrightarrow> i < 4294967296"
  by (auto simp: argint_def fetchint_def andthen_eq_Ok le_word_less split: if_splits)

lemma argfd_Some:
  assumes "argfd me n k = Ok (Some (fd, f))"
  shows "fd < NOFILE" and "p_ofile (pt k me) fd = Some f"
proof -
  obtain r where r: "argint me n k = Ok r" using assms by (auto simp: argfd_def andthen_eq_Ok)
  then obtain i where i: "r = Some i" using assms by (cases r) (auto simp: argfd_def)
  then have b: "0 \<le> int_of i" "int_of i < int NOFILE" and o: "i = fd" "p_ofile (pt k me) fd = Some f"
    using assms r by (auto simp: argfd_def split: if_splits option.splits)
  show "fd < NOFILE" using b o(1) argint_less [of me n k i] r i by (auto simp: int_of_def split: if_splits)
  show "p_ofile (pt k me) fd = Some f" by (rule o(2))
qed

section \<open>The system calls\<close>

lemma files_ok_move:
  assumes "files_ok k"
    and "\<And>g. f_ref (kn_file k g) + int (card (fd_set k' g)) \<le> f_ref (kn_file k' g) + int (card (fd_set k g))"
    and "\<And>g. fd_set k' g \<noteq> {} \<Longrightarrow> g < NFILE"
  shows "files_ok k'"
  unfolding files_ok_def
proof (intro conjI allI impI)
  fix g
  have "int (card (fd_set k g)) \<le> f_ref (kn_file k g)" using assms(1) by (simp add: files_ok_def)
  then show "int (card (fd_set k' g)) \<le> f_ref (kn_file k' g)" using assms(2) [of g] by linarith
qed (rule assms(3))

lemma files_ok_same: "files_ok k \<Longrightarrow> pt k' = pt k \<Longrightarrow> kn_file k' = kn_file k \<Longrightarrow> files_ok k'"
  using fd_set_cong [of k' k] by (simp add: files_ok_def)

lemma files_ok_range: "files_ok k \<Longrightarrow> fd_set k g \<noteq> {} \<Longrightarrow> g < NFILE"
  by (simp add: files_ok_def)

lemma files_ok_free:
  assumes "files_ok k" and "f_ref (kn_file k f) = 0"
  shows "fd_set k f = {}"
proof -
  have "int (card (fd_set k f)) \<le> f_ref (kn_file k f)" using assms(1) unfolding files_ok_def by blast
  then have "card (fd_set k f) = 0" using assms(2) by simp
  then show ?thesis by simp
qed

lemma fs_do_frame: "fs_do f k = Ok (r, k') \<Longrightarrow> pt k' = pt k \<and> kn_file k' = kn_file k"
  by (auto simp: fs_do_def andthen_eq_Ok)

lemma fs_run_frame: "fs_run f k = Ok k' \<Longrightarrow> pt k' = pt k \<and> kn_file k' = kn_file k"
  by (auto simp: fs_run_def andthen_eq_Ok)

lemma sys_dup_files_ok:
  assumes ok: "files_ok k" and me: "me < NPROC" and s: "sys_dup me k = Ok (r, k')"
  shows "files_ok k'"
proof -
  from s obtain a where a: "argfd me 0 k = Ok a" by (auto simp: sys_dup_def andthen_eq_Ok)
  show ?thesis
  proof (cases a)
    case None
    then show ?thesis using s a ok by (simp add: sys_dup_def)
  next
    case (Some x)
    obtain fd0 f where x: "x = (fd0, f)" by force
    have o: "fd0 < NOFILE" "p_ofile (pt k me) fd0 = Some f" using argfd_Some a Some x by blast+
    obtain q k1 where d: "fdalloc me f k = (q, k1)" by force
    show ?thesis
      using d
    proof (cases rule: fdalloc_cases)
      case full
      then show ?thesis using s a Some x d ok by (simp add: sys_dup_def)
    next
      case (slot fd)
      then have u: "filedup f k1 = Ok k'" using s a Some x d by (auto simp: sys_dup_def andthen_eq_Ok)
      have c: "fd_set k' g = fd_set k1 g" for g using procs_eq(1) [OF filedup_procs [OF u]] by (rule fd_set_cong)
      show ?thesis
      proof (rule files_ok_move [OF ok])
        fix g
        show "f_ref (kn_file k g) + int (card (fd_set k' g)) \<le> f_ref (kn_file k' g) + int (card (fd_set k g))"
          using slot card_fd_set_add [OF me slot(2,3), of f g] filedup_kn_file [OF u, of g] by (simp add: c)
        have "(me, fd0) \<in> fd_set k f" using o me by (simp add: fd_set_def)
        then have "f < NFILE" using files_ok_range [OF ok, of f] by blast
        then show "g < NFILE" if "fd_set k' g \<noteq> {}"
          using that slot(4) fd_set_set_ofile [OF me slot(2), of "Some f" k g] files_ok_range [OF ok, of g]
          by (cases "g = f") (auto simp: c)
      qed
    qed
  qed
qed

lemma close_files_ok:
  assumes ok: "files_ok k" and me: "me < NPROC" "fd < NOFILE" "p_ofile (pt k me) fd = Some f"
    and c: "fileclose kend f (set_ofile me fd None k) = Ok k'"
  shows "files_ok k'"
proof (rule files_ok_move [OF ok])
  have p: "fd_set k' g = fd_set (set_ofile me fd None k) g" for g
    using procs_eq(1) [OF fileclose_procs [OF c]] by (rule fd_set_cong)
  fix g
  show "f_ref (kn_file k g) + int (card (fd_set k' g)) \<le> f_ref (kn_file k' g) + int (card (fd_set k g))"
    using card_fd_set_remove [OF me, of g] fileclose_kn_file(1) [OF c, of g] by (simp add: p split: if_splits)
  show "g < NFILE" if "fd_set k' g \<noteq> {}"
    using that files_ok_range [OF ok, of g] fd_set_set_ofile [OF me(1,2), of None k g] by (auto simp: p)
qed

lemma sys_close_files_ok:
  assumes "files_ok k" and "me < NPROC" and "sys_close e me k = Ok (r, k')"
  shows "files_ok k'"
proof -
  from assms(3) obtain a where a: "argfd me 0 k = Ok a" by (auto simp: sys_close_def andthen_eq_Ok)
  show ?thesis
  proof (cases a)
    case (Some x)
    obtain fd f where x: "x = (fd, f)" by force
    have "fd < NOFILE" "p_ofile (pt k me) fd = Some f" using argfd_Some a Some x by blast+
    moreover have "fileclose (e_kend e) f (set_ofile me fd None k) = Ok k'"
      using assms(3) a Some x by (auto simp: sys_close_def andthen_eq_Ok)
    ultimately show ?thesis using close_files_ok assms(1,2) by blast
  qed (use assms a in \<open>simp add: sys_close_def\<close>)
qed

text \<open>A file that has just been allocated and is not in any descriptor yet.\<close>

definition files_but :: "nat \<Rightarrow> 'a kproc_scheme \<Rightarrow> bool" where
  "files_but f k \<longleftrightarrow> files_ok k \<and> f < NFILE \<and> fd_set k f = {} \<and> f_ref (kn_file k f) = 1"

lemma filealloc_files_but:
  assumes "files_ok k" and "filealloc k = (Some f, k')"
  shows "files_but f k'" and "pt k' = pt k" and "f_ref (kn_file k f) = 0" and "\<And>g. g \<noteq> f \<Longrightarrow> kn_file k' g = kn_file k g"
proof -
  from assms(2) have f: "f < NFILE" "f_ref (kn_file k f) = 0" "k' = set_file f ((kn_file k f)\<lparr>f_ref := 1\<rparr>) k"
    by (auto elim: filealloc_cases)
  then show p: "pt k' = pt k" and "f_ref (kn_file k f) = 0" and "\<And>g. g \<noteq> f \<Longrightarrow> kn_file k' g = kn_file k g"
    by (simp_all add: set_file_def)
  have s: "fd_set k' g = fd_set k g" for g using p by (rule fd_set_cong)
  have "files_ok k'"
    by (rule files_ok_move [OF assms(1)]) (use f s files_ok_range [OF assms(1)] in \<open>auto simp: set_file_def\<close>)
  then show "files_but f k'" using f s files_ok_free [OF assms(1) f(2)] by (simp add: files_but_def set_file_def)
qed

lemma files_but_close:
  assumes "files_but f k" and "fileclose kend f k = Ok k'"
  shows "files_ok k'"
proof -
  have s: "fd_set k' g = fd_set k g" for g using procs_eq(1) [OF fileclose_procs [OF assms(2)]] by (rule fd_set_cong)
  show ?thesis
    unfolding files_ok_def
  proof (intro conjI allI impI)
    fix g
    show "int (card (fd_set k' g)) \<le> f_ref (kn_file k' g)"
      using assms(1) fileclose_kn_file(1) [OF assms(2), of g] by (cases "g = f") (simp_all add: s files_but_def files_ok_def)
    show "fd_set k' g \<noteq> {} \<Longrightarrow> g < NFILE" using assms(1) by (simp add: s files_but_def files_ok_def)
  qed
qed

lemma files_but_install:
  assumes "files_but f k" and "me < NPROC" and "fd < NOFILE" and "p_ofile (pt k me) fd = None"
  shows "files_ok (set_ofile me fd (Some f) k)"
  unfolding files_ok_def
proof (intro conjI allI impI)
  fix g
  show "int (card (fd_set (set_ofile me fd (Some f) k) g)) \<le> f_ref (kn_file (set_ofile me fd (Some f) k) g)"
    using assms(1) card_fd_set_add [OF assms(2-4), of f g] by (cases "g = f") (simp_all add: files_but_def files_ok_def)
  show "fd_set (set_ofile me fd (Some f) k) g \<noteq> {} \<Longrightarrow> g < NFILE"
    using assms(1) fd_set_set_ofile [OF assms(2,3), of "Some f" k g] by (cases "g = f") (auto simp: files_but_def files_ok_def)
qed

lemma sys_open_files_ok:
  assumes ok: "files_ok k" and me: "me < NPROC" and s: "sys_open e me k = Ok (r, k')"
  shows "files_ok k'"
proof -
  from s obtain a where a: "argstr me 0 k = Ok a" by (auto simp: sys_open_def andthen_eq_Ok)
  show ?thesis
  proof (cases a)
    case (Some path)
    with s a obtain b where b: "argint me 1 k = Ok b" by (auto simp: sys_open_def andthen_eq_Ok)
    show ?thesis
    proof (cases b)
      case m: (Some omode)
      with s a b Some obtain ri k1 where i: "fs_do (open_inode (e_devr e) (e_devw e) (p_cwd (pt k me)) path omode) k = Ok (ri, k1)"
        by (auto simp: sys_open_def andthen_eq_Ok)
      have ok1: "files_ok k1" using files_ok_same [OF ok] fs_do_frame [OF i] by blast
      show ?thesis
      proof (cases ri)
        case ip: (Some ip)
        obtain rf k2 where fa: "filealloc k1 = (rf, k2)" by force
        show ?thesis
        proof (cases rf)
          case None
          then have "k2 = k1" using fa by (auto elim: filealloc_cases)
          then show ?thesis
            using s a b Some m i ip fa None files_ok_same [OF ok1] by (auto simp: sys_open_def andthen_eq_Ok dest!: fs_run_frame)
        next
          case f: (Some f)
          have fb: "files_but f k2" using filealloc_files_but(1) [OF ok1] fa f by simp
          obtain rd k3 where fd: "fdalloc me f k2 = (rd, k3)" by force
          show ?thesis
            using fd
          proof (cases rule: fdalloc_cases)
            case full
            with s a b Some m i ip fa f fd obtain k4 where c: "fileclose (e_kend e) f k2 = Ok k4"
              and u: "fs_run (iunlockput ip) k4 = Ok k'" by (auto simp: sys_open_def andthen_eq_Ok)
            show ?thesis using files_ok_same [OF files_but_close [OF fb c]] fs_run_frame [OF u] by blast
          next
            case (slot d)
            with s a b Some m i ip fa f fd obtain k4 where u: "fs_run (iunlock ip) k3 = Ok k4" and k': "k' = set_open f ip omode k4"
              by (auto simp: sys_open_def andthen_eq_Ok)
            have ok3: "files_ok k3" using files_but_install [OF fb me slot(2,3)] slot(4) by simp
            have ok4: "files_ok k4" using files_ok_same [OF ok3] fs_run_frame [OF u] by blast
            have "fd_set k' g = fd_set k4 g" "f_ref (kn_file k' g) = f_ref (kn_file k4 g)" for g
              by (simp_all add: k' set_open_def set_file_def fd_set_def)
            then show ?thesis using ok4 by (simp add: files_ok_def)
          qed
        qed
      qed (use s a b Some m i ok1 in \<open>simp add: sys_open_def\<close>)
    qed (use s a b Some ok in \<open>simp add: sys_open_def\<close>)
  qed (use s a ok in \<open>simp add: sys_open_def\<close>)
qed

lemma files_but_same:
  assumes "files_but f k" and "pt k' = pt k" and "\<And>g. f_ref (kn_file k' g) = f_ref (kn_file k g)"
  shows "files_but f k'"
  using assms(1,3) fd_set_cong [OF assms(2)] by (simp add: files_but_def files_ok_def)

lemma files_but_close_other:
  assumes "files_but f k" and "files_but g k" and "f \<noteq> g" and "fileclose kend f k = Ok k'"
  shows "files_but g k'"
  using assms(2,3) files_but_close [OF assms(1,4)] fileclose_kn_file(1) [OF assms(4), of g]
    fd_set_cong [OF procs_eq(1) [OF fileclose_procs [OF assms(4)]]]
  by (simp add: files_but_def)

lemma close_both_files_ok:
  assumes "files_but f k" and "files_but g k" and "f \<noteq> g" and "fileclose kend f k = Ok k1" and "fileclose kend g k1 = Ok k'"
  shows "files_ok k'"
  using files_but_close [OF files_but_close_other [OF assms(1-4)] assms(5)] .

lemma user_store_frame: "user_store me va bs k = Ok k' \<Longrightarrow> pt k' = pt k \<and> kn_file k' = kn_file k"
  by (induction bs arbitrary: va k) (auto simp: Let_def poke_def case_prod_unfold split: if_splits)

lemma pipe_bad_none: "pipe_bad kend 0 None None k = Ok k"
  by (simp add: pipe_bad_def)

lemma pipealloc_files:
  assumes ok: "files_ok k" and s: "pipealloc kend k = Ok (r, k')"
  shows "case r of None \<Rightarrow> files_ok k' | Some (f, g) \<Rightarrow> files_but f k' \<and> files_but g k' \<and> f \<noteq> g"
proof -
  obtain r0 k1 where a0: "filealloc k = (r0, k1)" by force
  show ?thesis
  proof (cases r0)
    case None
    then have "k1 = k" using a0 by (auto elim: filealloc_cases)
    then show ?thesis using s a0 None ok by (auto simp: pipealloc_def pipe_bad_none)
  next
    case f0: (Some f0)
    have b0: "files_but f0 k1" using filealloc_files_but(1) [OF ok] a0 f0 by simp
    then have ok1: "files_ok k1" by (simp add: files_but_def)
    obtain r1 k2 where a1: "filealloc k1 = (r1, k2)" by force
    show ?thesis
    proof (cases r1)
      case None
      then have "k2 = k1" using a1 by (auto elim: filealloc_cases)
      then show ?thesis
        using s a0 a1 f0 None files_but_close [OF b0] by (auto simp: pipealloc_def pipe_bad_def andthen_eq_Ok)
    next
      case f1: (Some f1)
      have b1: "files_but f1 k2" using filealloc_files_but(1) [OF ok1] a1 f1 by simp
      have ne: "f0 \<noteq> f1" using filealloc_files_but(3) [OF ok1] a1 f1 b0 by (auto simp: files_but_def)
      have b0': "files_but f0 k2"
        using filealloc_files_but(2,4) [OF ok1, of f1 k2] a1 f1 b0 b1 ne fd_set_cong [of k2 k1 f0] by (auto simp: files_but_def)
      obtain p v where kv: "kalloc (kn_vm k2) = (p, v)" by force
      let ?k = "k2\<lparr>kn_vm := v\<rparr>"
      have b: "files_but f0 ?k" "files_but f1 ?k"
        by (rule files_but_same [OF b0'], simp, simp) (rule files_but_same [OF b1], simp, simp)
      show ?thesis
      proof (cases "p = 0")
        case True
        then obtain k3 where "fileclose kend f0 ?k = Ok k3" "fileclose kend f1 k3 = Ok k'" "r = None"
          using s a0 a1 f0 f1 kv by (auto simp: pipealloc_def pipe_bad_def andthen_eq_Ok Let_def)
        then show ?thesis using close_both_files_ok [OF b ne] by simp
      next
        case False
        have r: "r = Some (f0, f1)" using s a0 a1 f0 f1 kv False by (auto simp: pipealloc_def Let_def)
        have e: "pt k' = pt ?k" and h: "\<And>g. f_ref (kn_file k' g) = f_ref (kn_file ?k g)"
          using s a0 a1 f0 f1 kv False by (auto simp: pipealloc_def Let_def set_file_def set_pipe_def)
        show ?thesis using r files_but_same [OF b(1) e h] files_but_same [OF b(2) e h] ne by simp
      qed
    qed
  qed
qed

lemma files_but_install_other:
  assumes "files_but f k" and "files_but g k" and "f \<noteq> g" and "me < NPROC" and "fd < NOFILE" and "p_ofile (pt k me) fd = None"
  shows "files_but g (set_ofile me fd (Some f) k)"
proof -
  have "(me, fd) \<notin> fd_set k g" using assms(6) by (simp add: fd_set_def)
  then show ?thesis
    using assms(2,3) files_but_install [OF assms(1,4-6)] fd_set_set_ofile [OF assms(4,5), of "Some f" k g]
    by (simp add: files_but_def)
qed

lemma set_ofile_undo: "p_ofile (pt k me) fd = None \<Longrightarrow> pt (set_ofile me fd None (set_ofile me fd (Some f) k)) = pt k"
  by (auto simp: set_ofile_def fun_eq_iff fun_upd_idem)

lemma sys_pipe_files_ok:
  assumes ok: "files_ok k" and me: "me < NPROC" and s: "sys_pipe e me k = Ok (r, k')"
  shows "files_ok k'"
proof -
  from s obtain a where a: "argptr me 0 8 k = Ok a" by (auto simp: sys_pipe_def andthen_eq_Ok)
  show ?thesis
  proof (cases a)
    case (Some fd)
    with s a obtain rp k1 where pa: "pipealloc (e_kend e) k = Ok (rp, k1)" by (auto simp: sys_pipe_def andthen_eq_Ok)
    show ?thesis
    proof (cases rp)
      case None
      then show ?thesis using s a Some pa pipealloc_files [OF ok pa] by (simp add: sys_pipe_def)
    next
      case rp: (Some x)
      obtain f g where x: "x = (f, g)" by force
      have b: "files_but f k1" "files_but g k1" "f \<noteq> g" using pipealloc_files [OF ok pa] rp x by simp_all
      obtain r0 k2 where d0: "fdalloc me f k1 = (r0, k2)" by force
      show ?thesis
        using d0
      proof (cases rule: fdalloc_cases)
        case full
        then obtain k3 where "fileclose (e_kend e) f k1 = Ok k3" "fileclose (e_kend e) g k3 = Ok k'"
          using s a Some pa rp x d0 by (auto simp: sys_pipe_def andthen_eq_Ok Let_def)
        then show ?thesis using close_both_files_ok [OF b] by blast
      next
        case s0: (slot fd0)
        have b2: "files_but g k2" using files_but_install_other [OF b me s0(2,3)] s0(4) by simp
        obtain r1 k3 where d1: "fdalloc me g k2 = (r1, k3)" by force
        show ?thesis
          using d1
        proof (cases rule: fdalloc_cases)
          case full
          let ?k = "set_ofile me fd0 None k2"
          have p: "pt ?k = pt k1" using set_ofile_undo [OF s0(3)] s0(4) by simp
          have q: "kn_file ?k = kn_file k1" using s0(4) by simp
          have bb: "files_but f ?k" "files_but g ?k"
            by (rule files_but_same [OF b(1) p], simp only: q) (rule files_but_same [OF b(2) p], simp only: q)
          obtain k4 where "fileclose (e_kend e) f ?k = Ok k4" "fileclose (e_kend e) g k4 = Ok k'"
            using s a Some pa rp x d0 s0 d1 full by (auto simp: sys_pipe_def andthen_eq_Ok Let_def)
          then show ?thesis using close_both_files_ok [OF bb b(3)] by blast
        next
          case (slot fd1)
          have ok3: "files_ok k3" using files_but_install [OF b2 me slot(2,3)] slot(4) by simp
          obtain k4 where "user_store me fd (word_bytes fd0) k3 = Ok k4" "user_store me (fd + 4) (word_bytes fd1) k4 = Ok k'"
            using s a Some pa rp x d0 s0 d1 slot(1) by (auto simp: sys_pipe_def andthen_eq_Ok Let_def)
          then have "pt k' = pt k3" "kn_file k' = kn_file k3" using user_store_frame by metis+
          then show ?thesis using files_ok_same [OF ok3] by blast
        qed
      qed
    qed
  qed (use s a ok in \<open>simp add: sys_pipe_def\<close>)
qed

text \<open>One of the system calls that change descriptors, by any process.\<close>

inductive fd_step :: "env \<Rightarrow> 'a kproc_scheme \<Rightarrow> 'a kproc_scheme \<Rightarrow> bool" for e where
  step_dup: "me < NPROC \<Longrightarrow> sys_dup me k = Ok (r, k') \<Longrightarrow> fd_step e k k'"
| step_close: "me < NPROC \<Longrightarrow> sys_close e me k = Ok (r, k') \<Longrightarrow> fd_step e k k'"
| step_open: "me < NPROC \<Longrightarrow> sys_open e me k = Ok (r, k') \<Longrightarrow> fd_step e k k'"
| step_pipe: "me < NPROC \<Longrightarrow> sys_pipe e me k = Ok (r, k') \<Longrightarrow> fd_step e k k'"

text \<open>
  C32: an open descriptor never dangles. However the processes interleave \<^verbatim>\<open>dup\<close>, \<^verbatim>\<open>close\<close>, \<^verbatim>\<open>open\<close> and
  \<^verbatim>\<open>pipe\<close>, the reference count of an entry of the file table is at least the number of descriptors that name it,
  so every open descriptor names an entry in use, for which neither \<^verbatim>\<open>filedup\<close> nor
  \<^verbatim>\<open>fileclose\<close> panics on the count.
\<close>
theorem descriptors_counted:
  assumes "(fd_step e)\<^sup>*\<^sup>* k k'" and "files_ok k" and "p < NPROC" and "fd < NOFILE" and "p_ofile (pt k' p) fd = Some f"
  shows "f < NFILE \<and> 1 \<le> f_ref (kn_file k' f) \<and> int (card (fd_set k' f)) \<le> f_ref (kn_file k' f) \<and> (\<exists>k2. filedup f k' = Ok k2)"
proof -
  have ok: "files_ok k'" using assms(1,2)
  proof (induction rule: rtranclp_induct)
    case (step k1 k2)
    from step(2) show ?case
      using step(3) [OF step(4)]
      by cases (auto intro: sys_dup_files_ok sys_close_files_ok sys_open_files_ok sys_pipe_files_ok)
  qed
  have m: "(p, fd) \<in> fd_set k' f" using assms(3-5) by (simp add: fd_set_def)
  then have "1 \<le> card (fd_set k' f)" by (metis One_nat_def Suc_leI card_gt_0_iff empty_iff finite_fd_set)
  moreover have "int (card (fd_set k' f)) \<le> f_ref (kn_file k' f)" using ok by (simp add: files_ok_def)
  ultimately show ?thesis using files_ok_range [OF ok, of f] m by (auto simp: filedup_def)
qed

section \<open>A file that is never closed\<close>

definition free_files :: "'a kern_scheme \<Rightarrow> nat set" where
  "free_files k = {f. f < NFILE \<and> f_ref (kn_file k f) = 0}"

text \<open>
  \<^verbatim>\<open>getFileBlocks\<close> uses up an entry of the file table. Each successful call leaves the file it opened
  with a reference that no descriptor owns, so the table has one free entry less, and no more
  free entries when the call has succeeded often enough.
\<close>
theorem getFileBlocks_leaks_file:
  assumes "getFileBlocks devr devw cwd path k = Ok ((0, ls), k')"
  shows "\<exists>f < NFILE. f_ref (kn_file k f) = 0 \<and> f_ref (kn_file k' f) = 1 \<and> (\<forall>g. g \<noteq> f \<longrightarrow> kn_file k' g = kn_file k g) \<and>
    card (free_files k') + 1 = card (free_files k)"
proof -
  from assms obtain r k1 where o: "fileopen devr devw cwd path O_RDONLY k = Ok (r, k1)"
    by (auto simp: getFileBlocks_def andthen_eq_Ok)
  then obtain f where r: "r = Some f" using assms by (cases r) (auto simp: getFileBlocks_def)
  have k': "kn_file k' = kn_file k1"
    using assms o r by (auto simp: getFileBlocks_def andthen_eq_Ok Let_def fs_run_def fs_do_def)
  from o obtain ri k2 where a: "fs_do (open_inode devr devw cwd path O_RDONLY) k = Ok (ri, k2)"
    by (auto simp: fileopen_def andthen_eq_Ok)
  then obtain ip where ip: "ri = Some ip" using o r by (cases ri) (auto simp: fileopen_def)
  obtain rf k3 where b: "filealloc k2 = (rf, k3)" by force
  then have rf: "rf = Some f" using o r a ip by (cases rf) (auto simp: fileopen_def andthen_eq_Ok)
  then obtain k4 where c: "fs_run (iunlock ip) k3 = Ok k4" and d: "k1 = set_open f ip O_RDONLY k4"
    using o r a ip b by (auto simp: fileopen_def andthen_eq_Ok)
  have f: "f < NFILE" "f_ref (kn_file k2 f) = 0" "k3 = set_file f ((kn_file k2 f)\<lparr>f_ref := 1\<rparr>) k2"
    using b rf by (auto elim: filealloc_cases)
  have e: "kn_file k2 = kn_file k" "kn_file k4 = kn_file k3" using a c by (auto simp: fs_do_def fs_run_def andthen_eq_Ok)
  have u: "f_ref (kn_file k' f) = 1" "\<And>g. g \<noteq> f \<Longrightarrow> kn_file k' g = kn_file k g"
    using f e by (simp_all add: k' d set_open_def set_file_def)
  have z: "f_ref (kn_file k f) = 0" using f(2) e(1) by simp
  have "g \<in> free_files k \<longleftrightarrow> g \<in> insert f (free_files k')" for g
    using f(1) z u(2) [of g] by (cases "g = f") (simp_all add: free_files_def)
  then have "free_files k = insert f (free_files k')" by blast
  moreover have "f \<notin> free_files k'" using u(1) by (simp add: free_files_def)
  moreover have "finite (free_files k')" by (rule finite_subset [of _ "{..<NFILE}"]) (auto simp: free_files_def)
  ultimately have "card (free_files k') + 1 = card (free_files k)" by (simp add: One_nat_def)
  then show ?thesis using f(1) z u by blast
qed

section \<open>Examples\<close>

lemma user_byte_cong:
  "kn_vm k' = kn_vm k \<Longrightarrow> p_pgdir (pt k' me) = p_pgdir (pt k me) \<Longrightarrow> user_byte me va k' = user_byte me va k"
  by (simp add: user_byte_def)

lemma argint_cong:
  assumes "kn_vm k' = kn_vm k" and "p_pgdir (pt k' me) = p_pgdir (pt k me)" and "p_sz (pt k' me) = p_sz (pt k me)" and "p_tf (pt k' me) = p_tf (pt k me)"
  shows "argint me n k' = argint me n k"
proof -
  have "user_bytes me va i k' = user_bytes me va i k" for va i
    by (induction i arbitrary: va) (simp_all add: user_byte_cong [OF assms(1,2)])
  then show ?thesis using assms by (simp add: argint_def fetchint_def tf_get_def)
qed

definition example_env :: env where
  "example_env = \<lparr>e_kend = 0x80110000, e_kdata = 0x80108000, e_forkret = 0x80103000, e_trapret = 0x80105000,
     e_paddr = example_paddr, e_ticks = 0x80114000, e_oob = \<lambda>_ _. 0, e_devr = \<lambda>_. None, e_devw = \<lambda>_. None, e_intr = \<lambda>_ k. Ok k\<rparr>"

text \<open>Process 1 has descriptor 0 open and calls \<^verbatim>\<open>dup(0)\<close>.\<close>

definition example_open :: ksys where
  "example_open = (set_ofile 1 0 (Some 0) (example_user 0))\<lparr>kn_file :=
     (kn_file (example_user 0))(0 := (kn_file (example_user 0) 0)\<lparr>f_ref := 1, f_type := FD_INODE\<rparr>)\<rparr>"

lemma example_open_pt: "p_ofile (pt example_open 1) = (\<lambda>_. None)(0 := Some 0)"
  "p \<noteq> 1 \<Longrightarrow> p_ofile (pt example_open p) = (\<lambda>_. None)"
  by (simp_all add: example_open_def set_ofile_def example_user_simps example_kern_def used_proc_def free_proc_def)

lemma example_open_ok: "files_ok example_open"
proof -
  have "fd_set example_open f = (if f = 0 then {(1, 0)} else {})" for f
  proof -
    have "p_ofile (pt example_open p) fd = Some f \<longleftrightarrow> p = 1 \<and> fd = 0 \<and> f = 0" for p fd
      by (cases "p = 1") (auto simp: example_open_pt)
    then show ?thesis unfolding fd_set_def by auto
  qed
  then show ?thesis
    by (simp add: files_ok_def example_open_def) (simp add: example_user_def kproc.defs ksys.defs example_kern_def)
qed

theorem descriptors_counted_witness:
  "\<exists>k'. sys_dup 1 example_open = Ok (1, k') \<and> p_ofile (pt k' 1) 1 = Some 0 \<and> 2 \<le> f_ref (kn_file k' 0) \<and> (\<exists>k2. filedup 0 k' = Ok k2)"
proof -
  have "argint 1 0 example_open = argint 1 0 (example_user 0)"
    by (rule argint_cong) (simp_all add: example_open_def set_ofile_def)
  then have "argfd 1 0 example_open = Ok (Some (0, 0))"
    using example_argint [of 0] by (simp add: argfd_def int_of_def example_open_pt)
  moreover have "fdalloc 1 0 example_open = (Some 1, set_ofile 1 1 (Some 0) example_open)"
  proof -
    have "[0..<NOFILE] = 0 # 1 # [2..<NOFILE]" by (simp add: upt_conv_Cons)
    then show ?thesis unfolding fdalloc_def by (simp only: find.simps example_open_pt) simp
  qed
  moreover obtain k' where k': "filedup 0 (set_ofile 1 1 (Some 0) example_open) = Ok k'" and r: "f_ref (kn_file k' 0) = 2"
    by (simp add: filedup_def example_open_def set_file_def)
  ultimately have s: "sys_dup 1 example_open = Ok (1, k')" by (simp add: sys_dup_def)
  have o: "p_ofile (pt k' 1) 1 = Some 0" using procs_eq(1) [OF filedup_procs [OF k']] by (simp add: set_ofile_def)
  have "(fd_step example_env)\<^sup>*\<^sup>* example_open k'" using s by (intro r_into_rtranclp step_dup) simp_all
  from descriptors_counted [OF this example_open_ok _ _ o] show ?thesis using s o r by simp
qed

text \<open>\<^verbatim>\<open>getFileBlocks("/")\<close> on the example kernel, whose root directory has no blocks.\<close>

theorem getFileBlocks_leaks_file_witness:
  "\<exists>k'. getFileBlocks (\<lambda>_. None) (\<lambda>_. None) 0 [SLASH] example_kern = Ok ((0, []), k') \<and> card (free_files k') + 1 = card (free_files example_kern)"
proof -
  have first: "P 0 \<Longrightarrow> 0 < n \<Longrightarrow> find P [0..<n] = Some 0" for P and n :: nat by (simp add: upt_conv_Cons)
  have w: "namex_walk (\<lambda>_. None) 0 [SLASH] False [] t = Ok (Some (0, []), t)" for t :: dd_state
    by (subst namex_walk.simps) (simp add: skipelem_def)
  let ?c = "icache example_fs"
  define t1 where "t1 = set_inode 0 ((?c 0)\<lparr>i_ref := 4\<rparr>) example_fs"
  define t2 where "t2 = set_inode 0 ((icache t1 0)\<lparr>i_busy := True\<rparr>) t1"
  define t3 where "t3 = set_inode 0 ((icache t2 0)\<lparr>i_busy := False\<rparr>) t2"
  have c: "?c 0 = \<lparr>i_dev = 1, i_inum = 1, i_ref = 3, i_busy = False, i_valid = True, i_type = 1, i_major = 0, i_minor = 0,
       i_nlink = 1, i_size = 512, i_addrs = replicate 13 0\<rparr>" by (simp add: example_fs_def)
  have "iget ROOTDEV ROOTINO example_fs = Ok (0, t1)" by (simp add: iget_def first c t1_def)
  then have n: "namei (\<lambda>_. None) 0 [SLASH] example_fs = Ok (Some 0, t1)" by (simp add: namei_def namex_def w)
  have l: "ilock 0 t1 = Ok t2" "iunlock 0 t2 = Ok t3" "ilock 0 t3 = Ok t2"
    by (simp_all add: ilock_def iunlock_def t1_def t2_def t3_def set_inode_def c)
  have o: "open_inode (\<lambda>_. None) (\<lambda>_. None) 0 [SLASH] O_RDONLY example_fs = Ok (Some 0, t2)" by (simp add: open_inode_def n l)
  have "filter (\<lambda>i. replicate 13 (0 :: nat) ! i \<noteq> 0) [0..<NDIRECT] = []" by (auto simp: filter_empty_conv)
  then have b: "file_block_lines 0 t2 = Ok ([], t2)"
    by (simp add: file_block_lines_def t2_def t1_def set_inode_def c)
  have k: "kn_fs example_kern = example_fs" "f_ref (kn_file example_kern 0) = 0" by (simp_all add: example_kern_def)
  obtain k' where g: "getFileBlocks (\<lambda>_. None) (\<lambda>_. None) 0 [SLASH] example_kern = Ok ((0, []), k')"
    by (simp add: getFileBlocks_def fileopen_def fs_do_def fs_run_def k o l b filealloc_def first set_open_def set_file_def)
  from getFileBlocks_leaks_file [OF g] show ?thesis using g by blast
qed

end
