(* ===== verification/Xv6_Trap_Props.thy ===== *)
theory Xv6_Trap_Props
  imports Xv6_Trap Xv6_Calls_Props
begin

text \<open>
  The boundary between user and kernel: which arguments of a system call are accepted, what the
  dispatcher does with a number, and when a trap may return to the user.
\<close>

unbundle bit_operations_syntax

section \<open>Strings\<close>

lemma fetchstr_from_Some:
  assumes "fetchstr_from p a ep acc k = Ok (Some s)"
  obtains t where "s = acc @ t" and "a + length t < ep" and "0 \<notin> set t" and "user_byte p (a + length t) k = Ok 0"
    and "\<And>i. i < length t \<Longrightarrow> user_byte p (a + i) k = Ok (t ! i)"
  using assms
proof (induction p a ep acc k arbitrary: thesis rule: fetchstr_from.induct)
  case (1 p a ep acc k)
  from "1.prems"(2) obtain c where c: "a < ep" "user_byte p a k = Ok c"
    and d: "if c = 0 then s = acc else fetchstr_from p (a + 1) ep (acc @ [c]) k = Ok (Some s)"
    by (subst (asm) fetchstr_from.simps) (auto simp: andthen_eq_Ok split: if_splits)
  show ?case
  proof (cases "c = 0")
    case True
    then show ?thesis using "1.prems"(1) [of "[]"] c d by simp
  next
    case False
    then obtain t where t: "s = (acc @ [c]) @ t" "a + 1 + length t < ep" "0 \<notin> set t" "user_byte p (a + 1 + length t) k = Ok 0"
      "\<And>i. i < length t \<Longrightarrow> user_byte p (a + 1 + i) k = Ok (t ! i)"
      using "1.IH" [OF c(1) c(2) False] d by auto
    show ?thesis
    proof (rule "1.prems"(1) [of "c # t"])
      fix i
      assume "i < length (c # t)"
      then show "user_byte p (a + i) k = Ok ((c # t) ! i)" using c(2) t(5) [of "i - 1"] by (cases i) (simp_all add: One_nat_def)
    qed (use False t in \<open>simp_all add: One_nat_def\<close>)
  qed
qed

lemma fetchstr_from_None:
  assumes "fetchstr_from p a ep acc k = Ok None" and "a \<le> i" and "i < ep"
  shows "\<exists>c. user_byte p i k = Ok c \<and> c \<noteq> 0"
  using assms
proof (induction p a ep acc k rule: fetchstr_from.induct)
  case (1 p a ep acc k)
  from "1.prems" obtain c where c: "user_byte p a k = Ok c" "c \<noteq> 0" "fetchstr_from p (a + 1) ep (acc @ [c]) k = Ok None"
    by (subst (asm) fetchstr_from.simps) (auto simp: andthen_eq_Ok split: if_splits)
  then show ?case using "1.IH" [of c] "1.prems" by (cases "i = a") auto
qed

lemma fetchstr_from_total:
  "(\<And>i. a \<le> i \<Longrightarrow> i < ep \<Longrightarrow> \<exists>c. user_byte p i k = Ok c) \<Longrightarrow> \<exists>r. fetchstr_from p a ep acc k = Ok r"
proof (induction p a ep acc k rule: fetchstr_from.induct)
  case (1 p a ep acc k)
  show ?case
  proof (cases "a < ep")
    case True
    then obtain c where c: "user_byte p a k = Ok c" using "1.prems" [of a] by auto
    have "c \<noteq> 0 \<Longrightarrow> \<exists>r. fetchstr_from p (a + 1) ep (acc @ [c]) k = Ok r"
      using "1.IH" [OF True c] "1.prems" by simp
    then show ?thesis using True c by (cases "c = 0"; subst fetchstr_from.simps) simp_all
  next
    case False
    then show ?thesis by (subst fetchstr_from.simps) simp
  qed
qed

text \<open>
  C26: a string argument lies inside the memory of the process. When the memory of the process is
  mapped, \<^verbatim>\<open>fetchstr\<close> terminates with a result; a string it returns is the bytes at the address
  up to the first zero byte, which lies below the size of the process, and it fails only when the
  address or all bytes up to the end of the process contain no zero byte.
\<close>
theorem fetchstr_bounds:
  assumes "\<And>i. i < p_sz (pt k p) \<Longrightarrow> \<exists>c. user_byte p i k = Ok c"
  shows "(\<exists>s. fetchstr p addr k = Ok (Some s) \<and> addr + length s < p_sz (pt k p) \<and> 0 \<notin> set s \<and>
       (\<forall>i < length s. user_byte p (addr + i) k = Ok (s ! i)) \<and> user_byte p (addr + length s) k = Ok 0) \<or>
     fetchstr p addr k = Ok None \<and> (\<forall>i. addr \<le> i \<and> i < p_sz (pt k p) \<longrightarrow> (\<exists>c. user_byte p i k = Ok c \<and> c \<noteq> 0))"
proof (cases "p_sz (pt k p) \<le> addr")
  case False
  then obtain r where r: "fetchstr p addr k = Ok r"
    using fetchstr_from_total [of addr "p_sz (pt k p)" p k "[]"] assms by (auto simp: fetchstr_def)
  show ?thesis
  proof (cases r)
    case None
    then show ?thesis using r False fetchstr_from_None by (auto simp: fetchstr_def)
  next
    case (Some s)
    then have "fetchstr_from p addr (p_sz (pt k p)) [] k = Ok (Some s)" using r False by (simp add: fetchstr_def)
    then show ?thesis by (rule fetchstr_from_Some) (use r Some in auto)
  qed
qed (auto simp: fetchstr_def)

section \<open>Buffers\<close>

text \<open>
  C27: a buffer argument of non-negative size is accepted exactly when it lies inside the process.
\<close>
theorem argptr_bounds:
  assumes "argint me n k = Ok (Some i)" and "i < 4294967296" and "0 \<le> sz" and "sz < 2147483648" and "p_sz (pt k me) \<le> KERNBASE"
  shows "argptr me n sz k = Ok (if i < p_sz (pt k me) \<and> int i + sz \<le> int (p_sz (pt k me)) then Some i else None)"
proof (cases "p_sz (pt k me) \<le> i")
  case False
  then have "w32 (i + of_int32 sz) = i + nat sz" using assms by (simp add: of_int32_def nat_less_iff)
  then show ?thesis using assms False by (auto simp: argptr_def)
qed (use assms in \<open>auto simp: argptr_def\<close>)

text \<open>
  The test of \<^verbatim>\<open>argptr\<close> does not hold for negative sizes. The sum of pointer and size is
  unsigned, so a negative size is accepted for any pointer into the process that is not below
  its absolute value.
\<close>
theorem argptr_accepts_negative:
  assumes "argint me n k = Ok (Some i)" and "i < p_sz (pt k me)" and "p_sz (pt k me) \<le> KERNBASE" and "sz < 0" and "- sz \<le> int i"
  shows "argptr me n sz k = Ok (Some i)"
proof -
  have "(sz + 4294967296) mod 4294967296 = sz + 4294967296"
    using assms by (intro mod_pos_pos_trivial) linarith+
  then have "sz mod 4294967296 = sz + 4294967296" by simp
  then have "int (i + of_int32 sz) = int i + sz + 4294967296" using assms by (simp add: of_int32_def)
  then have "i + of_int32 sz = (i - nat (- sz)) + 4294967296" using assms by linarith
  then have "w32 (i + of_int32 sz) = w32 (i - nat (- sz))" by simp
  then show ?thesis using assms by (auto simp: argptr_def)
qed

section \<open>System calls\<close>

lemma syscalls_keys: "map fst (syscalls e me) = [1..<27]"
  unfolding syscalls_def by (simp only: list.map fst_conv) (simp add: upt_conv_Cons)

text \<open>
  The dispatcher calls exactly the entries of the table. A number from 1 to 26 runs the
  entry of that number, whose result goes to \<^verbatim>\<open>eax\<close>; any other number changes nothing but \<^verbatim>\<open>eax\<close>, which becomes -1.
\<close>
theorem syscall_dispatch:
  "(if 1 \<le> tf_get me TF_EAX k \<and> tf_get me TF_EAX k \<le> 26 then
      \<exists>f. map_of (syscalls e me) (tf_get me TF_EAX k) = Some f \<and>
        syscall e me k = andthen (f k) (\<lambda>(r, k').
          Ok (r, case r of Return v \<Rightarrow> tf_put me TF_EAX (of_int32 v) k' | _ \<Rightarrow> k'))
    else syscall e me k = Ok (Return (-1), tf_put me TF_EAX 0xFFFFFFFF k))"
proof -
  let ?n = "tf_get me TF_EAX k"
  have dom: "map_of (syscalls e me) n = None \<longleftrightarrow> \<not> (1 \<le> n \<and> n \<le> 26)" for n
  proof -
    have "n \<notin> fst ` set (syscalls e me) \<longleftrightarrow> \<not> (1 \<le> n \<and> n \<le> 26)"
      unfolding list.set_map [symmetric] syscalls_keys by auto
    then show ?thesis by (simp add: map_of_eq_None_iff)
  qed
  have b: "?n < 4294967296" by (simp add: tf_get_def ld32_less)
  show ?thesis
  proof (cases "1 \<le> ?n \<and> ?n \<le> 26")
    case True
    then obtain f where f: "map_of (syscalls e me) ?n = Some f" using dom by (metis not_None_eq)
    have "int_of ?n = int ?n" using True by (simp add: int_of_def)
    then show ?thesis using True f by (cases "f k") (auto simp: syscall_def Let_def split: call_end.split)
  next
    case False
    then have "map_of (syscalls e me) ?n = None \<or> int_of ?n < 0 \<or> 27 \<le> int_of ?n" using dom by blast
    then show ?thesis using False by (auto simp: syscall_def Let_def of_int32_def)
  qed
qed

section \<open>Traps\<close>

definition user_mode :: "nat \<Rightarrow> 'a kproc_scheme \<Rightarrow> bool" where
  "user_mode tf k \<longleftrightarrow> (ld32 (k_mem (kn_vm k)) (tf + TF_CS) mod 65536) AND 3 = 3"

definition trap_no :: "nat \<Rightarrow> 'a kproc_scheme \<Rightarrow> nat" where
  "trap_no tf k = ld32 (k_mem (kn_vm k)) (tf + TF_TRAPNO)"

text \<open>
  C28: a killed process does not get back to user mode. Whether the trap is a system call, an
  interrupt of code in user mode or a fault in user mode, and also after the process
  has yielded, the handler returns to the process only if it is not killed at that moment.
\<close>
theorem trap_never_returns_killed:
  assumes "trap e tf (Some p) k = Ok (Returns, k') \<and> (trap_no tf k = T_SYSCALL \<or> user_mode tf k) \<or>
    trap_resume e tf p k = Ok (Returns, k') \<and> user_mode tf k"
  shows "\<not> p_killed (pt k' p)"
proof -
  have *: "\<not> p_killed (pt k' p)" if "trap e tf (Some p) k = Ok (Returns, k')" "trap_no tf k = T_SYSCALL \<or> user_mode tf k"
    using that
    by (auto simp: trap_def Let_def trap_no_def user_mode_def trap_syscall_def trap_killed_def andthen_eq_Ok
        split: if_splits option.splits call_end.splits)
  have "\<not> p_killed (pt k' p)" if r: "trap_resume e tf p k = Ok (Returns, k')" and u: "user_mode tf k"
  proof -
    from r obtain k1 where k1: "ptable_release k = Ok k1" by (auto simp: trap_resume_def andthen_eq_Ok)
    then have "user_mode tf k1" using u by (auto simp: user_mode_def elim!: ptable_release_frame)
    then show ?thesis using r k1
      by (auto simp: trap_resume_def Let_def user_mode_def trap_killed_def andthen_eq_Ok split: if_splits option.splits)
  qed
  with * assms show ?thesis by blast
qed

text \<open>The numbers of hardware interrupts the handler knows, and system calls.\<close>

definition known_trap :: "nat \<Rightarrow> bool" where
  "known_trap n \<longleftrightarrow> n \<in> {T_SYSCALL, T_IRQ0 + IRQ_TIMER, T_IRQ0 + IRQ_IDE, T_IRQ0 + IRQ_IDE + 1, T_IRQ0 + IRQ_KBD,
     T_IRQ0 + IRQ_COM1, T_IRQ0 + 7, T_IRQ0 + IRQ_SPURIOUS}"

text \<open>
  Faults. A trap that is neither a system call nor a known interrupt panics when it comes from the
  kernel or from a processor without a process, and kills the process when it comes from user mode:
  the process is marked and made to exit at once, whatever state it was in.
\<close>
theorem trap_fault:
  assumes "\<not> known_trap (trap_no tf k)"
  shows "trap e tf None k = Panic ''trap'' \<and>
    ((ld32 (k_mem (kn_vm k)) (tf + TF_CS) mod 65536) AND 3 = 0 \<longrightarrow> trap e tf (Some p) k = Panic ''trap'') \<and>
    (user_mode tf k \<longrightarrow> trap e tf (Some p) k =
      andthen (exit (e_kend e) (e_paddr e) p (set_proc p ((pt k p)\<lparr>p_killed := True\<rparr>) k)) (\<lambda>k. Ok (Exits, k)))"
  using assms by (auto simp: known_trap_def trap_no_def user_mode_def trap_def trap_switch_def trap_killed_def Let_def)

section \<open>The clock\<close>

definition clock_idle :: "'a ksys_scheme \<Rightarrow> bool" where
  "clock_idle k \<longleftrightarrow> kp_id k = 0 \<and> no_locks k \<and> \<not> lk_locked (ticks_lock k)"

lemma ticks_acquire_idle:
  assumes "clock_idle k"
  obtains lk c where "ticks_acquire k = Ok (k\<lparr>ticks_lock := lk, kp_cpu := c\<rparr>)"
    and "only_lock lk (k\<lparr>ticks_lock := lk, kp_cpu := c\<rparr>)"
  using assms by (force simp: clock_idle_def no_locks_def ticks_acquire_def only_lock_def lock_defs)

lemma wakeup_held:
  assumes "only_lock lk k"
  obtains tl c where "wakeup chan k = Ok ((wakeup1 chan k)\<lparr>pt_lock := tl, kp_cpu := c\<rparr>)"
    and "only_lock lk ((wakeup1 chan k)\<lparr>pt_lock := tl, kp_cpu := c\<rparr>)"
proof (rule that)
  let ?tl = "(pt_lock k)\<lparr>lk_locked := False, lk_cpu := None, lk_pcs := (replicate 10 0)[0 := 0]\<rparr>"
  let ?c = "(kp_cpu k)\<lparr>c_ncli := 1, c_if := False\<rparr>"
  show "wakeup chan k = Ok ((wakeup1 chan k)\<lparr>pt_lock := ?tl, kp_cpu := ?c\<rparr>)"
    using assms by (simp add: wakeup_def wakeup1_def only_lock_def lock_defs cong: if_cong)
qed (use assms in \<open>simp add: only_lock_def\<close>)

lemma ticks_release_held:
  assumes "only_lock (ticks_lock k) k"
  obtains lk c where "ticks_release k = Ok (k\<lparr>ticks_lock := lk, kp_cpu := c\<rparr>)" and "\<not> lk_locked lk" and "c_ncli c = 0"
  using assms by (force simp: ticks_release_def only_lock_def lock_defs)

lemma timer_tick_idle:
  assumes "clock_idle k"
  obtains k' where "timer_tick e k = Ok k'" and "clock_idle k'" and "ticks k' = w32 (ticks k + 1)"
    and "pt k' = pt (wakeup1 (e_ticks e) k)"
  using assms
proof (rule ticks_acquire_idle)
  fix lk c
  let ?k = "k\<lparr>ticks_lock := lk, kp_cpu := c, ticks := w32 (ticks k + 1)\<rparr>"
  assume a: "ticks_acquire k = Ok (k\<lparr>ticks_lock := lk, kp_cpu := c\<rparr>)" and o: "only_lock lk (k\<lparr>ticks_lock := lk, kp_cpu := c\<rparr>)"
  then have "only_lock lk ?k" by (simp add: only_lock_def)
  then obtain tl d where w: "wakeup (e_ticks e) ?k = Ok ((wakeup1 (e_ticks e) ?k)\<lparr>pt_lock := tl, kp_cpu := d\<rparr>)"
    and f: "only_lock lk ((wakeup1 (e_ticks e) ?k)\<lparr>pt_lock := tl, kp_cpu := d\<rparr>)" by (rule wakeup_held)
  let ?k2 = "(wakeup1 (e_ticks e) ?k)\<lparr>pt_lock := tl, kp_cpu := d\<rparr>"
  have "ticks_lock ?k2 = lk" by (simp add: wakeup1_def)
  with f have "only_lock (ticks_lock ?k2) ?k2" by simp
  then obtain lk' c' where r: "ticks_release ?k2 = Ok (?k2\<lparr>ticks_lock := lk', kp_cpu := c'\<rparr>)"
    and g: "\<not> lk_locked lk'" "c_ncli c' = 0" by (rule ticks_release_held)
  show thesis
  proof (rule that)
    show "timer_tick e k = Ok (?k2\<lparr>ticks_lock := lk', kp_cpu := c'\<rparr>)"
      using assms a w r by (simp add: timer_tick_def clock_idle_def)
    show "clock_idle (?k2\<lparr>ticks_lock := lk', kp_cpu := c'\<rparr>)"
      using assms f g by (simp add: clock_idle_def no_locks_def only_lock_def)
  qed (simp_all add: wakeup1_def cong: if_cong)
qed

fun timer_ticks :: "env \<Rightarrow> nat \<Rightarrow> ksys \<Rightarrow> ksys outcome" where
  "timer_ticks e 0 k = Ok k"
| "timer_ticks e (Suc d) k = andthen (timer_tick e k) (timer_ticks e d)"

lemma timer_ticks_idle:
  assumes "clock_idle k"
  obtains k' where "timer_ticks e d k = Ok k'" and "clock_idle k'" and "w32 (ticks k') = w32 (ticks k + d)"
    and "pt k' = (if d = 0 then pt k else pt (wakeup1 (e_ticks e) k))"
  using assms
proof (induction d arbitrary: k thesis)
  case 0
  then show ?case by simp
next
  case (Suc d)
  obtain k1 where k1: "timer_tick e k = Ok k1" "clock_idle k1" "ticks k1 = w32 (ticks k + 1)" "pt k1 = pt (wakeup1 (e_ticks e) k)"
    by (rule timer_tick_idle [OF Suc.prems(2)])
  obtain k2 where k2: "timer_ticks e d k1 = Ok k2" "clock_idle k2" "w32 (ticks k2) = w32 (ticks k1 + d)"
    "pt k2 = (if d = 0 then pt k1 else pt (wakeup1 (e_ticks e) k1))" by (rule Suc.IH [OF _ k1(2)])
  have "pt (wakeup1 (e_ticks e) k1) = pt k1" by (rule ext) (auto simp: wakeup1_pt k1(4))
  moreover have "w32 (ticks k1 + d) = w32 (ticks k + Suc d)" by (simp add: k1(3) mod_simps One_nat_def)
  ultimately show ?case using Suc.prems(1) [of k2] k1 k2 by simp
qed

lemma elapsed:
  assumes "w32 t1 = w32 (t0 + d)" and "t0 < 4294967296" and "d < 4294967296"
  shows "w32 (t1 + 4294967296 - t0) = d"
proof -
  let ?x = "4294967296 - t0"
  have e: "t1 + 4294967296 - t0 = t1 + ?x" using assms(2) by linarith
  have x: "t0 + d + ?x = d + 4294967296" using assms(2) by linarith
  have "w32 (t1 + ?x) = w32 (t0 + d + ?x)" by (rule mod_add_cong [OF assms(1) refl])
  also have "\<dots> = d" unfolding x using assms(3) by (simp only: mod_add_self2 mod_less)
  finally show ?thesis unfolding e .
qed

lemma sleep_round_done:
  assumes "only_lock (ticks_lock k) k" and "n \<le> w32 (ticks k + 4294967296 - t0)"
  obtains k' where "sleep_round chan me t0 n k = Ok (Done 0, k')" and "\<not> lk_locked (ticks_lock k')" and "pt k' = pt k"
  using assms by (force simp: sleep_round_def ticks_release_def only_lock_def lock_defs)

lemma sleep_round_again:
  assumes "only_lock (ticks_lock k) k" and "w32 (ticks k + 4294967296 - t0) < n" and "\<not> p_killed (pt k me)"
  obtains k' where "sleep_round chan me t0 n k = Ok (Sleeping 0, k')" and "\<not> lk_locked (ticks_lock k')" and "asleep_on chan me k'"
  using assms(1)
proof (rule sleep_switches [where chan = chan and me = me])
  fix lk' tl c
  assume "sleep me chan (ticks_lock k) k = Ok (lk', set_proc me ((pt k me)\<lparr>p_chan := chan, p_state := SLEEPING\<rparr>)
      (k\<lparr>pt_lock := tl, kp_cpu := c\<rparr>))" and "\<not> lk_locked lk'"
  then show thesis using that assms(2,3) by (auto simp: sleep_round_def asleep_on_def)
qed


section \<open>Examples\<close>

lemma example_argint16: "argint 1 0 (example_user 16) = Ok (Some 16)"
  by (rule example_argint) simp

theorem fetchstr_bounds_witness:
  "\<exists>s. fetchstr 1 16 (example_user 16) = Ok (Some s) \<and> 16 + length s < 4096 \<and> 0 \<notin> set s \<and>
     user_byte 1 (16 + length s) (example_user 16) = Ok 0"
proof -
  have "p_sz (pt (example_user 16) 1) = 4096" by (simp add: example_user_simps)
  moreover have "user_byte 1 18 (example_user 16) = Ok 0"
    using example_user_byte [of 18 16] by (simp add: user_mem_def st32_def vm_example_def)
  ultimately show ?thesis
    using fetchstr_bounds [of "example_user 16" 1 16] example_user_byte [of _ 16] by (auto dest: spec [of _ 18])
qed

theorem argptr_bounds_witness: "argptr 1 0 4080 (example_user 16) = Ok (Some 16) \<and> argptr 1 0 4081 (example_user 16) = Ok None"
  using argptr_bounds [OF example_argint16, of 4080] argptr_bounds [OF example_argint16, of 4081] by (simp add: example_user_simps)

theorem argptr_accepts_negative_witness: "argptr 1 0 (- 1) (example_user 16) = Ok (Some 16)"
  by (rule argptr_accepts_negative [OF example_argint16]) (simp_all add: example_user_simps)

text \<open>A spurious interrupt of process 1 in user mode: the handler returns.\<close>

definition example_intr :: ksys where
  "example_intr = poke (\<lambda>m. st32 m (0x80210000 + TF_TRAPNO) (T_IRQ0 + 7)) (example_user 16)"

lemma example_intr_simps:
  "trap_no 0x80210000 example_intr = T_IRQ0 + 7" "user_mode 0x80210000 example_intr" "pt example_intr = pt (example_user 16)"
  using user_mem_entries(4) [of 16]
  by (simp_all add: trap_no_def user_mode_def example_intr_def poke_def example_user_simps ld32_st32_other and_nat_unfold)

theorem trap_never_returns_killed_witness:
  "\<exists>k'. trap example_env 0x80210000 (Some 1) example_intr = Ok (Returns, k') \<and> \<not> p_killed (pt k' 1)"
proof -
  have "trap example_env 0x80210000 (Some 1) example_intr = Ok (Returns, example_intr)"
    using example_intr_simps(1)
    by (simp add: trap_def Let_def trap_no_def trap_switch_def trap_killed_def example_intr_simps(3) example_user_simps used_proc_def free_proc_def)
  then show ?thesis using trap_never_returns_killed [of example_env "0x80210000" 1 example_intr] example_intr_simps(2) by blast
qed

theorem trap_fault_witness:
  "trap example_env 0x80210000 None (example_user 16) = Panic ''trap'' \<and>
   trap example_env 0x80210000 (Some 1) (example_user 16) =
     andthen (exit 0x80110000 example_paddr 1 (set_proc 1 ((pt (example_user 16) 1)\<lparr>p_killed := True\<rparr>) (example_user 16))) (\<lambda>k. Ok (Exits, k))"
proof -
  have "\<not> known_trap (trap_no 0x80210000 (example_user 16))" "user_mode 0x80210000 (example_user 16)"
    using user_mem_entries(4,5) [of 16] by (simp_all add: known_trap_def trap_no_def user_mode_def example_user_simps and_nat_unfold)
  then show ?thesis using trap_fault [of "0x80210000" "example_user 16" example_env 1] by (simp add: example_env_def)
qed

text \<open>Process 1 asleep on the clock, which is about to wrap around.\<close>

definition example_sleeper :: ksys where
  "example_sleeper = set_proc 1 ((pt (example_user 16) 1)\<lparr>p_state := SLEEPING, p_chan := 0x80114000\<rparr>) (example_user 16)"


end
