(* ===== verification/Xv6_User.thy ===== *)
theory Xv6_User
  imports Xv6_Prelude
begin

text \<open>
  User programs and their library: number and string routines (ulib.c), formatted output
  (printf.c), the pattern matcher of grep.c and the counting of wc.c. A string of C is the list of
  its bytes before the terminating zero; output is the list of bytes written.
\<close>

section \<open>Strings\<close>

fun strcmp :: "u8 list \<Rightarrow> u8 list \<Rightarrow> int" where
  "strcmp [] [] = 0"
| "strcmp [] (d # q) = - int (unat d)"
| "strcmp (c # p) [] = int (unat c)"
| "strcmp (c # p) (d # q) = (if c = d then strcmp p q else int (unat c) - int (unat d))"

text \<open>The result of \<^verbatim>\<open>strchr\<close> is the string from the first occurrence on; the end of the string is not found.\<close>

fun strchr :: "u8 list \<Rightarrow> u8 \<Rightarrow> u8 list option" where
  "strchr [] c = None"
| "strchr (d # s) c = (if d = c then Some (d # s) else strchr s c)"

text \<open>\<^verbatim>\<open>atoi\<close> adds in an \<^verbatim>\<open>int\<close>; the sum is kept as a 32-bit number.\<close>

fun atoi_from :: "nat \<Rightarrow> u8 list \<Rightarrow> nat" where
  "atoi_from n [] = n"
| "atoi_from n (c # s) =
     (if 48 \<le> unat c \<and> unat c \<le> 57 then atoi_from (w32 (n * 10 + unat c - 48)) s else n)"

definition atoi :: "u8 list \<Rightarrow> int" where
  "atoi s = int_of (atoi_from 0 s)"

section \<open>Formatted output\<close>

text \<open>A string literal of the source as its bytes.\<close>

definition ascii :: "string \<Rightarrow> u8 list" where
  "ascii s = map of_char s"

definition digits :: "nat \<Rightarrow> u8" where
  "digits d = (if d < 10 then of_nat (48 + d) else of_nat (55 + d))"

text \<open>
  The digits of \<open>x\<close>, least significant first, after those in \<open>buf\<close>. The array has 16 elements, as has
  the table of digits; a store or a load outside is undefined.
\<close>

function printint_buf :: "nat \<Rightarrow> nat \<Rightarrow> u8 list \<Rightarrow> u8 list outcome" where
  "printint_buf base x buf =
     (if base = 0 \<or> 16 \<le> length buf \<or> 16 \<le> x mod base then Undef
      else if x div base \<noteq> 0 then printint_buf base (x div base) (buf @ [digits (x mod base)])
      else Ok (buf @ [digits (x mod base)]))"
  by pat_completeness auto

termination
  by (relation "measure (\<lambda>(base, x, buf). 16 - length buf)") auto

definition printint :: "int \<Rightarrow> nat \<Rightarrow> bool \<Rightarrow> u8 list outcome" where
  "printint xx base sign =
     (let neg = sign \<and> xx < 0; x = (if neg then of_int32 (- xx) else of_int32 xx) in
      andthen (printint_buf base x []) (\<lambda>buf.
        if neg then if 16 \<le> length buf then Undef else Ok (rev (buf @ [45]))
        else Ok (rev buf)))"

text \<open>
  \<^verbatim>\<open>printf\<close>: \<open>args\<close> are the words after the format on the stack, \<open>cstr\<close> gives the string at an
  address. Reading past the arguments is undefined.
\<close>

fun printf_from :: "(nat \<Rightarrow> u8 list) \<Rightarrow> bool \<Rightarrow> u8 list \<Rightarrow> nat list \<Rightarrow> u8 list \<Rightarrow> u8 list outcome" where
  "printf_from cstr percent [] args out = Ok out"
| "printf_from cstr False (c # fmt) args out =
     (if c = 37 then printf_from cstr True fmt args out
      else printf_from cstr False fmt args (out @ [c]))"
| "printf_from cstr True (c # fmt) args out =
     (if c = 100 then
        (case args of [] \<Rightarrow> Undef
         | a # args \<Rightarrow> andthen (printint (int_of a) 10 True) (\<lambda>t. printf_from cstr False fmt args (out @ t)))
      else if c = 120 \<or> c = 112 then
        (case args of [] \<Rightarrow> Undef
         | a # args \<Rightarrow> andthen (printint (int_of a) 16 False) (\<lambda>t. printf_from cstr False fmt args (out @ t)))
      else if c = 115 then
        (case args of [] \<Rightarrow> Undef
         | a # args \<Rightarrow> printf_from cstr False fmt args
             (out @ (if a = 0 then [40, 110, 117, 108, 108, 41] else cstr a)))
      else if c = 99 then
        (case args of [] \<Rightarrow> Undef | a # args \<Rightarrow> printf_from cstr False fmt args (out @ [of_nat a]))
      else if c = 37 then printf_from cstr False fmt args (out @ [c])
      else printf_from cstr False fmt args (out @ [37, c]))"

definition printf :: "(nat \<Rightarrow> u8 list) \<Rightarrow> u8 list \<Rightarrow> nat list \<Rightarrow> u8 list outcome" where
  "printf cstr fmt args = printf_from cstr False fmt args []"

section \<open>Pattern matching\<close>

abbreviation CARET :: u8 where "CARET \<equiv> 94"
abbreviation DOLLAR :: u8 where "DOLLAR \<equiv> 36"
abbreviation STAR :: u8 where "STAR \<equiv> 42"
abbreviation DOT :: u8 where "DOT \<equiv> 46"

function matchhere :: "u8 list \<Rightarrow> u8 list \<Rightarrow> bool" and matchstar :: "u8 \<Rightarrow> u8 list \<Rightarrow> u8 list \<Rightarrow> bool" where
  "matchhere re text =
     (case re of [] \<Rightarrow> True
      | c # re1 \<Rightarrow>
          if re1 \<noteq> [] \<and> hd re1 = STAR then matchstar c (tl re1) text
          else if c = DOLLAR \<and> re1 = [] then text = []
          else (case text of [] \<Rightarrow> False
                | t # text1 \<Rightarrow> if c = DOT \<or> c = t then matchhere re1 text1 else False))"
| "matchstar c re text =
     (if matchhere re text then True
      else (case text of [] \<Rightarrow> False
            | t # text1 \<Rightarrow> if t = c \<or> c = DOT then matchstar c re text1 else False))"
  by pat_completeness auto

termination
  by (relation "inv_image (less_than <*lex*> less_than <*lex*> less_than)
      (case_sum (\<lambda>(re, text). (length re, length text, 0)) (\<lambda>(c, re, text). (length re, length text, 1 :: nat)))") auto

fun match_any :: "u8 list \<Rightarrow> u8 list \<Rightarrow> bool" where
  "match_any re [] = matchhere re []"
| "match_any re (t # text) = (if matchhere re (t # text) then True else match_any re text)"

definition match :: "u8 list \<Rightarrow> u8 list \<Rightarrow> bool" where
  "match re text = (if re \<noteq> [] \<and> hd re = CARET then matchhere (tl re) text else match_any re text)"

declare matchhere.simps [simp del] matchstar.simps [simp del]
declare printint_buf.simps [simp del]

section \<open>Counting\<close>

record wc_state =
  wc_l :: nat
  wc_w :: nat
  wc_c :: nat
  wc_inword :: bool

definition wc_init :: wc_state where
  "wc_init = \<lparr>wc_l = 0, wc_w = 0, wc_c = 0, wc_inword = False\<rparr>"

definition wc_space :: "u8 \<Rightarrow> bool" where
  "wc_space c \<longleftrightarrow> strchr [32, 13, 9, 10, 11] c \<noteq> None"

text \<open>The counters are an \<^verbatim>\<open>int\<close> each and are kept as 32-bit numbers.\<close>

definition wc_byte :: "u8 \<Rightarrow> wc_state \<Rightarrow> wc_state" where
  "wc_byte ch s =
     (let s = s\<lparr>wc_c := w32 (wc_c s + 1)\<rparr>;
          s = (if ch = 10 then s\<lparr>wc_l := w32 (wc_l s + 1)\<rparr> else s) in
      if wc_space ch then s\<lparr>wc_inword := False\<rparr>
      else if \<not> wc_inword s then s\<lparr>wc_w := w32 (wc_w s + 1), wc_inword := True\<rparr>
      else s)"

text \<open>
  \<open>chunks\<close> are the bytes of the successive reads that returned a positive number; then a read
  returned zero, or a negative number when \<open>failed\<close>. The result is what is written to file descriptor
  1; \<open>name\<close> is the address of the name printed.
\<close>

definition wc :: "(nat \<Rightarrow> u8 list) \<Rightarrow> u8 list list \<Rightarrow> bool \<Rightarrow> nat \<Rightarrow> u8 list outcome" where
  "wc cstr chunks failed name =
     (let s = fold (fold wc_byte) chunks wc_init in
      if failed then printf cstr (ascii ''wc: read error\<newline>'') []
      else printf cstr (ascii ''%d %d %d %s\<newline>'') [wc_l s, wc_w s, wc_c s, name])"

end
