(* ===== verification/Xv6_User_Props.thy ===== *)
theory Xv6_User_Props
  imports Xv6_User
begin

text \<open>
  What the user programs compute: printed numbers read back, patterns mean what the header of
  grep.c says, and counts do not depend on how the input is read.
\<close>

section \<open>Numbers\<close>

definition digits_value :: "nat \<Rightarrow> nat list \<Rightarrow> nat" where
  "digits_value base ds = foldr (\<lambda>d n. d + base * n) ds 0"

definition numeral_of :: "nat \<Rightarrow> nat \<Rightarrow> nat list \<Rightarrow> bool" where
  "numeral_of base x ds \<longleftrightarrow> ds \<noteq> [] \<and> (\<forall>d \<in> set ds. d < base) \<and> digits_value base ds = x \<and>
     (if x = 0 then length ds = 1 else base ^ (length ds - 1) \<le> x)"

lemma numeral_of_one: "x < base \<Longrightarrow> numeral_of base x [x]"
  by (simp add: numeral_of_def digits_value_def)

lemma numeral_of_cons:
  assumes "numeral_of base (x div base) ds" and "2 \<le> base" and "x div base \<noteq> 0"
  shows "numeral_of base x (x mod base # ds)"
proof -
  have v: "digits_value base ds = x div base" "ds \<noteq> []" "base ^ (length ds - 1) \<le> x div base"
    using assms(1,3) by (simp_all add: numeral_of_def)
  have "base ^ length ds = base * base ^ (length ds - 1)" using v(2) by (cases ds) simp_all
  also have "\<dots> \<le> base * (x div base)" using v(3) by simp
  also have "\<dots> \<le> x" by simp
  finally have "base ^ length ds \<le> x" .
  moreover have "x \<noteq> 0" using assms(3) by (rule contrapos_nn) simp
  ultimately show ?thesis using assms v by (simp add: numeral_of_def digits_value_def)
qed

lemma printint_buf_ok:
  assumes "2 \<le> base" and "base \<le> 16" and "length buf < 16" and "x < base ^ (16 - length buf)"
  shows "\<exists>ds. printint_buf base x buf = Ok (buf @ map digits ds) \<and> numeral_of base x ds"
  using assms
proof (induction base x buf rule: printint_buf.induct)
  case (1 base x buf)
  have m: "x mod base < base" using "1.prems"(1) by simp
  then have n: "\<not> (base = 0 \<or> 16 \<le> length buf \<or> 16 \<le> x mod base)" using "1.prems"(1-3) by linarith
  show ?case
  proof (cases "x div base = 0")
    case True
    then have "x < base" using "1.prems"(1) by (simp add: div_eq_0_iff)
    then show ?thesis
      using n True numeral_of_one by (subst printint_buf.simps) (auto intro!: exI [of _ "[x]"])
  next
    case False
    let ?k = "16 - length buf"
    have k: "?k = Suc (15 - length buf)" using "1.prems"(3) by simp
    have b: "x div base < base ^ (15 - length buf)"
      using "1.prems"(1,4) unfolding k by (simp add: div_less_iff_less_mult mult.commute)
    have l: "length buf < 15"
    proof (rule ccontr)
      assume "\<not> length buf < 15"
      then have "x div base < 1" using b by simp
      then show False using False by simp
    qed
    obtain ds where "printint_buf base (x div base) (buf @ [digits (x mod base)]) = Ok ((buf @ [digits (x mod base)]) @ map digits ds)"
      and ds: "numeral_of base (x div base) ds"
      using "1.IH" [OF n False] "1.prems"(1,2) b l by auto
    then have "printint_buf base x buf = Ok (buf @ map digits (x mod base # ds))"
      using n False by (subst printint_buf.simps) simp
    then show ?thesis using numeral_of_cons [OF ds "1.prems"(1) False] by blast
  qed
qed

lemma foldl_digits_mono: "n \<le> foldl (\<lambda>n d. n * 10 + d) n es" for n :: nat
proof (induction es arbitrary: n)
  case (Cons e es)
  have "n \<le> n * 10 + e" by simp
  also have "\<dots> \<le> foldl (\<lambda>n d. n * 10 + d) n (e # es)" using Cons [of "n * 10 + e"] by simp
  finally show ?case .
qed simp

lemma atoi_from_digits:
  assumes "\<forall>d \<in> set es. d < 10" and "foldl (\<lambda>n d. n * 10 + d) n es < 4294967296"
  shows "atoi_from n (map digits es) = foldl (\<lambda>n d. n * 10 + d) n es"
  using assms
proof (induction es arbitrary: n)
  case (Cons e es)
  have "e < 10" using Cons.prems(1) by simp
  then have u: "unat (digits e) = 48 + e" by (simp add: digits_def unat_word_ariths unat_of_nat)
  have "n * 10 + e < 4294967296"
    using foldl_digits_mono [of "n * 10 + e" es] Cons.prems(2) by simp
  then show ?case using Cons u by simp
qed simp

lemma digits_value_foldl: "digits_value 10 ds = foldl (\<lambda>n d. n * 10 + d) 0 (rev ds)"
proof -
  have "foldr (\<lambda>d n. d + 10 * n) ds 0 = foldr (\<lambda>d n. n * 10 + d) ds 0" by (simp add: ac_simps)
  then show ?thesis by (simp add: digits_value_def foldl_conv_foldr)
qed

lemma numeral_of_length:
  assumes "numeral_of 10 x ds" and "x < 4294967296"
  shows "length ds \<le> 10"
proof (rule ccontr)
  assume "\<not> length ds \<le> 10"
  then have "x \<noteq> 0" and l: "10 \<le> length ds - 1"
    using assms(1) by (auto simp: numeral_of_def split: if_splits)
  then have "(10 :: nat) ^ 10 \<le> 10 ^ (length ds - 1)" by (intro power_increasing) simp_all
  also have "\<dots> \<le> x" using assms(1) \<open>x \<noteq> 0\<close> by (simp add: numeral_of_def)
  finally show False using assms(2) by simp
qed

lemma print_decimal:
  assumes "x < 4294967296"
  obtains ds where "printint_buf 10 x [] = Ok (map digits ds)" and "length ds \<le> 10" and "atoi_from 0 (rev (map digits ds)) = x"
proof -
  have "x < 10 ^ (16 - length ([] :: u8 list))" using assms by simp
  then obtain ds where p: "printint_buf 10 x [] = Ok (map digits ds)" and n: "numeral_of 10 x ds"
    using printint_buf_ok [of 10 "[]" x] by auto
  have "atoi_from 0 (map digits (rev ds)) = foldl (\<lambda>n d. n * 10 + d) 0 (rev ds)"
    by (rule atoi_from_digits) (use n assms in \<open>simp_all add: numeral_of_def digits_value_foldl\<close>)
  then show thesis
    using that p numeral_of_length [OF n assms] n by (simp add: rev_map numeral_of_def digits_value_foldl)
qed

text \<open>
  C40: a printed number reads back. For every \<^verbatim>\<open>int\<close>, \<^verbatim>\<open>printint\<close> in base 10 with sign terminates within
  its buffer with at most 11 characters, which are a minus sign exactly for a negative number and
  then digits; \<^verbatim>\<open>atoi\<close> applied to the digits gives the number without its sign.
\<close>
theorem printint_atoi:
  assumes "- 2147483648 \<le> xx" and "xx < 2147483648"
  shows "\<exists>s. printint xx 10 True = Ok (if xx < 0 then 45 # s else s) \<and> length s \<le> 10 \<and> atoi_from 0 s = nat \<bar>xx\<bar> \<and>
    (0 \<le> xx \<longrightarrow> atoi s = xx)"
proof -
  have v: "of_int32 (if xx < 0 then - xx else xx) = nat \<bar>xx\<bar>"
    using assms by (simp add: of_int32_def)
  obtain ds where d: "printint_buf 10 (nat \<bar>xx\<bar>) [] = Ok (map digits ds)" "length ds \<le> 10"
    "atoi_from 0 (rev (map digits ds)) = nat \<bar>xx\<bar>"
    by (rule print_decimal [of "nat \<bar>xx\<bar>"]) (use assms in simp)
  then show ?thesis
    using v assms(2) by (intro exI [of _ "rev (map digits ds)"]) (auto simp: printint_def Let_def atoi_def int_of_def split: if_splits)
qed

theorem printint_atoi_witness:
  "\<exists>s. printint (- 2147483648) 10 True = Ok (45 # s) \<and> length s \<le> 10 \<and> atoi_from 0 s = 2147483648"
  using printint_atoi [of "- 2147483648"] by auto

section \<open>Patterns\<close>

text \<open>
  A pattern is a list of characters, each starred or not, and whether it ends in the anchor. A dot
  stands for every character; a pattern denotes the words it matches completely.
\<close>

fun tokens :: "u8 list \<Rightarrow> (u8 \<times> bool) list \<times> bool" where
  "tokens [] = ([], False)"
| "tokens [c] = (if c = DOLLAR then ([], True) else ([(c, False)], False))"
| "tokens (c # d # re) =
     (if d = STAR then map_prod ((#) (c, True)) id (tokens re)
      else map_prod ((#) (c, False)) id (tokens (d # re)))"

definition stands_for :: "u8 \<Rightarrow> u8 \<Rightarrow> bool" where
  "stands_for c t \<longleftrightarrow> c = DOT \<or> c = t"

inductive denotes :: "(u8 \<times> bool) list \<Rightarrow> u8 list \<Rightarrow> bool" where
  nil: "denotes [] []"
| one: "stands_for c t \<Longrightarrow> denotes ts w \<Longrightarrow> denotes ((c, False) # ts) (t # w)"
| many: "list_all (stands_for c) v \<Longrightarrow> denotes ts w \<Longrightarrow> denotes ((c, True) # ts) (v @ w)"

inductive_simps denotes_nil [simp]: "denotes [] w"
inductive_simps denotes_one: "denotes ((c, False) # ts) w"
inductive_simps denotes_many: "denotes ((c, True) # ts) w"

definition matches_prefix :: "u8 list \<Rightarrow> u8 list \<Rightarrow> bool" where
  "matches_prefix re line \<longleftrightarrow>
     (\<exists>w u. line = w @ u \<and> denotes (fst (tokens re)) w \<and> (snd (tokens re) \<longrightarrow> u = []))"

lemma matches_prefixI:
  "denotes (fst (tokens re)) w \<Longrightarrow> (snd (tokens re) \<Longrightarrow> u = []) \<Longrightarrow> matches_prefix re (w @ u)"
  unfolding matches_prefix_def by blast

lemma matches_prefixE:
  assumes "matches_prefix re line"
  obtains w u where "line = w @ u" and "denotes (fst (tokens re)) w" and "snd (tokens re) \<Longrightarrow> u = []"
  using assms unfolding matches_prefix_def by blast

lemma matches_prefix_nil [simp]: "matches_prefix [] line"
  using matches_prefixI [of "[]" "[]" line] by simp

lemma matches_prefix_star:
  "matches_prefix (c # STAR # re) line \<longleftrightarrow>
    (\<exists>v q. line = v @ q \<and> list_all (stands_for c) v \<and> matches_prefix re q)"
proof
  assume "matches_prefix (c # STAR # re) line"
  then obtain x u where x: "line = x @ u" "denotes ((c, True) # fst (tokens re)) x" "snd (tokens re) \<Longrightarrow> u = []"
    by (rule matches_prefixE) simp
  then obtain v w where "x = v @ w" "list_all (stands_for c) v" "denotes (fst (tokens re)) w"
    unfolding denotes_many by blast
  then show "\<exists>v q. line = v @ q \<and> list_all (stands_for c) v \<and> matches_prefix re q"
    using x(1,3) matches_prefixI [of re w u] by auto
next
  assume "\<exists>v q. line = v @ q \<and> list_all (stands_for c) v \<and> matches_prefix re q"
  then obtain v w u where v: "line = v @ w @ u" "list_all (stands_for c) v"
    "denotes (fst (tokens re)) w" "snd (tokens re) \<Longrightarrow> u = []"
    by (elim exE conjE matches_prefixE) simp
  have "denotes ((c, True) # fst (tokens re)) (v @ w)" using v by (intro denotes.many)
  then show "matches_prefix (c # STAR # re) line"
    using matches_prefixI [of "c # STAR # re" "v @ w" u] v(1,4) by simp
qed

lemma matches_prefix_end: "matches_prefix [DOLLAR] line \<longleftrightarrow> line = []"
  by (simp add: matches_prefix_def)

lemma matches_prefix_char:
  assumes "re = [] \<or> hd re \<noteq> STAR" and "c \<noteq> DOLLAR \<or> re \<noteq> []"
  shows "matches_prefix (c # re) line \<longleftrightarrow> (\<exists>t q. line = t # q \<and> stands_for c t \<and> matches_prefix re q)"
proof
  have t: "tokens (c # re) = map_prod ((#) (c, False)) id (tokens re)" using assms by (cases re) auto
  show "\<exists>t q. line = t # q \<and> stands_for c t \<and> matches_prefix re q" if m: "matches_prefix (c # re) line"
  proof -
    obtain x u where x: "line = x @ u" "denotes ((c, False) # fst (tokens re)) x" "snd (tokens re) \<Longrightarrow> u = []"
      by (rule matches_prefixE [OF m]) (simp add: t)
    then obtain y w where "x = y # w" "stands_for c y" "denotes (fst (tokens re)) w"
      unfolding denotes_one by blast
    then show ?thesis using x(1,3) matches_prefixI [of re w u] by auto
  qed
  show "matches_prefix (c # re) line" if m: "\<exists>t q. line = t # q \<and> stands_for c t \<and> matches_prefix re q"
  proof -
    obtain y w u where y: "line = y # w @ u" "stands_for c y" "denotes (fst (tokens re)) w" "snd (tokens re) \<Longrightarrow> u = []"
      using m by (elim exE conjE matches_prefixE) simp
    have "denotes ((c, False) # fst (tokens re)) (y # w)" using y by (intro denotes.one)
    then show ?thesis using matches_prefixI [of "c # re" "y # w" u] y(1,4) t by simp
  qed
qed

lemma ex_split_Cons:
  "(\<exists>v q. t # xs = v @ q \<and> R v q) \<longleftrightarrow> R [] (t # xs) \<or> (\<exists>v q. xs = v @ q \<and> R (t # v) q)"
proof
  assume "\<exists>v q. t # xs = v @ q \<and> R v q"
  then obtain v q where v: "t # xs = v @ q" "R v q" by blast
  then show "R [] (t # xs) \<or> (\<exists>v q. xs = v @ q \<and> R (t # v) q)" by (cases v) auto
next
  assume "R [] (t # xs) \<or> (\<exists>v q. xs = v @ q \<and> R (t # v) q)"
  then show "\<exists>v q. t # xs = v @ q \<and> R v q" using append_Cons append_Nil by metis
qed

lemma matchhere_prefix: "matchhere re line \<longleftrightarrow> matches_prefix re line"
  and matchstar_prefix:
    "matchstar c re line \<longleftrightarrow> (\<exists>v q. line = v @ q \<and> list_all (stands_for c) v \<and> matches_prefix re q)"
proof (induction re line and c re line rule: matchhere_matchstar.induct)
  case (1 re line)
  show ?case
  proof (cases re)
    case Nil
    then show ?thesis by (simp add: matchhere.simps)
  next
    case (Cons c re1)
    consider (star) re2 where "re1 = STAR # re2" | (last) "c = DOLLAR" "re1 = []"
      | (char) "re1 = [] \<or> hd re1 \<noteq> STAR" "c \<noteq> DOLLAR \<or> re1 \<noteq> []"
      by (cases re1) auto
    then show ?thesis
    proof cases
      case star
      then show ?thesis using 1(1) Cons by (simp add: matchhere.simps [of "c # STAR # re2"] matches_prefix_star)
    next
      case last
      then show ?thesis using Cons by (simp add: matchhere.simps [of "[DOLLAR]"] matches_prefix_end)
    next
      case char
      then show ?thesis
        using 1(2) [OF Cons] Cons
        by (cases line) (auto simp: matchhere.simps [of "c # re1"] matches_prefix_char stands_for_def)
    qed
  qed
next
  case (2 c re line)
  show ?case
  proof (cases line)
    case Nil
    then show ?thesis using 2(1) by (simp add: matchstar.simps [of c re "[]"])
  next
    case (Cons t line1)
    then show ?thesis
      using 2 by (auto simp: matchstar.simps [of c re "t # line1"] stands_for_def ex_split_Cons)
  qed
qed

lemma match_any_suffix: "match_any re line \<longleftrightarrow> (\<exists>p q. line = p @ q \<and> matches_prefix re q)"
proof (induction line)
  case (Cons t line)
  then show ?case by (simp add: matchhere_prefix ex_split_Cons)
qed (simp add: matchhere_prefix)

text \<open>
  C39: the matcher of grep decides its patterns. \<^verbatim>\<open>match\<close> answers yes exactly when some part of the
  line, from its beginning if the pattern starts with a caret and from anywhere otherwise, is a word
  of the pattern, reaching to the end of the line if the pattern ends with a dollar sign. Trying
  the shortest repetition first loses no match.
\<close>
theorem match_correct:
  "match re line \<longleftrightarrow>
    (if re \<noteq> [] \<and> hd re = CARET then matches_prefix (tl re) line
     else \<exists>p q. line = p @ q \<and> matches_prefix re q)"
  by (simp add: match_def matchhere_prefix match_any_suffix)

section \<open>Counts\<close>

definition word_starts :: "u8 list \<Rightarrow> nat" where
  "word_starts bs = card {i. i < length bs \<and> \<not> wc_space (bs ! i) \<and> (i = 0 \<or> wc_space (bs ! (i - 1)))}"

lemma word_starts_nil [simp]: "word_starts [] = 0"
  by (simp add: word_starts_def)

lemma word_starts_snoc:
  "word_starts (bs @ [b]) =
    word_starts bs + (if \<not> wc_space b \<and> (bs = [] \<or> wc_space (last bs)) then 1 else 0)"
proof -
  let ?S = "\<lambda>bs. {i. i < length bs \<and> \<not> wc_space (bs ! i) \<and> (i = 0 \<or> wc_space (bs ! (i - 1)))}"
  have "i \<in> ?S (bs @ [b]) \<longleftrightarrow> i \<in> ?S bs \<or> i = length bs \<and> \<not> wc_space b \<and> (bs = [] \<or> wc_space (last bs))" for i
    by (cases i "length bs" rule: linorder_cases; cases "bs = []") (auto simp: nth_append last_conv_nth)
  then have e: "?S (bs @ [b]) = ?S bs \<union> (if \<not> wc_space b \<and> (bs = [] \<or> wc_space (last bs)) then {length bs} else {})"
    by (intro set_eqI) simp
  have "finite (?S bs)" "length bs \<notin> ?S bs" by simp_all
  then show ?thesis
    unfolding word_starts_def e by (cases "\<not> wc_space b \<and> (bs = [] \<or> wc_space (last bs))") (simp_all add: One_nat_def)
qed

lemma wc_byte_fields:
  "wc_byte b \<lparr>wc_l = l, wc_w = w, wc_c = c, wc_inword = i\<rparr> =
    \<lparr>wc_l = (if b = 10 then w32 (l + 1) else l), wc_w = (if \<not> wc_space b \<and> \<not> i then w32 (w + 1) else w),
     wc_c = w32 (c + 1), wc_inword = (\<not> wc_space b)\<rparr>"
  by (simp add: wc_byte_def Let_def)

lemma wc_counts:
  "fold wc_byte bs wc_init =
    \<lparr>wc_l = w32 (count_list bs 10), wc_w = w32 (word_starts bs), wc_c = w32 (length bs),
     wc_inword = (bs \<noteq> [] \<and> \<not> wc_space (last bs))\<rparr>"
proof (induction bs rule: rev_induct)
  case Nil
  show ?case by (simp add: wc_init_def)
next
  case (snoc b bs)
  have "fold wc_byte (bs @ [b]) wc_init = wc_byte b (fold wc_byte bs wc_init)" by simp
  also have "\<dots> = wc_byte b \<lparr>wc_l = w32 (count_list bs 10), wc_w = w32 (word_starts bs), wc_c = w32 (length bs),
     wc_inword = (bs \<noteq> [] \<and> \<not> wc_space (last bs))\<rparr>"
    by (rule arg_cong [OF snoc])
  finally show ?case unfolding wc_byte_fields by (rule trans) (simp add: word_starts_snoc mod_add_left_eq Suc_eq_plus1)
qed

lemma fold_concat: "fold (fold f) xss s = fold f (concat xss) s"
  by (induction xss arbitrary: s) simp_all

text \<open>
  \<^verbatim>\<open>wc\<close> prints the numbers of lines, words and characters of its whole input, whatever the
  sizes of the blocks it was read in, where a word starts at each byte that is not white space and is first or
  follows white space; a failed read is reported and no count is printed.
\<close>
theorem wc_correct:
  "wc cstr chunks failed name =
    (let bs = concat chunks in
     if failed then printf cstr (ascii ''wc: read error\<newline>'') []
     else printf cstr (ascii ''%d %d %d %s\<newline>'')
       [w32 (count_list bs 10), w32 (word_starts bs), w32 (length bs), name])"
  by (simp add: wc_def fold_concat wc_counts Let_def)

end
