(* ===== verification/Xv6_Console.thy ===== *)
theory Xv6_Console
  imports Xv6_User Xv6_Proc
begin

text \<open>
  The console (console.c) with the serial line (uart.c) and the keyboard (kbd.c, kbd.h), and the interrupt
  controllers and the timer that their set-up programs (picirq.c, ioapic.c, timer.c). The devices are a
  parameter: reading and writing a port or a device register is a function of the state of the hardware.
  The two locks of console.c cover each operation, which is one step here.
\<close>

unbundle bit_operations_syntax

text \<open>\<^verbatim>\<open>insl\<close> and \<^verbatim>\<open>outsl\<close> move a number of 32-bit words between a port and the memory.\<close>

record 'h ports =
  inb :: "nat \<Rightarrow> 'h \<Rightarrow> u8 \<times> 'h"
  outb :: "nat \<Rightarrow> u8 \<Rightarrow> 'h \<Rightarrow> 'h"
  insl :: "nat \<Rightarrow> nat \<Rightarrow> 'h \<Rightarrow> u8 list \<times> 'h"
  outsl :: "nat \<Rightarrow> u8 list \<Rightarrow> 'h \<Rightarrow> 'h"
  mmio_load :: "nat \<Rightarrow> 'h \<Rightarrow> nat \<times> 'h"
  mmio_store :: "nat \<Rightarrow> nat \<Rightarrow> 'h \<Rightarrow> 'h"

abbreviation INPUT_BUF :: nat where "INPUT_BUF \<equiv> 128"
abbreviation BACKSPACE :: int where "BACKSPACE \<equiv> 256"
abbreviation CRTPORT :: nat where "CRTPORT \<equiv> 0x3d4"
abbreviation COM1 :: nat where "COM1 \<equiv> 0x3f8"
abbreviation KBSTATP :: nat where "KBSTATP \<equiv> 0x64"
abbreviation KBDATAP :: nat where "KBDATAP \<equiv> 0x60"
abbreviation IO_PIC1 :: nat where "IO_PIC1 \<equiv> 0x20"
abbreviation IO_PIC2 :: nat where "IO_PIC2 \<equiv> 0xA0"
abbreviation T_IRQ0 :: nat where "T_IRQ0 \<equiv> 32"
abbreviation IRQ_SLAVE :: nat where "IRQ_SLAVE \<equiv> 2"
abbreviation IOAPIC :: nat where "IOAPIC \<equiv> 0xFEC00000"
abbreviation IO_TIMER1 :: nat where "IO_TIMER1 \<equiv> 0x40"

text \<open>
  The statics of these files and \<^verbatim>\<open>ismp\<close>. \<open>crt\<close> is the memory from the start of the CGA screen on, in 16-bit cells;
  \<open>woken\<close> counts the calls \<^verbatim>\<open>wakeup(&input.r)\<close>.
\<close>

record 'h console =
  panicked :: bool
  locking :: bool
  in_buf :: "u8 list"
  in_r :: nat
  in_w :: nat
  in_e :: nat
  crt :: "nat \<Rightarrow> nat"
  uart :: bool
  kbd_shift :: u8
  irqmask :: "16 word"
  ismp :: bool
  hw :: 'h
  woken :: nat

section \<open>Ports\<close>

definition con_inb :: "'h ports \<Rightarrow> nat \<Rightarrow> 'h console \<Rightarrow> u8 \<times> 'h console" where
  "con_inb io p s = (let (v, h) = inb io p (hw s) in (v, s\<lparr>hw := h\<rparr>))"

definition con_outb :: "'h ports \<Rightarrow> nat \<Rightarrow> u8 \<Rightarrow> 'h console \<Rightarrow> 'h console" where
  "con_outb io p v s = s\<lparr>hw := outb io p v (hw s)\<rparr>"

section \<open>Interrupt controllers and timer\<close>

definition picsetmask :: "'h ports \<Rightarrow> 16 word \<Rightarrow> 'h console \<Rightarrow> 'h console" where
  "picsetmask io m s =
     (let s = s\<lparr>irqmask := m\<rparr>; s = con_outb io (IO_PIC1 + 1) (ucast m) s
      in con_outb io (IO_PIC2 + 1) (ucast (drop_bit 8 m)) s)"

definition picenable :: "'h ports \<Rightarrow> nat \<Rightarrow> 'h console \<Rightarrow> 'h console" where
  "picenable io irq s = picsetmask io (irqmask s AND NOT (push_bit irq 1)) s"

definition picinit :: "'h ports \<Rightarrow> 'h console \<Rightarrow> 'h console" where
  "picinit io s =
     (let s = fold (\<lambda>(p, v). con_outb io p v)
            [(IO_PIC1 + 1, 0xFF), (IO_PIC2 + 1, 0xFF),
             (IO_PIC1, 0x11), (IO_PIC1 + 1, of_nat T_IRQ0), (IO_PIC1 + 1, push_bit IRQ_SLAVE 1), (IO_PIC1 + 1, 3),
             (IO_PIC2, 0x11), (IO_PIC2 + 1, of_nat (T_IRQ0 + 8)), (IO_PIC2 + 1, of_nat IRQ_SLAVE), (IO_PIC2 + 1, 3),
             (IO_PIC1, 0x68), (IO_PIC1, 0x0a), (IO_PIC2, 0x68), (IO_PIC2, 0x0a)] s
      in if irqmask s \<noteq> 0xFFFF then picsetmask io (irqmask s) s else s)"

text \<open>A register of the I/O controller is selected by a store to its first word, and read or written in its fifth.\<close>

definition ioapicread :: "'h ports \<Rightarrow> nat \<Rightarrow> 'h console \<Rightarrow> nat \<times> 'h console" where
  "ioapicread io reg s =
     (let (v, h) = mmio_load io (IOAPIC + 16) (mmio_store io IOAPIC reg (hw s)) in (v, s\<lparr>hw := h\<rparr>))"

definition ioapicwrite :: "'h ports \<Rightarrow> nat \<Rightarrow> nat \<Rightarrow> 'h console \<Rightarrow> 'h console" where
  "ioapicwrite io reg data s = s\<lparr>hw := mmio_store io (IOAPIC + 16) data (mmio_store io IOAPIC reg (hw s))\<rparr>"

definition ioapicenable :: "'h ports \<Rightarrow> nat \<Rightarrow> nat \<Rightarrow> 'h console \<Rightarrow> 'h console" where
  "ioapicenable io irq cpunum s =
     (if \<not> ismp s then s
      else ioapicwrite io (16 + 2 * irq + 1) (w32 (cpunum * 2 ^ 24))
             (ioapicwrite io (16 + 2 * irq) (T_IRQ0 + irq) s))"

definition timerinit :: "'h ports \<Rightarrow> 'h console \<Rightarrow> 'h console" where
  "timerinit io s =
     (let count = (1193182 + 100 div 2) div 100;
          s = con_outb io (IO_TIMER1 + 3) (0x00 OR 0x04 OR 0x30) s;
          s = con_outb io IO_TIMER1 (of_nat (count mod 256)) s;
          s = con_outb io IO_TIMER1 (of_nat (count div 256)) s
      in picenable io 0 s)"

section \<open>The serial line\<close>

text \<open>The wait for the transmitter, at most \<open>n\<close> polls; \<^verbatim>\<open>microdelay\<close> is an empty function.\<close>

fun uart_wait :: "'h ports \<Rightarrow> nat \<Rightarrow> 'h console \<Rightarrow> 'h console" where
  "uart_wait io 0 s = s"
| "uart_wait io (Suc n) s =
     (let (v, s) = con_inb io (COM1 + 5) s in if v AND 0x20 \<noteq> 0 then s else uart_wait io n s)"

definition uartputc :: "'h ports \<Rightarrow> int \<Rightarrow> 'h console \<Rightarrow> 'h console" where
  "uartputc io c s = (if \<not> uart s then s else con_outb io COM1 (of_int c) (uart_wait io 128 s))"

definition uartgetc :: "'h ports \<Rightarrow> 'h console \<Rightarrow> int \<times> 'h console" where
  "uartgetc io s =
     (if \<not> uart s then (-1, s)
      else let (v, s) = con_inb io (COM1 + 5) s in
        if v AND 1 = 0 then (-1, s)
        else let (v, s) = con_inb io COM1 s in (int (unat v), s))"

definition uartinit :: "'h ports \<Rightarrow> 'h console \<Rightarrow> 'h console" where
  "uartinit io s =
     (let s = con_outb io (COM1 + 2) 0 s;
          s = con_outb io (COM1 + 3) 0x80 s;
          s = con_outb io COM1 12 s;
          s = con_outb io (COM1 + 1) 0 s;
          s = con_outb io (COM1 + 3) 3 s;
          s = con_outb io (COM1 + 4) 0 s;
          s = con_outb io (COM1 + 1) 1 s;
          (v, s) = con_inb io (COM1 + 5) s in
      if v = 0xFF then s
      else let s = s\<lparr>uart := True\<rparr>;
               s = snd (con_inb io (COM1 + 2) s);
               s = snd (con_inb io COM1 s);
               s = ioapicenable io 4 0 (picenable io 4 s)
           in fold (\<lambda>c s. uartputc io (int (unat c)) s) (ascii ''xv6...\<newline>'') s)"

section \<open>The screen\<close>

text \<open>
  Scrolling moves 23 rows up and clears from the cursor to the end of the 24 rows. The number of cells
  to clear is negative for a cursor beyond, and \<^verbatim>\<open>memset\<close> would then run through memory.
\<close>

definition cga_scroll :: "nat \<Rightarrow> 'h console \<Rightarrow> 'h console outcome" where
  "cga_scroll pos s =
     (if 24 * 80 < pos then Undef
      else Ok (s\<lparr>crt := (\<lambda>i. if pos \<le> i \<and> i < 24 * 80 then 0 else if i < 23 * 80 then crt s (i + 80) else crt s i)\<rparr>))"

definition cgaputc :: "'h ports \<Rightarrow> int \<Rightarrow> 'h console \<Rightarrow> 'h console outcome" where
  "cgaputc io c s =
     (let s = con_outb io CRTPORT 14 s;
          (hi, s) = con_inb io (CRTPORT + 1) s;
          s = con_outb io CRTPORT 15 s;
          (lo, s) = con_inb io (CRTPORT + 1) s;
          pos = unat hi * 256 + unat lo;
          (pos, s) = (if c = 10 then (pos + (80 - pos mod 80), s)
            else if c = BACKSPACE then (pos - 1, s)
            else (pos + 1, s\<lparr>crt := (crt s)(pos := nat (c mod 256) + 0x700)\<rparr>))
      in andthen (if 24 \<le> pos div 80 then andthen (cga_scroll (pos - 80) s) (\<lambda>s. Ok (pos - 80, s)) else Ok (pos, s)) (\<lambda>(pos, s).
         let s = con_outb io CRTPORT 14 s;
             s = con_outb io (CRTPORT + 1) (of_nat (pos div 256)) s;
             s = con_outb io CRTPORT 15 s;
             s = con_outb io (CRTPORT + 1) (of_nat pos) s
         in Ok (s\<lparr>crt := (crt s)(pos := 0x720)\<rparr>)))"

text \<open>After a panic on another processor \<^verbatim>\<open>consputc\<close> loops for ever.\<close>

definition consputc :: "'h ports \<Rightarrow> int \<Rightarrow> 'h console \<Rightarrow> 'h console outcome" where
  "consputc io c s =
     (if panicked s then Blocked
      else let s = (if c = BACKSPACE then uartputc io 8 (uartputc io 32 (uartputc io 8 s)) else uartputc io c s)
           in cgaputc io c s)"

section \<open>Formatted output of the kernel\<close>

definition kdigits :: "nat \<Rightarrow> u8" where
  "kdigits d = (if d < 10 then of_nat (48 + d) else of_nat (87 + d))"

function kprintint_buf :: "nat \<Rightarrow> nat \<Rightarrow> u8 list \<Rightarrow> u8 list outcome" where
  "kprintint_buf base x buf =
     (if base = 0 \<or> 16 \<le> length buf \<or> 16 \<le> x mod base then Undef
      else if x div base \<noteq> 0 then kprintint_buf base (x div base) (buf @ [kdigits (x mod base)])
      else Ok (buf @ [kdigits (x mod base)]))"
  by pat_completeness auto

termination
  by (relation "measure (\<lambda>(base, x, buf). 16 - length buf)") auto

declare kprintint_buf.simps [simp del]

text \<open>The bytes of a string are signed characters.\<close>

definition put_all :: "'h ports \<Rightarrow> u8 list \<Rightarrow> 'h console \<Rightarrow> 'h console outcome" where
  "put_all io cs s = for_each (\<lambda>c. consputc io (sint c)) cs s"

definition kprintint :: "'h ports \<Rightarrow> int \<Rightarrow> nat \<Rightarrow> bool \<Rightarrow> 'h console \<Rightarrow> 'h console outcome" where
  "kprintint io xx base sign s =
     (let neg = sign \<and> xx < 0; x = (if neg then of_int32 (- xx) else of_int32 xx) in
      andthen (kprintint_buf base x []) (\<lambda>buf.
        if neg then if 16 \<le> length buf then Undef else put_all io (rev (buf @ [45])) s
        else put_all io (rev buf) s))"

fun cprintf_from :: "'h ports \<Rightarrow> (nat \<Rightarrow> u8 list) \<Rightarrow> u8 list \<Rightarrow> nat list \<Rightarrow> 'h console \<Rightarrow> 'h console outcome" where
  "cprintf_from io str_at [] args s = Ok s"
| "cprintf_from io str_at [c] args s = (if c = 37 then Ok s else consputc io (int (unat c)) s)"
| "cprintf_from io str_at (c # d # fmt) args s =
     (if c \<noteq> 37 then andthen (consputc io (int (unat c)) s) (cprintf_from io str_at (d # fmt) args)
      else if d = 100 then
        (case args of [] \<Rightarrow> Undef
         | a # args \<Rightarrow> andthen (kprintint io (int_of a) 10 True s) (cprintf_from io str_at fmt args))
      else if d = 120 \<or> d = 112 then
        (case args of [] \<Rightarrow> Undef
         | a # args \<Rightarrow> andthen (kprintint io (int_of a) 16 False s) (cprintf_from io str_at fmt args))
      else if d = 115 then
        (case args of [] \<Rightarrow> Undef
         | a # args \<Rightarrow> andthen (put_all io (if a = 0 then ascii ''(null)'' else str_at a) s) (cprintf_from io str_at fmt args))
      else if d = 37 then andthen (consputc io 37 s) (cprintf_from io str_at fmt args)
      else andthen (consputc io 37 s) (\<lambda>s. andthen (consputc io (int (unat d)) s) (cprintf_from io str_at fmt args)))"

text \<open>A null format is \<open>None\<close>.\<close>

definition cprintf :: "'h ports \<Rightarrow> (nat \<Rightarrow> u8 list) \<Rightarrow> u8 list option \<Rightarrow> nat list \<Rightarrow> 'h console \<Rightarrow> 'h console outcome" where
  "cprintf io str_at fmt args s =
     (case fmt of None \<Rightarrow> Panic ''null fmt'' | Some fmt \<Rightarrow> cprintf_from io str_at fmt args s)"

text \<open>The state in which \<^verbatim>\<open>panic\<close> starts to spin; \<open>cpu\<close> is the number of the processor, \<open>pcs\<close> the ten return addresses.\<close>

definition panic :: "'h ports \<Rightarrow> (nat \<Rightarrow> u8 list) \<Rightarrow> nat \<Rightarrow> nat list \<Rightarrow> u8 list \<Rightarrow> 'h console \<Rightarrow> 'h console outcome" where
  "panic io str_at cpu pcs msg s =
     andthen (cprintf io str_at (Some (ascii ''cpu%d: panic: '')) [cpu] (s\<lparr>locking := False\<rparr>)) (\<lambda>s.
     andthen (cprintf io str_at (Some msg) [] s) (\<lambda>s.
     andthen (cprintf io str_at (Some (ascii ''\<newline>'')) [] s) (\<lambda>s.
     andthen (for_each (\<lambda>pc. cprintf io str_at (Some (ascii '' %p'')) [pc]) pcs s) (\<lambda>s.
       Ok (s\<lparr>panicked := True\<rparr>)))))"

text \<open>The disabled entries of the I/O controller; \<open>id\<close> is \<^verbatim>\<open>ioapicid\<close>.\<close>

definition ioapicinit :: "'h ports \<Rightarrow> (nat \<Rightarrow> u8 list) \<Rightarrow> nat \<Rightarrow> 'h console \<Rightarrow> 'h console outcome" where
  "ioapicinit io str_at ioapicid s =
     (if \<not> ismp s then Ok s
      else let (v, s) = ioapicread io 1 s; maxintr = v div 2 ^ 16 mod 256;
               (v, s) = ioapicread io 0 s
           in andthen (if v div 2 ^ 24 \<noteq> ioapicid
                then cprintf io str_at (Some (ascii ''ioapicinit: id isn't equal to ioapicid; not a MP\<newline>'')) [] s
                else Ok s) (\<lambda>s.
              Ok (fold (\<lambda>i s. ioapicwrite io (16 + 2 * i + 1) 0 (ioapicwrite io (16 + 2 * i) (0x10000 + (T_IRQ0 + i)) s))
                   [0..<maxintr + 1] s)))"

section \<open>Keyboard\<close>

text \<open>The tables of kbd.h; entries that are not listed there are 0. The entries of the keypad and the
  cursor keys, from 0x80 on, are the same in the three character tables but for KP_Enter and KP_Div.\<close>

definition shiftcode :: "nat \<Rightarrow> u8" where
  "shiftcode d = (if d \<in> {0x1D, 0x9D} then 2 else if d \<in> {0x2A, 0x36} then 1 else if d \<in> {0x38, 0xB8} then 4 else 0)"

definition togglecode :: "nat \<Rightarrow> u8" where
  "togglecode d = (if d = 0x3A then 8 else if d = 0x45 then 16 else if d = 0x46 then 32 else 0)"

definition escaped_keys :: "(nat \<times> u8) list" where
  "escaped_keys = [(0xC8, 0xE2), (0xD0, 0xE3), (0xC9, 0xE6), (0xD1, 0xE7), (0xCB, 0xE4), (0xCD, 0xE5),
     (0x97, 0xE0), (0xCF, 0xE1), (0xD2, 0xE8), (0xD3, 0xE9)]"

definition key_table :: "u8 list \<Rightarrow> (nat \<times> u8) list \<Rightarrow> nat \<Rightarrow> u8" where
  "key_table row rest d = (if d < length row then row ! d else case map_of rest d of None \<Rightarrow> 0 | Some c \<Rightarrow> c)"

definition normalmap :: "nat \<Rightarrow> u8" where
  "normalmap = key_table
     ([0, 0x1B] @ ascii ''1234567890-='' @ [8, 9] @
      ascii ''qwertyuiop[]'' @ [10, 0] @ ascii ''asdfghjkl;'' @ [39, 96, 0, 92] @
      ascii ''zxcvbnm,./'' @ [0, 42, 0, 32] @ replicate 13 0 @ ascii ''789-456+1230.'' @ replicate 4 0)
     ([(0x9C, 10), (0xB5, 47)] @ escaped_keys)"

definition shiftmap :: "nat \<Rightarrow> u8" where
  "shiftmap = key_table
     ([0, 0x1B] @ ascii ''!@#$%^&*()_+'' @ [8, 9] @
      ascii ''QWERTYUIOP{}'' @ [10, 0] @ ascii ''ASDFGHJKL:'' @ [34, 126, 0, 124] @
      ascii ''ZXCVBNM<>?'' @ [0, 42, 0, 32] @ replicate 13 0 @ ascii ''789-456+1230.'' @ replicate 4 0)
     ([(0x9C, 10), (0xB5, 47)] @ escaped_keys)"

definition ctl :: "string \<Rightarrow> u8 list" where
  "ctl cs = map (\<lambda>c. c - 64) (ascii cs)"

definition ctlmap :: "nat \<Rightarrow> u8" where
  "ctlmap = key_table
     (replicate 16 0 @ ctl ''QWERTYUIOP'' @ [0, 0, 13, 0] @ ctl ''ASDFGHJKL'' @ [0, 0, 0, 0, 92 - 64] @
      ctl ''ZXCVBNM'' @ [0, 0, 47 - 64, 0, 0])
     ([(0x9C, 13), (0xB5, 47 - 64)] @ escaped_keys)"

definition charcode :: "u8 \<Rightarrow> nat \<Rightarrow> u8" where
  "charcode i = (if i = 0 then normalmap else if i = 1 then shiftmap else ctlmap)"

text \<open>
  Decoding of one byte of the keyboard. SHIFT is bit 0, CTL bit 1, CAPSLOCK bit 3 and E0ESC bit 6 of \<^verbatim>\<open>shift\<close>.
\<close>

definition kbd_decode :: "u8 \<Rightarrow> u8 \<Rightarrow> u8 \<times> u8" where
  "kbd_decode data shift =
     (if data = 0xE0 then (0, shift OR 0x40)
      else if data AND 0x80 \<noteq> 0 then
        let data = (if shift AND 0x40 \<noteq> 0 then data else data AND 0x7F)
        in (0, shift AND NOT (shiftcode (unat data) OR 0x40))
      else
        let (data, shift) = (if shift AND 0x40 \<noteq> 0 then (data OR 0x80, shift AND NOT 0x40) else (data, shift));
            shift = shift OR shiftcode (unat data);
            shift = shift XOR togglecode (unat data);
            c = charcode (shift AND 3) (unat data);
            c = (if shift AND 8 \<noteq> 0 then
                   if 97 \<le> c \<and> c \<le> 122 then c - 32 else if 65 \<le> c \<and> c \<le> 90 then c + 32 else c
                 else c)
        in (c, shift))"

definition kbdgetc :: "'h ports \<Rightarrow> 'h console \<Rightarrow> int \<times> 'h console" where
  "kbdgetc io s =
     (let (st, s) = con_inb io KBSTATP s in
      if st AND 1 = 0 then (-1, s)
      else let (data, s) = con_inb io KBDATAP s; (c, sh) = kbd_decode data (kbd_shift s)
           in (int (unat c), s\<lparr>kbd_shift := sh\<rparr>))"

section \<open>Listing of processes\<close>

definition state_name :: "procstate \<Rightarrow> string" where
  "state_name st = (case st of UNUSED \<Rightarrow> ''unused'' | EMBRYO \<Rightarrow> ''embryo'' | SLEEPING \<Rightarrow> ''sleep ''
     | RUNNABLE \<Rightarrow> ''runble'' | RUNNING \<Rightarrow> ''run   '' | ZOMBIE \<Rightarrow> ''zombie'')"

text \<open>
  The line of slot \<open>p\<close>. In the call of \<^verbatim>\<open>cprintf\<close> the addresses 1 and 2 stand for those of the name of the
  state and of the process; the frame pointer is at offset 12 of the saved context.
\<close>

definition procdump_line :: "'h ports \<Rightarrow> 'a kproc_scheme \<Rightarrow> nat \<Rightarrow> 'h console \<Rightarrow> 'h console outcome" where
  "procdump_line io k p s =
     (let q = pt k p; m = k_mem (kn_vm k);
          str_at = (\<lambda>a. if a = 1 then ascii (state_name (p_state q)) else takeWhile (\<lambda>c. c \<noteq> 0) (p_name q))
      in if p_state q = UNUSED then Ok s
      else andthen (cprintf io str_at (Some (ascii ''%d %s %s'')) [of_int32 (p_pid q), 1, 2] s) (\<lambda>s.
        andthen (if p_state q = SLEEPING
            then for_each (\<lambda>pc. cprintf io str_at (Some (ascii '' %p'')) [pc])
                   (takeWhile (\<lambda>pc. pc \<noteq> 0) (getcallerpcs m (w32 (ld32 m (p_context q + 12) + 8)))) s
            else Ok s)
          (cprintf io str_at (Some (ascii ''\<newline>'')) [])))"

definition procdump :: "'h ports \<Rightarrow> 'a kproc_scheme \<Rightarrow> 'h console \<Rightarrow> 'h console outcome" where
  "procdump io k s = for_each (procdump_line io k) [0..<NPROC] s"

section \<open>Console input\<close>

text \<open>
  The loop that kills the line makes at most one step for each byte of the line; the bound \<open>n\<close>
  on its steps is not reached, which is proved.
\<close>

fun kill_line :: "'h ports \<Rightarrow> nat \<Rightarrow> 'h console \<Rightarrow> 'h console outcome" where
  "kill_line io n s =
     (if in_e s \<noteq> in_w s \<and> in_buf s ! (w32 (in_e s + 4294967295) mod INPUT_BUF) \<noteq> 10 then
        case n of 0 \<Rightarrow> NoFuel
        | Suc n \<Rightarrow> andthen (consputc io BACKSPACE (s\<lparr>in_e := w32 (in_e s + 4294967295)\<rparr>)) (kill_line io n)
      else Ok s)"

declare kill_line.simps [simp del]

text \<open>One round of the loop of \<^verbatim>\<open>consoleintr\<close>; \<open>k\<close> is the rest of the kernel.\<close>

definition console_char ::
    "'h ports \<Rightarrow> 'a kproc_scheme \<Rightarrow> int \<Rightarrow> 'h console \<Rightarrow> 'h console outcome" where
  "console_char io k c s =
     (if c = 16 then procdump io k s
      else if c = 21 then kill_line io INPUT_BUF s
      else if c = 8 \<or> c = 127 then
        if in_e s \<noteq> in_w s then consputc io BACKSPACE (s\<lparr>in_e := w32 (in_e s + 4294967295)\<rparr>) else Ok s
      else if c \<noteq> 0 \<and> w32 (in_e s + 4294967296 - in_r s) < INPUT_BUF then
        let c = (if c = 13 then 10 else c);
            s = s\<lparr>in_buf := (in_buf s)[in_e s mod INPUT_BUF := of_int c], in_e := w32 (in_e s + 1)\<rparr>
        in andthen (consputc io c s) (\<lambda>s.
             if c = 10 \<or> c = 4 \<or> in_e s = w32 (in_r s + INPUT_BUF)
             then Ok (s\<lparr>in_w := in_e s, woken := woken s + 1\<rparr>) else Ok s)
      else Ok s)"

text \<open>\<open>fuel\<close> bounds the number of characters that the device delivers before it has no more.\<close>

primrec consoleintr ::
    "'h ports \<Rightarrow> 'a kproc_scheme \<Rightarrow> ('h console \<Rightarrow> int \<times> 'h console) \<Rightarrow> nat \<Rightarrow> 'h console \<Rightarrow> 'h console outcome" where
  "consoleintr io k getc 0 s = NoFuel"
| "consoleintr io k getc (Suc fuel) s =
     (let (c, s) = getc s in
      if 0 \<le> c then andthen (console_char io k c s) (consoleintr io k getc fuel) else Ok s)"

definition uartintr :: "'h ports \<Rightarrow> 'a kproc_scheme \<Rightarrow> nat \<Rightarrow> 'h console \<Rightarrow> 'h console outcome" where
  "uartintr io k fuel s = consoleintr io k (uartgetc io) fuel s"

definition kbdintr :: "'h ports \<Rightarrow> 'a kproc_scheme \<Rightarrow> nat \<Rightarrow> 'h console \<Rightarrow> 'h console outcome" where
  "kbdintr io k fuel s = consoleintr io k (kbdgetc io) fuel s"

text \<open>
  A reader is done with the bytes it copied, is killed while it waits, or sleeps with \<open>n\<close> bytes
  still to read after those it has copied.
\<close>

datatype con_read = ReadDone "u8 list" | ReadKilled | ReadSleeps nat "u8 list"

function consoleread_from :: "bool \<Rightarrow> nat \<Rightarrow> nat \<Rightarrow> u8 list \<Rightarrow> 'h console \<Rightarrow> con_read \<times> 'h console" where
  "consoleread_from killed target n dst s =
     (if 0 < n then
        if in_r s = in_w s then (if killed then ReadKilled else ReadSleeps n dst, s)
        else let c = in_buf s ! (in_r s mod INPUT_BUF); s = s\<lparr>in_r := w32 (in_r s + 1)\<rparr> in
          if c = 4 then (ReadDone dst, if n < target then s\<lparr>in_r := w32 (in_r s + 4294967295)\<rparr> else s)
          else if c = 10 then (ReadDone (dst @ [c]), s)
          else consoleread_from killed target (n - 1) (dst @ [c]) s
      else (ReadDone dst, s))"
  by pat_completeness auto

termination
  by (relation "measure (\<lambda>(killed, target, n, dst, s). n)") auto

declare consoleread_from.simps [simp del]

text \<open>\<^verbatim>\<open>consoleread\<close> between the release and the acquisition of the inode; its result is the number of bytes copied.\<close>

definition consoleread :: "bool \<Rightarrow> int \<Rightarrow> 'h console \<Rightarrow> con_read \<times> 'h console" where
  "consoleread killed n s = consoleread_from killed (nat n) (nat n) [] s"

definition consolewrite :: "'h ports \<Rightarrow> u8 list \<Rightarrow> 'h console \<Rightarrow> (int \<times> 'h console) outcome" where
  "consolewrite io buf s =
     andthen (for_each (\<lambda>c. consputc io (int (unat c))) buf s) (\<lambda>s. Ok (int (length buf), s))"

text \<open>The entries of the table of devices are arguments of \<^verbatim>\<open>readi\<close> and \<^verbatim>\<open>writei\<close>.\<close>

definition consoleinit :: "'h ports \<Rightarrow> 'h console \<Rightarrow> 'h console" where
  "consoleinit io s = ioapicenable io 1 0 (picenable io 1 (s\<lparr>locking := True\<rparr>))"

end
