(* ===== verification/Xv6_Console_Props.thy ===== *)
theory Xv6_Console_Props
  imports Xv6_Console
begin

text \<open>
  What the console does with its input: whatever the ring buffer and its three counters hold,
  a user sees a line editor and a reader gets the finished lines. Output is shown to return, with the
  cursor on the screen, for a screen and a serial line that behave as documented.
\<close>

section \<open>The devices\<close>

text \<open>
  The cursor of the display: \<open>sel\<close> is the register selected at port 0x3d4, \<open>cur\<close> the position
  of the cursor, whose high and low byte are registers 14 and 15.
\<close>

definition cga_device :: "'h ports \<Rightarrow> ('h \<Rightarrow> u8) \<Rightarrow> ('h \<Rightarrow> nat) \<Rightarrow> bool" where
  "cga_device io sel cur \<longleftrightarrow>
     (\<forall>h v. sel (outb io CRTPORT v h) = v \<and> cur (outb io CRTPORT v h) = cur h) \<and>
     (\<forall>h. sel (snd (inb io (CRTPORT + 1) h)) = sel h \<and> cur (snd (inb io (CRTPORT + 1) h)) = cur h) \<and>
     (\<forall>h. sel h = 14 \<longrightarrow> fst (inb io (CRTPORT + 1) h) = of_nat (cur h div 256)) \<and>
     (\<forall>h. sel h = 15 \<longrightarrow> fst (inb io (CRTPORT + 1) h) = of_nat (cur h)) \<and>
     (\<forall>h v. sel h = 14 \<longrightarrow> cur (outb io (CRTPORT + 1) v h) = unat v * 256 + cur h mod 256) \<and>
     (\<forall>h v. sel h = 15 \<longrightarrow> cur (outb io (CRTPORT + 1) v h) = cur h div 256 * 256 + unat v) \<and>
     (\<forall>h. cur (snd (inb io COM1 h)) = cur h \<and> cur (snd (inb io (COM1 + 5) h)) = cur h) \<and>
     (\<forall>h v. cur (outb io COM1 v h) = cur h)"

text \<open>
  The receiver of the serial line: \<open>rx\<close> are the bytes that have arrived and are not read yet. Bit 0 of the line
  status says whether there is one; reading the data port takes it. Output does not change it.
\<close>

definition serial_device :: "'h ports \<Rightarrow> ('h \<Rightarrow> u8 list) \<Rightarrow> bool" where
  "serial_device io rx \<longleftrightarrow>
     (\<forall>h. (fst (inb io (COM1 + 5) h) AND 1 = 0) = (rx h = [])) \<and>
     (\<forall>h. rx (snd (inb io (COM1 + 5) h)) = rx h) \<and>
     (\<forall>h. rx h \<noteq> [] \<longrightarrow> fst (inb io COM1 h) = hd (rx h) \<and> rx (snd (inb io COM1 h)) = tl (rx h)) \<and>
     (\<forall>h v. rx (outb io COM1 v h) = rx h) \<and>
     (\<forall>h v. rx (outb io CRTPORT v h) = rx h \<and> rx (outb io (CRTPORT + 1) v h) = rx h) \<and>
     (\<forall>h. rx (snd (inb io (CRTPORT + 1) h)) = rx h)"

text \<open>Output is possible: no processor has panicked and the cursor is in the 24 rows that scroll.\<close>

definition can_print :: "('h \<Rightarrow> nat) \<Rightarrow> 'h console \<Rightarrow> bool" where
  "can_print cur s \<longleftrightarrow> \<not> panicked s \<and> cur (hw s) < 24 * 80"

text \<open>\<open>t\<close> is \<open>s\<close> after some output: the screen and the hardware have changed, the bytes received have not.\<close>

definition printed :: "('h \<Rightarrow> nat) \<Rightarrow> ('h \<Rightarrow> u8 list) \<Rightarrow> 'h console \<Rightarrow> 'h console \<Rightarrow> bool" where
  "printed cur rx s t \<longleftrightarrow> (\<exists>h m. t = s\<lparr>crt := m, hw := h\<rparr> \<and> rx h = rx (hw s) \<and> cur h < 24 * 80)"

lemma printed_refl: "can_print cur s \<Longrightarrow> printed cur rx s s"
  unfolding printed_def can_print_def by (rule exI [of _ "hw s"], rule exI [of _ "crt s"]) simp

lemma printed_trans: "printed cur rx s t \<Longrightarrow> printed cur rx t u \<Longrightarrow> printed cur rx s u"
  unfolding printed_def by force

lemma printed_can_print: "can_print cur s \<Longrightarrow> printed cur rx s t \<Longrightarrow> can_print cur t"
  unfolding printed_def can_print_def by force

section \<open>Output\<close>

lemma uart_wait_keeps:
  assumes "cga_device io sel cur" and "serial_device io rx"
  shows "\<exists>h. uart_wait io n s = s\<lparr>hw := h\<rparr> \<and> cur h = cur (hw s) \<and> rx h = rx (hw s)"
proof (induction n arbitrary: s)
  case 0
  show ?case by (rule exI [of _ "hw s"]) simp
next
  case (Suc n)
  obtain v h where i: "inb io (COM1 + 5) (hw s) = (v, h)" by fastforce
  have k: "cur h = cur (hw s)" "rx h = rx (hw s)"
    using assms i unfolding cga_device_def serial_device_def by (metis snd_conv)+
  obtain h' where "uart_wait io n (s\<lparr>hw := h\<rparr>) = s\<lparr>hw := h'\<rparr>" "cur h' = cur h" "rx h' = rx h"
    using Suc [of "s\<lparr>hw := h\<rparr>"] by auto
  then show ?case using i k by (auto simp: con_inb_def)
qed

lemma uartputc_keeps:
  assumes "cga_device io sel cur" and "serial_device io rx"
  shows "\<exists>h. uartputc io c s = s\<lparr>hw := h\<rparr> \<and> cur h = cur (hw s) \<and> rx h = rx (hw s)"
proof (cases "uart s")
  case True
  obtain h where "uart_wait io 128 s = s\<lparr>hw := h\<rparr>" "cur h = cur (hw s)" "rx h = rx (hw s)"
    using uart_wait_keeps [OF assms] by blast
  then show ?thesis
    using True assms by (auto simp: uartputc_def con_outb_def cga_device_def serial_device_def)
next
  case False
  then show ?thesis by (auto simp: uartputc_def intro: exI [of _ "hw s"])
qed

text \<open>The cursor registers read back what was written into them.\<close>

lemma read_cursor:
  assumes "cga_device io sel cur" and "serial_device io rx" and "cur (hw s) < 65536"
  shows "\<exists>h1 h. con_inb io (CRTPORT + 1) (con_outb io CRTPORT 14 s) = (of_nat (cur (hw s) div 256), s\<lparr>hw := h1\<rparr>) \<and>
    con_inb io (CRTPORT + 1) (con_outb io CRTPORT 15 (s\<lparr>hw := h1\<rparr>)) = (of_nat (cur (hw s)), s\<lparr>hw := h\<rparr>) \<and>
    cur h = cur (hw s) \<and> rx h = rx (hw s)"
proof -
  let ?a = "outb io CRTPORT 14 (hw s)"
  let ?h1 = "snd (inb io (CRTPORT + 1) ?a)"
  let ?b = "outb io CRTPORT 15 ?h1"
  let ?h = "snd (inb io (CRTPORT + 1) ?b)"
  have "cur ?h = cur (hw s)" "rx ?h = rx (hw s)" "cur ?b = cur (hw s)" "cur ?a = cur (hw s)"
    "sel ?a = 14" "sel ?b = 15"
    using assms(1,2) by (simp_all add: cga_device_def serial_device_def)
  moreover have "fst (inb io (CRTPORT + 1) ?a) = of_nat (cur (hw s) div 256)"
      "fst (inb io (CRTPORT + 1) ?b) = of_nat (cur (hw s))"
    using assms(1) calculation unfolding cga_device_def by metis+
  ultimately show ?thesis
    by (intro exI [of _ ?h1] exI [of _ ?h]) (simp add: con_inb_def con_outb_def split_beta)
qed

lemma write_cursor:
  assumes "cga_device io sel cur" and "serial_device io rx" and "pos < 65536"
  shows "\<exists>h. con_outb io (CRTPORT + 1) (of_nat pos) (con_outb io CRTPORT 15
      (con_outb io (CRTPORT + 1) (of_nat (pos div 256)) (con_outb io CRTPORT 14 s))) = s\<lparr>hw := h\<rparr> \<and>
    cur h = pos \<and> rx h = rx (hw s)"
proof -
  let ?a = "outb io CRTPORT 14 (hw s)"
  let ?b = "outb io (CRTPORT + 1) (of_nat (pos div 256)) ?a"
  let ?c = "outb io CRTPORT 15 ?b"
  let ?d = "outb io (CRTPORT + 1) (of_nat pos) ?c"
  have "sel ?a = 14" "sel ?c = 15" "cur ?c = cur ?b" "rx ?d = rx (hw s)"
    using assms(1,2) by (simp_all add: cga_device_def serial_device_def)
  moreover have "cur ?b = pos div 256 * 256 + cur ?a mod 256"
  proof -
    have "cur ?b = unat (of_nat (pos div 256) :: u8) * 256 + cur ?a mod 256"
      using assms(1) \<open>sel ?a = 14\<close> unfolding cga_device_def by metis
    moreover have "unat (of_nat (pos div 256) :: u8) = pos div 256"
      using assms(3) by (simp add: unat_of_nat)
    ultimately show ?thesis by simp
  qed
  moreover have "cur ?d = cur ?c div 256 * 256 + unat (of_nat pos :: u8)"
    using assms(1) \<open>sel ?c = 15\<close> unfolding cga_device_def by metis
  ultimately have "cur ?d = pos div 256 * 256 + pos mod 256" by (simp add: unat_of_nat)
  then have "cur ?d = pos" by simp
  then show ?thesis
    using \<open>rx ?d = rx (hw s)\<close> by (intro exI [of _ ?d]) (simp add: con_outb_def)
qed

text \<open>Where the cursor goes, and the cells, before the screen scrolls; then the whole screen.\<close>

definition place :: "int \<Rightarrow> nat \<times> (nat \<Rightarrow> nat) \<Rightarrow> nat \<times> (nat \<Rightarrow> nat)" where
  "place c = (\<lambda>(pos, m). if c = 10 then (80 * (pos div 80 + 1), m) else if c = BACKSPACE then (pos - 1, m)
     else (pos + 1, m(pos := nat (c mod 256) + 0x700)))"

definition scroll_up :: "nat \<times> (nat \<Rightarrow> nat) \<Rightarrow> nat \<times> (nat \<Rightarrow> nat)" where
  "scroll_up = (\<lambda>(pos, m). if pos < 24 * 80 then (pos, m)
     else (23 * 80, \<lambda>i. if i < 23 * 80 then m (i + 80) else if i < 24 * 80 then 0 else m i))"

definition screen_put :: "int \<Rightarrow> nat \<times> (nat \<Rightarrow> nat) \<Rightarrow> nat \<times> (nat \<Rightarrow> nat)" where
  "screen_put c scr = (let (pos, m) = scroll_up (place c scr) in (pos, m(pos := 0x720)))"

lemma place_le:
  assumes "pos < 24 * 80"
  shows "fst (place c (pos, m)) \<le> 24 * 80"
proof -
  have "pos div 80 < 24" using assms by (simp add: div_less_iff_less_mult)
  then have "80 * (pos div 80 + 1) \<le> 24 * 80" by simp
  moreover have "pos - 1 \<le> 24 * 80" using assms by linarith
  ultimately show ?thesis using assms by (simp add: place_def)
qed

lemma cursor_bytes: "pos < 65536 \<Longrightarrow> unat (of_nat (pos div 256) :: u8) * 256 + unat (of_nat pos :: u8) = pos"
  by (simp add: unat_of_nat)

lemma newline_pos: "pos + (80 - pos mod 80) = 80 * (pos div 80 + 1)" for pos :: nat
proof -
  have "pos mod 80 < 80" by simp
  then have "pos mod 80 + (80 - pos mod 80) = 80" by simp
  moreover have "pos = 80 * (pos div 80) + pos mod 80" by simp
  ultimately have "pos + (80 - pos mod 80) = 80 * (pos div 80) + 80" by (metis add.assoc)
  then show ?thesis by (simp add: distrib_left)
qed

lemma cgaputc_law:
  assumes d: "cga_device io sel cur" "serial_device io rx" and c: "cur (hw s) < 24 * 80"
  shows "\<exists>h m. cgaputc io c s = Ok (s\<lparr>crt := m, hw := h\<rparr>) \<and> rx h = rx (hw s) \<and> cur h < 24 * 80 \<and>
    (cur h, m) = screen_put c (cur (hw s), crt s)"
proof -
  let ?pos = "cur (hw s)"
  obtain p m where pl: "place c (?pos, crt s) = (p, m)" by fastforce
  have p: "p \<le> 24 * 80" using place_le [OF c, of c "crt s"] pl by simp
  obtain h1 h2 where r: "con_inb io (CRTPORT + 1) (con_outb io CRTPORT 14 s) = (of_nat (?pos div 256), s\<lparr>hw := h1\<rparr>)"
      "con_inb io (CRTPORT + 1) (con_outb io CRTPORT 15 (s\<lparr>hw := h1\<rparr>)) = (of_nat ?pos, s\<lparr>hw := h2\<rparr>)"
      "rx h2 = rx (hw s)"
    using read_cursor [OF d] c by force
  have pos: "unat (of_nat (?pos div 256) :: u8) * 256 + unat (of_nat ?pos :: u8) = ?pos"
    by (rule cursor_bytes) (use c in simp)
  obtain q n where sc: "scroll_up (p, m) = (q, n)" by fastforce
  have q: "q < 24 * 80" using sc p by (auto simp: scroll_up_def split: if_splits)
  obtain h where w: "con_outb io (CRTPORT + 1) (of_nat q) (con_outb io CRTPORT 15
      (con_outb io (CRTPORT + 1) (of_nat (q div 256)) (con_outb io CRTPORT 14 (s\<lparr>hw := h2, crt := n\<rparr>)))) =
      s\<lparr>hw := h2, crt := n\<rparr>\<lparr>hw := h\<rparr>" "cur h = q" "rx h = rx h2"
    using write_cursor [OF d, of q "s\<lparr>hw := h2, crt := n\<rparr>"] q by auto
  have pre: "(if c = 10 then (?pos + (80 - ?pos mod 80), s\<lparr>hw := h2\<rparr>) else if c = BACKSPACE then (?pos - 1, s\<lparr>hw := h2\<rparr>)
      else (?pos + 1, s\<lparr>hw := h2, crt := (crt (s\<lparr>hw := h2\<rparr>))(?pos := nat (c mod 256) + 0x700)\<rparr>)) = (p, s\<lparr>hw := h2, crt := m\<rparr>)"
    using pl by (auto simp: place_def newline_pos split: if_splits)
  have scr: "(if 24 \<le> p div 80 then andthen (cga_scroll (p - 80) (s\<lparr>hw := h2, crt := m\<rparr>)) (\<lambda>s. Ok (p - 80, s))
      else Ok (p, s\<lparr>hw := h2, crt := m\<rparr>)) = Ok (q, s\<lparr>hw := h2, crt := n\<rparr>)"
  proof (cases "p < 24 * 80")
    case True
    then have "\<not> 24 \<le> p div 80" by (simp add: not_le div_less_iff_less_mult)
    then show ?thesis using True sc by (simp add: scroll_up_def)
  next
    case False
    then have "p = 1920" using p by simp
    moreover have "q = 1840" "n = (\<lambda>i. if 1840 \<le> i \<and> i < 1920 then 0 else if i < 1840 then m (i + 80) else m i)"
      using sc calculation by (auto simp: scroll_up_def)
    ultimately show ?thesis by (simp add: cga_scroll_def cong: if_cong)
  qed
  have "cgaputc io c s = Ok (s\<lparr>crt := n(q := 0x720), hw := h\<rparr>)"
    unfolding cgaputc_def Let_def r prod.case pos pre scr andthen.simps w by simp
  moreover have "(cur h, n(q := 0x720)) = screen_put c (?pos, crt s)"
    by (simp add: screen_put_def pl sc w(2))
  ultimately show ?thesis
    using w(2,3) q r(3) by (intro exI [of _ h] exI [of _ "n(q := 0x720)"]) simp
qed

lemma consputc_law:
  assumes d: "cga_device io sel cur" "serial_device io rx" and s: "can_print cur s"
  shows "\<exists>t. consputc io c s = Ok t \<and> printed cur rx s t \<and>
    (cur (hw t), crt t) = screen_put c (cur (hw s), crt s)"
proof -
  have "\<exists>h. (if c = BACKSPACE then uartputc io 8 (uartputc io 32 (uartputc io 8 s)) else uartputc io c s) = s\<lparr>hw := h\<rparr> \<and>
      cur h = cur (hw s) \<and> rx h = rx (hw s)"
  proof (cases "c = BACKSPACE")
    case True
    obtain h1 where h1: "uartputc io 8 s = s\<lparr>hw := h1\<rparr>" "cur h1 = cur (hw s)" "rx h1 = rx (hw s)"
      using uartputc_keeps [OF d] by blast
    obtain h2 where h2: "uartputc io 32 (s\<lparr>hw := h1\<rparr>) = s\<lparr>hw := h2\<rparr>" "cur h2 = cur h1" "rx h2 = rx h1"
      using uartputc_keeps [OF d, of 32 "s\<lparr>hw := h1\<rparr>"] by auto
    obtain h3 where "uartputc io 8 (s\<lparr>hw := h2\<rparr>) = s\<lparr>hw := h3\<rparr>" "cur h3 = cur h2" "rx h3 = rx h2"
      using uartputc_keeps [OF d, of 8 "s\<lparr>hw := h2\<rparr>"] by auto
    then show ?thesis using True h1 h2 by (intro exI [of _ h3]) simp
  next
    case False
    then show ?thesis using uartputc_keeps [OF d] by simp
  qed
  then obtain h where h: "(if c = BACKSPACE then uartputc io 8 (uartputc io 32 (uartputc io 8 s)) else uartputc io c s) = s\<lparr>hw := h\<rparr>"
      "cur h = cur (hw s)" "rx h = rx (hw s)" by blast
  obtain h' m where c: "cgaputc io c (s\<lparr>hw := h\<rparr>) = Ok (s\<lparr>hw := h\<rparr>\<lparr>crt := m, hw := h'\<rparr>)" "rx h' = rx h" "cur h' < 24 * 80"
      "(cur h', m) = screen_put c (cur h, crt s)"
    using cgaputc_law [OF d, of "s\<lparr>hw := h\<rparr>" c] s h(2) by (auto simp: can_print_def)
  have p: "\<not> panicked s" using s by (simp add: can_print_def)
  have "consputc io c s = Ok (s\<lparr>crt := m, hw := h'\<rparr>)"
    unfolding consputc_def Let_def h c(1) if_not_P [OF p] by simp
  then show ?thesis using c h by (auto simp: printed_def)
qed

text \<open>A sequence of outputs.\<close>

lemma printed_step:
  assumes "\<exists>t. m = Ok t \<and> printed cur rx s t" and "can_print cur s"
    and "\<And>t. can_print cur t \<Longrightarrow> \<exists>u. f t = Ok u \<and> printed cur rx t u"
  shows "\<exists>u. andthen m f = Ok u \<and> printed cur rx s u"
proof -
  obtain t where t: "m = Ok t" "printed cur rx s t" using assms(1) by blast
  obtain u where "f t = Ok u" "printed cur rx t u"
    using assms(3) [OF printed_can_print [OF assms(2) t(2)]] by blast
  then show ?thesis using t printed_trans by fastforce
qed

lemma printed_for_each:
  assumes "\<And>i t. i \<in> set is \<Longrightarrow> can_print cur t \<Longrightarrow> \<exists>u. f i t = Ok u \<and> printed cur rx t u" and "can_print cur s"
  shows "\<exists>t. for_each f is s = Ok t \<and> printed cur rx s t"
  using assms
proof (induction "is" arbitrary: s)
  case Nil
  then show ?case by (simp add: printed_refl)
next
  case (Cons i "is")
  show ?case
    unfolding for_each.simps by (rule printed_step) (use Cons in auto)
qed

lemma put_all_law:
  assumes "cga_device io sel cur" "serial_device io rx" and "can_print cur s"
  shows "\<exists>t. put_all io cs s = Ok t \<and> printed cur rx s t"
  unfolding put_all_def
proof (rule printed_for_each [OF _ assms(3)])
  fix c :: u8 and t
  assume "can_print cur t"
  then show "\<exists>u. consputc io (sint c) t = Ok u \<and> printed cur rx t u" using consputc_law [OF assms(1,2)] by blast
qed

text \<open>A number of 32 bits has at most 10 decimal and 8 hexadecimal digits, so it fits the array.\<close>

lemma kprintint_buf_fits:
  assumes "x < base ^ Suc k" and "2 \<le> base" and "base \<le> 16" and "length buf + Suc k \<le> 16"
  shows "\<exists>bs. kprintint_buf base x buf = Ok bs \<and> length bs \<le> length buf + Suc k"
  using assms
proof (induction k arbitrary: x buf)
  case 0
  then show ?case by (subst kprintint_buf.simps) simp
next
  case (Suc k)
  have "x mod base < base" using Suc.prems(2) by simp
  then have n: "\<not> (base = 0 \<or> 16 \<le> length buf \<or> 16 \<le> x mod base)" using Suc.prems(2-4) by linarith
  have "x div base < base ^ Suc k"
    using Suc.prems(1,2) by (simp add: div_less_iff_less_mult mult.commute mult.left_commute)
  then obtain bs where "kprintint_buf base (x div base) (buf @ [kdigits (x mod base)]) = Ok bs" "length bs \<le> length buf + Suc (Suc k)"
    using Suc.IH [of "x div base" "buf @ [kdigits (x mod base)]"] Suc.prems by auto
  then show ?case using n by (subst kprintint_buf.simps) simp
qed

lemma kprintint_law:
  assumes "cga_device io sel cur" "serial_device io rx" and "can_print cur s" and "base = 10 \<or> base = 16"
  shows "\<exists>t. kprintint io xx base sign s = Ok t \<and> printed cur rx s t"
proof -
  let ?neg = "sign \<and> xx < 0"
  let ?x = "if ?neg then of_int32 (- xx) else of_int32 xx"
  have "?x < 4294967296" by (simp add: of_int32_def nat_less_iff)
  also have "(4294967296 :: nat) \<le> base ^ Suc 9" using assms(4) by auto
  finally obtain bs where bs: "kprintint_buf base ?x [] = Ok bs" "length bs \<le> 10"
    using kprintint_buf_fits [of ?x base 9 "[]"] assms(4) by auto
  show ?thesis
    unfolding kprintint_def Let_def bs(1) andthen.simps
    using bs(2) put_all_law [OF assms(1-3)] by simp
qed

text \<open>The number of arguments that a format reads.\<close>

fun conversions :: "u8 list \<Rightarrow> nat" where
  "conversions (c # d # fmt) =
     (if c \<noteq> 37 then conversions (d # fmt) else if d \<in> {100, 120, 112, 115} then 1 + conversions fmt else conversions fmt)"
| "conversions [] = 0"
| "conversions [c] = 0"

lemma cprintf_from_law:
  assumes d: "cga_device io sel cur" "serial_device io rx" and "can_print cur s" and "conversions fmt \<le> length args"
  shows "\<exists>t. cprintf_from io str_at fmt args s = Ok t \<and> printed cur rx s t"
  using assms(3,4)
proof (induction fmt arbitrary: args s rule: conversions.induct)
  case (1 c e fmt)
  have put: "\<exists>u. consputc io v t = Ok u \<and> printed cur rx t u" if "can_print cur t" for v t
    using consputc_law [OF d that] by blast
  consider "c \<noteq> 37" | "c = 37" "e \<in> {100, 120, 112, 115}" | "c = 37" "e \<notin> {100, 120, 112, 115}" by blast
  then show ?case
  proof cases
    case 1
    then show ?thesis using "1.IH"(1) [OF 1] "1.prems" put printed_step [OF put] by simp
  next
    case 2
    then obtain a rest where args: "args = a # rest" "conversions fmt \<le> length rest"
      using "1.prems"(2) by (cases args) auto
    have go: "\<exists>u. andthen m (cprintf_from io str_at fmt rest) = Ok u \<and> printed cur rx s u"
      if "\<exists>t. m = Ok t \<and> printed cur rx s t" for m
      using printed_step [OF that "1.prems"(1)] "1.IH"(2) args(2) 2 by simp
    show ?thesis
      using 2 args(1) go [OF kprintint_law [OF d "1.prems"(1)]] go [OF put_all_law [OF d "1.prems"(1)]] by auto
  next
    case 3
    have rest: "\<exists>u. cprintf_from io str_at fmt args t = Ok u \<and> printed cur rx t u" if "can_print cur t" for t
      using "1.IH"(3) that "1.prems"(2) 3 by auto
    have two: "\<exists>u. andthen (consputc io v t) (cprintf_from io str_at fmt args) = Ok u \<and> printed cur rx t u"
      if t: "can_print cur t" for v t
      by (rule printed_step [OF put [OF t] t]) (rule rest)
    show ?thesis
      using 3 two [OF "1.prems"(1)] printed_step [OF put [OF "1.prems"(1)] "1.prems"(1) two] by auto
  qed
next
  case 2
  then show ?case by (simp add: printed_refl)
next
  case (3 v)
  then show ?case using consputc_law [OF d 3(1), of "uint v"] printed_refl by (cases "v = 37") auto
qed

lemma cprintf_law:
  assumes "cga_device io sel cur" "serial_device io rx" and "can_print cur s" and "conversions fmt \<le> length args"
  shows "\<exists>t. cprintf io str_at (Some fmt) args s = Ok t \<and> printed cur rx s t"
  unfolding cprintf_def option.case by (rule cprintf_from_law [OF assms])

lemma procdump_line_law:
  assumes d: "cga_device io sel cur" "serial_device io rx" and s: "can_print cur s"
  shows "\<exists>t. procdump_line io k p s = Ok t \<and> printed cur rx s t"
proof (cases "p_state (pt k p) = UNUSED")
  case True
  then show ?thesis using s by (simp add: procdump_line_def printed_refl)
next
  case False
  have c: "conversions (ascii ''%d %s %s'') = 3" "conversions (ascii '' %p'') = 1" "conversions (ascii ''\<newline>'') = 0"
    by (simp_all add: ascii_def)
  show ?thesis
    unfolding procdump_line_def Let_def if_not_P [OF False]
  proof (rule printed_step [OF _ s], rule cprintf_law [OF d s], simp add: c, rule printed_step)
    fix t
    assume t: "can_print cur t"
    show "can_print cur t" by (rule t)
    show "\<exists>u. (if p_state (pt k p) = SLEEPING then for_each (\<lambda>pc. cprintf io str_at (Some (ascii '' %p'')) [pc]) pcs t else Ok t) =
        Ok u \<and> printed cur rx t u" for str_at pcs
    proof (cases "p_state (pt k p) = SLEEPING")
      case True
      have "\<exists>u. for_each (\<lambda>pc. cprintf io str_at (Some (ascii '' %p'')) [pc]) pcs t = Ok u \<and> printed cur rx t u"
        by (rule printed_for_each [OF _ t], rule cprintf_law [OF d]) (simp_all add: c)
      then show ?thesis using True by simp
    qed (simp add: printed_refl [OF t])
  next
    fix t
    assume t: "can_print cur t"
    show "\<exists>u. cprintf io str_at (Some (ascii ''\<newline>'')) [] t = Ok u \<and> printed cur rx t u" for str_at
      by (rule cprintf_law [OF d t]) (simp add: c)
  qed
qed

lemma procdump_law:
  assumes "cga_device io sel cur" "serial_device io rx" and "can_print cur s"
  shows "\<exists>t. procdump io k s = Ok t \<and> printed cur rx s t"
  unfolding procdump_def by (rule printed_for_each [OF procdump_line_law [OF assms(1,2)] assms(3)])

section \<open>The line editor\<close>

text \<open>
  What a user sees: the finished input that no reader has taken yet, and the line being typed. A line
  is finished by a newline, by the end-of-file character, and by filling the buffer.
\<close>

definition edit :: "u8 \<Rightarrow> u8 list \<times> u8 list \<Rightarrow> u8 list \<times> u8 list" where
  "edit c = (\<lambda>(P, L).
     if c = 16 then (P, L)
     else if c = 21 then (P, [])
     else if c = 8 \<or> c = 127 then (P, butlast L)
     else if c = 0 \<or> length P + length L = INPUT_BUF then (P, L)
     else let L' = L @ [if c = 13 then 10 else c] in
       if c \<in> {10, 13, 4} \<or> length P + length L' = INPUT_BUF then (P @ L', []) else (P, L'))"

definition ring :: "u8 list \<Rightarrow> nat \<Rightarrow> nat \<Rightarrow> u8 list" where
  "ring buf i n = map (\<lambda>k. buf ! ((i + k) mod INPUT_BUF)) [0..<n]"

definition con_view :: "'h console \<Rightarrow> u8 list \<Rightarrow> u8 list \<Rightarrow> bool" where
  "con_view s P L \<longleftrightarrow> length (in_buf s) = INPUT_BUF \<and> in_r s < 4294967296 \<and>
     in_w s = w32 (in_r s + length P) \<and> in_e s = w32 (in_r s + (length P + length L)) \<and>
     length P + length L \<le> INPUT_BUF \<and> ring (in_buf s) (in_r s) (length P + length L) = P @ L \<and> 10 \<notin> set L"

lemma length_ring [simp]: "length (ring buf i n) = n"
  by (simp add: ring_def)

lemma ring_Suc: "ring buf i (Suc n) = ring buf i n @ [buf ! ((i + n) mod INPUT_BUF)]"
  by (simp add: ring_def)

lemma mod_128_w32 [simp]: "w32 n mod INPUT_BUF = n mod INPUT_BUF"
  by (simp add: mod_mod_cancel)

lemma ring_first: "ring buf i (Suc n) = buf ! (i mod INPUT_BUF) # ring buf (w32 (i + 1)) n"
proof -
  have "(w32 (i + 1) + k) mod INPUT_BUF = (i + Suc k) mod INPUT_BUF" for k
  proof -
    have "(w32 (i + 1) + k) mod INPUT_BUF = (w32 (i + 1) mod INPUT_BUF + k) mod INPUT_BUF"
      by (simp only: mod_add_left_eq)
    also have "\<dots> = (i + 1 + k) mod INPUT_BUF" by (simp only: mod_128_w32 mod_add_left_eq)
    finally show ?thesis by (simp add: One_nat_def)
  qed
  then show ?thesis by (simp add: ring_def map_upt_Suc del: upt_Suc)
qed

lemma ring_put:
  assumes "n < INPUT_BUF" and "length buf = INPUT_BUF"
  shows "ring (buf[(i + n) mod INPUT_BUF := c]) i (Suc n) = ring buf i n @ [c]"
proof -
  have "(i + n) mod INPUT_BUF \<noteq> (i + k) mod INPUT_BUF" if "k < n" for k
  proof
    assume "(i + n) mod INPUT_BUF = (i + k) mod INPUT_BUF"
    then have "INPUT_BUF dvd (i + n) - (i + k)" using that by (simp add: mod_eq_dvd_iff_nat)
    then show False using that assms(1) by (auto dest: dvd_imp_le)
  qed
  then have "ring (buf[(i + n) mod INPUT_BUF := c]) i n = ring buf i n" by (auto simp: ring_def)
  then show ?thesis using assms(2) by (simp add: ring_Suc)
qed

lemma w32_pos_eq:
  assumes "r < 4294967296" and "a \<le> 4294967295" and "b \<le> 4294967295"
  shows "w32 (r + a) = w32 (r + b) \<longleftrightarrow> a = b"
  using pipe_count_eq [OF assms(1,2)] pipe_count_eq [OF assms(1,3)] by metis

lemma w32_pred: "w32 (w32 (r + Suc n) + 4294967295) = w32 (r + n)"
proof -
  have "w32 (w32 (r + Suc n) + 4294967295) = w32 (r + Suc n + 4294967295)" by (rule mod_add_left_eq)
  also have "\<dots> = w32 (r + n + 4294967296)" by simp
  finally show ?thesis by simp
qed

text \<open>Output leaves the input alone.\<close>

lemma printed_input:
  assumes "printed cur rx s t"
  shows "con_view t P L = con_view s P L" "in_e t = in_e s" "in_r t = in_r s" "in_w t = in_w s" "in_buf t = in_buf s"
    "woken t = woken s" "uart t = uart s" "rx (hw t) = rx (hw s)"
  using assms by (auto simp: printed_def con_view_def)

lemma con_view_line: "con_view s P L \<Longrightarrow> in_e s = in_w s \<longleftrightarrow> L = []"
  using w32_pos_eq [of "in_r s" "length P + length L" "length P"] by (auto simp: con_view_def)

lemma con_view_room: "con_view s P L \<Longrightarrow> w32 (in_e s + 4294967296 - in_r s) = length P + length L"
  using pipe_count_eq [of "in_r s" "length P + length L"] by (simp add: con_view_def)

lemma con_view_full: "con_view s P L \<Longrightarrow> in_e s = w32 (in_r s + INPUT_BUF) \<longleftrightarrow> length P + length L = INPUT_BUF"
  using w32_pos_eq [of "in_r s" "length P + length L" INPUT_BUF] by (simp add: con_view_def)

lemma con_view_erase:
  assumes "con_view s P (L @ [c])"
  shows "con_view (s\<lparr>in_e := w32 (in_e s + 4294967295)\<rparr>) P L"
    and "in_buf s ! (w32 (in_e s + 4294967295) mod INPUT_BUF) = c"
proof -
  let ?n = "length P + length L"
  have e: "w32 (in_e s + 4294967295) = w32 (in_r s + ?n)"
    using assms w32_pred [of "in_r s" ?n] by (simp add: con_view_def)
  have r: "ring (in_buf s) (in_r s) ?n = P @ L" "in_buf s ! ((in_r s + ?n) mod INPUT_BUF) = c"
    using assms by (auto simp: con_view_def ring_Suc)
  show "con_view (s\<lparr>in_e := w32 (in_e s + 4294967295)\<rparr>) P L"
    using assms r e by (simp add: con_view_def)
  show "in_buf s ! (w32 (in_e s + 4294967295) mod INPUT_BUF) = c"
    using r(2) unfolding e mod_128_w32 .
qed

lemma con_view_store:
  assumes "con_view s P L" and "length P + length L < INPUT_BUF"
  shows "w32 (in_e s + 1) = w32 (in_r s + Suc (length P + length L))"
    and "ring ((in_buf s)[in_e s mod INPUT_BUF := c]) (in_r s) (Suc (length P + length L)) = P @ L @ [c]"
proof -
  let ?n = "length P + length L"
  have e: "in_e s mod INPUT_BUF = (in_r s + ?n) mod INPUT_BUF"
    using assms(1) mod_128_w32 unfolding con_view_def by metis
  show "w32 (in_e s + 1) = w32 (in_r s + Suc ?n)"
    using assms(1) mod_add_left_eq [of "in_r s + ?n" 4294967296 1] by (simp add: con_view_def Suc_eq_plus1 add.assoc)
  show "ring ((in_buf s)[in_e s mod INPUT_BUF := c]) (in_r s) (Suc ?n) = P @ L @ [c]"
    using ring_put [OF assms(2), of "in_buf s"] assms(1) unfolding e by (simp add: con_view_def)
qed

lemma con_view_type:
  assumes "con_view s P L" and "length P + length L < INPUT_BUF" and "c \<noteq> 10"
  shows "con_view (s\<lparr>in_buf := (in_buf s)[in_e s mod INPUT_BUF := c], in_e := w32 (in_e s + 1)\<rparr>) P (L @ [c])"
  using assms con_view_store [OF assms(1,2)] by (simp add: con_view_def)

lemma con_view_finish:
  assumes "con_view s P L" and "length P + length L < INPUT_BUF"
  shows "con_view (s\<lparr>in_buf := (in_buf s)[in_e s mod INPUT_BUF := c], in_e := w32 (in_e s + 1),
    in_w := w32 (in_e s + 1)\<rparr>) (P @ L @ [c]) []"
  using assms con_view_store [OF assms] by (simp add: con_view_def)

text \<open>The state after a character: \<open>P\<close> is finished, \<open>L\<close> is being typed, and readers were woken \<open>n\<close> more times.\<close>

definition con_after ::
    "('h \<Rightarrow> nat) \<Rightarrow> ('h \<Rightarrow> u8 list) \<Rightarrow> 'h console \<Rightarrow> u8 list \<times> u8 list \<Rightarrow> nat \<Rightarrow> 'h console \<Rightarrow> bool" where
  "con_after cur rx s PL n t \<longleftrightarrow> can_print cur t \<and> con_view t (fst PL) (snd PL) \<and>
     rx (hw t) = rx (hw s) \<and> uart t = uart s \<and> woken t = woken s + n"

lemma printed_after:
  assumes "printed cur rx s t" and "can_print cur s" and "con_view s P L"
  shows "con_after cur rx s (P, L) 0 t"
  using assms printed_input [OF assms(1)] printed_can_print [OF assms(2,1)] by (simp add: con_after_def)

lemma erase_after:
  assumes d: "cga_device io sel cur" "serial_device io rx" and s: "can_print cur s" and v: "con_view s P (L @ [c])"
  shows "\<exists>t. consputc io BACKSPACE (s\<lparr>in_e := w32 (in_e s + 4294967295)\<rparr>) = Ok t \<and> con_after cur rx s (P, L) 0 t"
proof -
  let ?s = "s\<lparr>in_e := w32 (in_e s + 4294967295)\<rparr>"
  have c: "can_print cur ?s" using s by (simp add: can_print_def)
  obtain t where "consputc io BACKSPACE ?s = Ok t" "printed cur rx ?s t" using consputc_law [OF d c] by blast
  moreover have "con_after cur rx ?s (P, L) 0 t"
    by (rule printed_after [OF calculation(2) c con_view_erase(1) [OF v]])
  ultimately show ?thesis by (auto simp: con_after_def)
qed

lemma kill_line_after:
  assumes d: "cga_device io sel cur" "serial_device io rx"
  shows "can_print cur s \<Longrightarrow> con_view s P L \<Longrightarrow> length L \<le> n \<Longrightarrow>
    \<exists>t. kill_line io n s = Ok t \<and> con_after cur rx s (P, []) 0 t"
proof (induction L arbitrary: s n rule: rev_induct)
  case Nil
  then show ?case using con_view_line [of s P "[]"] by (subst kill_line.simps) (simp add: con_after_def)
next
  case (snoc c L)
  obtain m where n: "n = Suc m" "length L \<le> m" using snoc.prems(3) by (cases n) auto
  obtain t where t: "consputc io BACKSPACE (s\<lparr>in_e := w32 (in_e s + 4294967295)\<rparr>) = Ok t" "con_after cur rx s (P, L) 0 t"
    using erase_after [OF d snoc.prems(1,2)] by blast
  obtain u where u: "kill_line io m t = Ok u" "con_after cur rx t (P, []) 0 u"
    using snoc.IH [of t m] t(2) n(2) by (auto simp: con_after_def)
  have g: "in_e s \<noteq> in_w s" "in_buf s ! (w32 (in_e s + 4294967295) mod INPUT_BUF) \<noteq> 10"
    using con_view_line [OF snoc.prems(2)] con_view_erase(2) [OF snoc.prems(2)] snoc.prems(2)
    by (auto simp: con_view_def)
  have "kill_line io n s = Ok u" using g t(1) u(1) n(1) by (subst kill_line.simps) simp
  then show ?case using t(2) u(2) by (auto simp: con_after_def)
qed

lemma byte_int_eq:
  "(uint c = 16) = (c = 16)" "(uint c = 21) = (c = 21)" "(uint c = 8) = (c = 8)"
  "(uint c = 127) = (c = 127)" "(uint c = 13) = (c = 13)" "(uint c = 10) = (c = 10)"
  "(uint c = 4) = (c = 4)" "(uint c = 0) = (c = 0)" "of_int (uint c) = c" for c :: u8
  by (simp_all add: word_uint_eq_iff)

lemma type_after:
  fixes c :: u8
  assumes d: "cga_device io sel cur" "serial_device io rx" and s: "can_print cur s" and v: "con_view s P L"
    and room: "length P + length L < INPUT_BUF"
  defines "s1 \<equiv> s\<lparr>in_buf := (in_buf s)[in_e s mod INPUT_BUF := c], in_e := w32 (in_e s + 1)\<rparr>"
    and "ends \<equiv> c = 10 \<or> c = 4 \<or> length P + length L + 1 = INPUT_BUF"
  shows "\<exists>t. andthen (consputc io (int (unat c)) s1) (\<lambda>s.
        if int (unat c) = 10 \<or> int (unat c) = 4 \<or> in_e s = w32 (in_r s + INPUT_BUF)
        then Ok (s\<lparr>in_w := in_e s, woken := woken s + 1\<rparr>) else Ok s) = Ok t \<and>
      con_after cur rx s (if ends then (P @ L @ [c], []) else (P, L @ [c])) (if ends then 1 else 0) t"
proof -
  have c1: "can_print cur s1" using s by (simp add: can_print_def s1_def)
  obtain u where u: "consputc io (int (unat c)) s1 = Ok u" "printed cur rx s1 u"
    using consputc_law [OF d c1] by blast
  have same: "in_e u = in_e s1" "in_r u = in_r s1" "in_buf u = in_buf s1" "uart u = uart s1" "rx (hw u) = rx (hw s1)"
    "woken u = woken s1" "can_print cur u"
    using printed_input [OF u(2)] printed_can_print [OF c1 u(2)] by simp_all
  have "in_e s1 = w32 (in_r s + Suc (length P + length L))"
    using con_view_store(1) [OF v room] by (simp add: s1_def)
  then have full: "in_e u = w32 (in_r u + INPUT_BUF) \<longleftrightarrow> length P + length L + 1 = INPUT_BUF"
    using w32_pos_eq [of "in_r s" "Suc (length P + length L)" INPUT_BUF] v room same(1,2)
    by (simp add: con_view_def s1_def Suc_eq_plus1)
  show ?thesis
  proof (cases ends)
    case True
    have "con_view (u\<lparr>in_w := in_e u, woken := woken u + 1\<rparr>) (P @ L @ [c]) []"
      using con_view_finish [OF v room, of c] same(1-3) by (simp add: con_view_def s1_def)
    then show ?thesis
      using True u(1) same full by (simp add: byte_int_eq ends_def con_after_def s1_def can_print_def)
  next
    case False
    then have "con_view u P (L @ [c])"
      using con_view_type [OF v room, of c] printed_input(1) [OF u(2)] by (simp add: s1_def ends_def)
    then show ?thesis
      using False u(1) same full by (simp add: byte_int_eq ends_def con_after_def s1_def)
  qed
qed

lemma console_char_after:
  assumes d: "cga_device io sel cur" "serial_device io rx" and s: "can_print cur s" and v: "con_view s P L"
  shows "\<exists>t. console_char io k (int (unat c)) s = Ok t \<and>
    con_after cur rx s (edit c (P, L)) (if fst (edit c (P, L)) = P then 0 else 1) t"
proof -
  consider "c = 16" | "c = 21" | "c = 8 \<or> c = 127" | "c \<notin> {16, 21, 8, 127}" "c = 0 \<or> length P + length L = INPUT_BUF"
    | "c \<notin> {16, 21, 8, 127}" "c \<noteq> 0" "length P + length L < INPUT_BUF"
    using v by (fastforce simp: con_view_def)
  then show ?thesis
  proof cases
    case 1
    obtain t where "procdump io k s = Ok t" "printed cur rx s t" using procdump_law [OF d s] by blast
    then show ?thesis using 1 printed_after [OF _ s v] by (simp add: console_char_def byte_int_eq edit_def)
  next
    case 2
    have "length L \<le> INPUT_BUF" using v by (simp add: con_view_def)
    then show ?thesis
      using 2 kill_line_after [OF d s v] by (simp add: console_char_def byte_int_eq edit_def)
  next
    case 3
    show ?thesis
    proof (cases L rule: rev_cases)
      case Nil
      then show ?thesis
        using 3 con_view_line [OF v] s v by (auto simp: console_char_def byte_int_eq edit_def con_after_def)
    next
      case (snoc M x)
      then show ?thesis
        using 3 con_view_line [OF v] erase_after [OF d s, of P M x] v
        by (auto simp: console_char_def byte_int_eq edit_def)
    qed
  next
    case 4
    then show ?thesis
      using con_view_room [OF v] s v by (auto simp: console_char_def byte_int_eq edit_def con_after_def)
  next
    case 5
    let ?c = "if c = 13 then 10 else c"
    have "(if int (unat c) = 13 then 10 else int (unat c)) = int (unat ?c)" by (simp add: byte_int_eq)
    then have "console_char io k (int (unat c)) s = andthen (consputc io (int (unat ?c))
          (s\<lparr>in_buf := (in_buf s)[in_e s mod INPUT_BUF := ?c], in_e := w32 (in_e s + 1)\<rparr>)) (\<lambda>s.
        if int (unat ?c) = 10 \<or> int (unat ?c) = 4 \<or> in_e s = w32 (in_r s + INPUT_BUF)
        then Ok (s\<lparr>in_w := in_e s, woken := woken s + 1\<rparr>) else Ok s)"
      using 5 con_view_room [OF v] by (simp add: console_char_def byte_int_eq Let_def)
    then show ?thesis
      using type_after [OF d s v 5(3), of ?c] 5 by (auto simp: edit_def Let_def split: if_splits)
  qed
qed

section \<open>Interrupts of the serial line\<close>

lemma uartgetc_law:
  assumes "cga_device io sel cur" "serial_device io rx" and "uart s" and "can_print cur s" and "con_view s P L"
  shows "rx (hw s) = [] \<Longrightarrow> fst (uartgetc io s) = -1 \<and> con_after cur rx s (P, L) 0 (snd (uartgetc io s))"
    and "rx (hw s) = c # cs \<Longrightarrow> fst (uartgetc io s) = int (unat c) \<and> can_print cur (snd (uartgetc io s)) \<and>
      con_view (snd (uartgetc io s)) P L \<and> uart (snd (uartgetc io s)) \<and> rx (hw (snd (uartgetc io s))) = cs"
  using assms
  by (auto simp: uartgetc_def con_inb_def con_after_def can_print_def con_view_def cga_device_def serial_device_def split_beta)

lemma consoleintr_serial:
  assumes d: "cga_device io sel cur" "serial_device io rx"
  shows "uart s \<Longrightarrow> can_print cur s \<Longrightarrow> con_view s P L \<Longrightarrow> rx (hw s) = cs \<Longrightarrow> length cs < fuel \<Longrightarrow>
    \<exists>t. consoleintr io k (uartgetc io) fuel s = Ok t \<and> can_print cur t \<and> rx (hw t) = [] \<and>
      con_view t (fst (fold edit cs (P, L))) (snd (fold edit cs (P, L)))"
proof (induction cs arbitrary: s P L fuel)
  case Nil
  then obtain f where "fuel = Suc f" by (cases fuel) auto
  then show ?case using uartgetc_law(1) [OF d Nil.prems(1-4)] Nil.prems(4) by (simp add: split_beta con_after_def)
next
  case (Cons c cs)
  obtain f where f: "fuel = Suc f" "length cs < f" using Cons.prems(5) by (cases fuel) auto
  let ?s = "snd (uartgetc io s)"
  have g: "fst (uartgetc io s) = int (unat c)" "can_print cur ?s" "con_view ?s P L" "uart ?s" "rx (hw ?s) = cs"
    using uartgetc_law(2) [OF d Cons.prems(1-4)] by blast+
  obtain P' L' where e: "edit c (P, L) = (P', L')" by fastforce
  obtain t n where t: "console_char io k (int (unat c)) ?s = Ok t" "con_after cur rx ?s (P', L') n t"
    using console_char_after [OF d g(2,3)] e by metis
  have "\<exists>u. consoleintr io k (uartgetc io) f t = Ok u \<and> can_print cur u \<and> rx (hw u) = [] \<and>
      con_view u (fst (fold edit cs (P', L'))) (snd (fold edit cs (P', L')))"
    using t(2) g(4,5) by (intro Cons.IH [OF _ _ _ _ f(2)]) (simp_all add: con_after_def)
  then show ?case using f(1) g(1) t(1) e by (simp add: split_beta)
qed

text \<open>
  C35: An interrupt of the serial line takes all the bytes that have arrived and does with them what a line
  editor does: characters are appended to the line being typed, backspace removes the last one, control-U the whole
  line, and a newline, an end-of-file character or a full buffer add the line to the finished input. It returns,
  with the cursor on the screen, whatever the ring buffer held and wherever its counters stood.
\<close>

theorem uartintr_edits:
  assumes "cga_device io sel cur" and "serial_device io rx" and "uart s" and "can_print cur s" and "con_view s P L"
    and "length (rx (hw s)) < fuel"
  shows "\<exists>t. uartintr io k fuel s = Ok t \<and> can_print cur t \<and> rx (hw t) = [] \<and>
    con_view t (fst (fold edit (rx (hw s)) (P, L))) (snd (fold edit (rx (hw s)) (P, L)))"
  unfolding uartintr_def by (rule consoleintr_serial [OF assms(1-5) refl assms(6)])

text \<open>A machine with a display and a serial line, on which a user has typed \<^verbatim>\<open>hi\<close>, backspace, \<^verbatim>\<open>a\<close> and return.\<close>

type_synonym pc_hw = "u8 \<times> nat \<times> u8 list"

definition pc_ports :: "pc_hw ports" where
  "pc_ports = \<lparr>
     inb = (\<lambda>p (sel, cur, rx).
       if p = CRTPORT + 1 then (if sel = 14 then of_nat (cur div 256) else of_nat cur, (sel, cur, rx))
       else if p = COM1 + 5 then (if rx = [] then 0x20 else 0x21, (sel, cur, rx))
       else if p = COM1 then (if rx = [] then 0 else hd rx, (sel, cur, tl rx)) else (0, (sel, cur, rx))),
     outb = (\<lambda>p v (sel, cur, rx).
       if p = CRTPORT then (v, cur, rx)
       else if p = CRTPORT + 1 then (sel, if sel = 14 then unat v * 256 + cur mod 256 else cur div 256 * 256 + unat v, rx)
       else (sel, cur, rx)),
     insl = (\<lambda>p n h. (replicate (4 * n) 0, h)), outsl = (\<lambda>p d h. h), mmio_load = (\<lambda>a h. (0, h)), mmio_store = (\<lambda>a v h. h)\<rparr>"

definition pc_console :: "pc_hw console" where
  "pc_console = \<lparr>panicked = False, locking = True, in_buf = replicate INPUT_BUF 0, in_r = 4294967295, in_w = 4294967295,
     in_e = 4294967295, crt = (\<lambda>i. 0), uart = True, kbd_shift = 0, irqmask = 0, ismp = False,
     hw = (0, 1919, [104, 105, 8, 97, 13]), woken = 0\<rparr>"

lemma pc_devices: "cga_device pc_ports fst (fst \<circ> snd)" "serial_device pc_ports (snd \<circ> snd)"
  by (simp_all add: cga_device_def serial_device_def pc_ports_def split: prod.splits)

theorem uartintr_edits_witness:
  "\<forall>k :: kproc. \<exists>t. uartintr pc_ports k 6 pc_console = Ok t \<and> con_view t [104, 97, 10] []"
proof -
  have "can_print (fst \<circ> snd) pc_console" "con_view pc_console [] []" "uart pc_console"
    "(snd \<circ> snd) (hw pc_console) = [104, 105, 8, 97, 13]"
    by (simp_all add: can_print_def con_view_def pc_console_def ring_def)
  moreover have "fold edit [104, 105, 8, 97, 13] ([], []) = ([104, 97, 10], [])"
    by (simp add: edit_def)
  ultimately show ?thesis using uartintr_edits [OF pc_devices, of pc_console "[]" "[]" 6] by fastforce
qed

section \<open>Readers\<close>

lemma con_view_empty: "con_view s P L \<Longrightarrow> in_r s = in_w s \<longleftrightarrow> P = []"
  using w32_pos_eq [of "in_r s" 0 "length P"] by (auto simp: con_view_def)

lemma con_view_take:
  assumes "con_view s (c # P) L"
  shows "in_buf s ! (in_r s mod INPUT_BUF) = c" and "con_view (s\<lparr>in_r := w32 (in_r s + 1)\<rparr>) P L"
proof -
  have r: "ring (in_buf s) (in_r s) (Suc (length P + length L)) = c # P @ L" using assms by (simp add: con_view_def)
  have w: "w32 (in_r s + Suc n) = w32 (w32 (in_r s + 1) + n)" for n
  proof -
    have "w32 (w32 (in_r s + 1) + n) = w32 (in_r s + 1 + n)" by (rule mod_add_left_eq)
    then show ?thesis by (simp add: One_nat_def)
  qed
  show "in_buf s ! (in_r s mod INPUT_BUF) = c" using r by (simp add: ring_first)
  show "con_view (s\<lparr>in_r := w32 (in_r s + 1)\<rparr>) P L"
    using assms r w [of "length P"] w [of "length P + length L"] by (simp add: con_view_def ring_first)
qed

text \<open>A reader copies characters that do not end a line one after the other.\<close>

lemma consoleread_plain:
  assumes "con_view s (line @ rest) L" and "\<forall>c \<in> set line. c \<noteq> 4 \<and> c \<noteq> 10" and "length line \<le> n"
  shows "\<exists>t. consoleread_from killed target n dst s = consoleread_from killed target (n - length line) (dst @ line) t \<and>
    con_view t rest L"
  using assms
proof (induction line arbitrary: n dst s)
  case Nil
  then show ?case by auto
next
  case (Cons c line)
  let ?s = "s\<lparr>in_r := w32 (in_r s + 1)\<rparr>"
  have v: "con_view s (c # line @ rest) L" using Cons.prems(1) by simp
  have "consoleread_from killed target n dst s = consoleread_from killed target (n - 1) (dst @ [c]) ?s"
    using con_view_take(1) [OF v] con_view_empty [OF v] Cons.prems(2,3)
    by (subst consoleread_from.simps) (auto simp: Let_def)
  moreover have "\<exists>t. consoleread_from killed target (n - 1) (dst @ [c]) ?s =
      consoleread_from killed target (n - 1 - length line) ((dst @ [c]) @ line) t \<and> con_view t rest L"
    using Cons.prems(2,3) by (intro Cons.IH con_view_take(2) [OF v]) auto
  ultimately show ?case by (simp add: One_nat_def)
qed

lemma consoleread_from_0: "consoleread_from killed target 0 dst s = (ReadDone dst, s)"
  by (subst consoleread_from.simps) simp

text \<open>What a reader that asked for \<open>n\<close> bytes gets of \<open>line\<close> and what follows it, and what is left.\<close>

definition read_line :: "bool \<Rightarrow> nat \<Rightarrow> u8 list \<Rightarrow> u8 list \<Rightarrow> con_read \<times> u8 list" where
  "read_line killed n line rest =
     (if n \<le> length line then (ReadDone (take n line), drop n line @ rest)
      else case rest of
        [] \<Rightarrow> (if killed then ReadKilled else ReadSleeps (n - length line) line, [])
      | c # later \<Rightarrow> if c = 10 then (ReadDone (line @ [10]), later)
          else (ReadDone line, if line = [] then later else rest))"

lemma consoleread_end:
  assumes "con_view s rest L" and "rest = [] \<or> hd rest \<in> {4, 10}" and "0 < n" and "n \<le> target"
    and "dst = [] \<longleftrightarrow> n = target"
  shows "\<exists>t. consoleread_from killed target n dst s =
      (case rest of [] \<Rightarrow> if killed then ReadKilled else ReadSleeps n dst
        | c # later \<Rightarrow> ReadDone (if c = 10 then dst @ [10] else dst), t) \<and>
    con_view t (case rest of [] \<Rightarrow> [] | c # later \<Rightarrow> if c = 10 \<or> dst = [] then later else rest) L"
proof (cases rest)
  case Nil
  then show ?thesis
    using assms(1,3) con_view_empty [OF assms(1)] by (subst consoleread_from.simps) simp
next
  case (Cons c later)
  have v: "con_view s (c # later) L" using assms(1) Cons by simp
  have "in_r s < 4294967296" using v by (simp add: con_view_def)
  then have undo: "s\<lparr>in_r := w32 (w32 (in_r s + 1) + 4294967295)\<rparr> = s"
    using w32_pred [of "in_r s" 0] by (simp add: One_nat_def)
  show ?thesis
    using Cons assms(2-5) v undo con_view_take [OF v] con_view_empty [OF v]
    by (subst consoleread_from.simps) (auto simp: Let_def)
qed

text \<open>
  C36: A reader of the console gets one line. Of the finished input it receives the characters up to the end of
  the line: with the newline, if one ends it; without the end-of-file character, which stays in the buffer unless it
  comes first, so that the next reader gets no bytes. A reader that asked for fewer bytes gets those and the rest
  stays; when the input ends before the line does, it sleeps with what it has, or is told that it was killed.
  The line being typed is untouched.
\<close>

theorem consoleread_line:
  assumes "con_view s (line @ rest) L" and "\<forall>c \<in> set line. c \<noteq> 4 \<and> c \<noteq> 10" and "rest = [] \<or> hd rest \<in> {4, 10}"
  shows "\<exists>t. consoleread killed (int n) s = (fst (read_line killed n line rest), t) \<and>
    con_view t (snd (read_line killed n line rest)) L"
proof (cases "n \<le> length line")
  case True
  have v: "con_view s (take n line @ drop n line @ rest) L" using assms(1) by (simp flip: append_assoc)
  have "\<forall>c \<in> set (take n line). c \<noteq> 4 \<and> c \<noteq> 10" using assms(2) by (meson in_set_takeD)
  then obtain t where "consoleread_from killed n n [] s = consoleread_from killed n 0 (take n line) t"
      "con_view t (drop n line @ rest) L"
    using consoleread_plain [OF v, of n killed n "[]"] True by (auto simp: min.absorb2)
  then show ?thesis using True by (simp add: consoleread_def read_line_def consoleread_from_0)
next
  case False
  obtain t where t: "consoleread_from killed n n [] s = consoleread_from killed n (n - length line) line t" "con_view t rest L"
    using consoleread_plain [OF assms(1,2), of n killed n "[]"] False by auto
  have "line = [] \<longleftrightarrow> n - length line = n" using False by (cases line) auto
  from consoleread_end [OF t(2) assms(3) _ _ this, of killed] show ?thesis
    using False t(1) by (cases rest) (auto simp: consoleread_def read_line_def)
qed

theorem consoleread_line_witness:
  "\<exists>t. consoleread False 10 (pc_console\<lparr>in_buf := [104, 105, 4] @ replicate 125 0, in_r := 0, in_w := 3, in_e := 3\<rparr>) =
      (ReadDone [104, 105], t) \<and> con_view t [4] []"
proof -
  let ?s = "pc_console\<lparr>in_buf := [104, 105, 4] @ replicate 125 0, in_r := 0, in_w := 3, in_e := 3\<rparr>"
  have "con_view ?s ([104, 105] @ [4]) []" by (simp add: con_view_def pc_console_def ring_def upt_rec)
  then show ?thesis using consoleread_line [of ?s "[104, 105]" "[4]" "[]" False 10] by (simp add: read_line_def)
qed

end
