(* ===== verification/Xv6_Ata.thy ===== *)
theory Xv6_Ata
  imports Xv6_Ide Xv6_Console
begin

text \<open>
  The driver of IDE disks (ide.c): requests wait in a list that is linked through the buffers, the first one is
  the one the disk works on, and the interrupt handler completes it and starts the next. The registers of the disk
  are ports of the hardware. A pointer to a buffer is a number; \<^verbatim>\<open>iderw\<close> is cut where it sleeps.
\<close>

unbundle bit_operations_syntax

abbreviation IDE_BSY :: u8 where "IDE_BSY \<equiv> 0x80"
abbreviation IDE_DRDY :: u8 where "IDE_DRDY \<equiv> 0x40"
abbreviation IDE_DF :: u8 where "IDE_DF \<equiv> 0x20"
abbreviation IDE_ERR :: u8 where "IDE_ERR \<equiv> 0x01"
abbreviation IDE_CMD_READ :: u8 where "IDE_CMD_READ \<equiv> 0x20"
abbreviation IDE_CMD_WRITE :: u8 where "IDE_CMD_WRITE \<equiv> 0x30"

text \<open>The machine, the statics of ide.c, the buffers with their \<^verbatim>\<open>qnext\<close> links, and the calls of \<^verbatim>\<open>wakeup\<close> made.\<close>

record 'h ata =
  machine :: "'h console"
  idequeue :: "nat option"
  havedisk1 :: bool
  ibuf :: "nat \<Rightarrow> buf"
  qnext :: "nat \<Rightarrow> nat option"
  buf_woken :: "nat list"

definition ata_inb :: "'h ports \<Rightarrow> nat \<Rightarrow> 'h ata \<Rightarrow> u8 \<times> 'h ata" where
  "ata_inb io p s = (let (v, m) = con_inb io p (machine s) in (v, s\<lparr>machine := m\<rparr>))"

definition ata_outb :: "'h ports \<Rightarrow> nat \<Rightarrow> u8 \<Rightarrow> 'h ata \<Rightarrow> 'h ata" where
  "ata_outb io p v s = s\<lparr>machine := con_outb io p v (machine s)\<rparr>"

definition ata_insl :: "'h ports \<Rightarrow> nat \<Rightarrow> nat \<Rightarrow> 'h ata \<Rightarrow> u8 list \<times> 'h ata" where
  "ata_insl io p n s = (let (d, h) = insl io p n (hw (machine s)) in (d, s\<lparr>machine := (machine s)\<lparr>hw := h\<rparr>\<rparr>))"

definition ata_outsl :: "'h ports \<Rightarrow> nat \<Rightarrow> u8 list \<Rightarrow> 'h ata \<Rightarrow> 'h ata" where
  "ata_outsl io p d s = s\<lparr>machine := (machine s)\<lparr>hw := outsl io p d (hw (machine s))\<rparr>\<rparr>"

text \<open>\<open>fuel\<close> bounds the number of polls until the disk is ready.\<close>

primrec idewait :: "'h ports \<Rightarrow> nat \<Rightarrow> bool \<Rightarrow> 'h ata \<Rightarrow> (int \<times> 'h ata) outcome" where
  "idewait io 0 checkerr s = NoFuel"
| "idewait io (Suc fuel) checkerr s =
     (let (r, s) = ata_inb io 0x1f7 s in
      if r AND (IDE_BSY OR IDE_DRDY) \<noteq> IDE_DRDY then idewait io fuel checkerr s
      else if checkerr \<and> r AND (IDE_DF OR IDE_ERR) \<noteq> 0 then Ok (-1, s) else Ok (0, s))"

fun ide_probe :: "'h ports \<Rightarrow> nat \<Rightarrow> 'h ata \<Rightarrow> 'h ata" where
  "ide_probe io 0 s = s"
| "ide_probe io (Suc n) s =
     (let (r, s) = ata_inb io 0x1f7 s in if r \<noteq> 0 then s\<lparr>havedisk1 := True\<rparr> else ide_probe io n s)"

definition ata_ideinit :: "'h ports \<Rightarrow> nat \<Rightarrow> nat \<Rightarrow> 'h ata \<Rightarrow> 'h ata outcome" where
  "ata_ideinit io fuel ncpu s =
     (let s = s\<lparr>machine := ioapicenable io 14 (ncpu - 1) (picenable io 14 (machine s))\<rparr> in
      andthen (idewait io fuel False s) (\<lambda>(r, s).
        let s = ata_outb io 0x1f6 (0xe0 OR push_bit 4 1) s; s = ide_probe io 1000 s
        in Ok (ata_outb io 0x1f6 (0xe0 OR push_bit 4 0) s)))"

text \<open>The six register writes that tell the disk which sector is meant.\<close>

definition ide_select :: "'h ports \<Rightarrow> buf \<Rightarrow> 'h ata \<Rightarrow> 'h ata" where
  "ide_select io b s =
     (let s = ata_outb io 0x3f6 0 s;
          s = ata_outb io 0x1f2 1 s;
          s = ata_outb io 0x1f3 (of_nat (b_sector b mod 256)) s;
          s = ata_outb io 0x1f4 (of_nat (b_sector b div 2 ^ 8 mod 256)) s;
          s = ata_outb io 0x1f5 (of_nat (b_sector b div 2 ^ 16 mod 256)) s
      in ata_outb io 0x1f6 (0xe0 OR push_bit 4 (of_nat (b_dev b mod 2)) OR of_nat (b_sector b div 2 ^ 24 mod 16)) s)"

definition idestart :: "'h ports \<Rightarrow> nat \<Rightarrow> nat option \<Rightarrow> 'h ata \<Rightarrow> 'h ata outcome" where
  "idestart io fuel p s =
     (case p of None \<Rightarrow> Panic ''idestart''
      | Some b \<Rightarrow> andthen (idewait io fuel False s) (\<lambda>(r, s).
          let s = ide_select io (ibuf s b) s in
          if b_dirty (ibuf s b)
          then Ok (ata_outsl io 0x1f0 (b_data (ibuf s b)) (ata_outb io 0x1f7 IDE_CMD_WRITE s))
          else Ok (ata_outb io 0x1f7 IDE_CMD_READ s)))"

definition ideintr :: "'h ports \<Rightarrow> nat \<Rightarrow> 'h ata \<Rightarrow> 'h ata outcome" where
  "ideintr io fuel s =
     (case idequeue s of None \<Rightarrow> Ok s
      | Some b \<Rightarrow>
        let s = s\<lparr>idequeue := qnext s b\<rparr> in
        andthen (if b_dirty (ibuf s b) then Ok s
            else andthen (idewait io fuel True s) (\<lambda>(r, s).
              if 0 \<le> r then let (d, s) = ata_insl io 0x1f0 (512 div 4) s in Ok (s\<lparr>ibuf := (ibuf s)(b := (ibuf s b)\<lparr>b_data := d\<rparr>)\<rparr>)
              else Ok s))
          (\<lambda>s. let s = s\<lparr>ibuf := (ibuf s)(b := (ibuf s b)\<lparr>b_valid := True, b_dirty := False\<rparr>), buf_woken := buf_woken s @ [b]\<rparr> in
            if idequeue s \<noteq> None then idestart io fuel (idequeue s) s else Ok s))"

text \<open>
  The pointer that the loop over the queue stops at: \<^verbatim>\<open>&idequeue\<close> is \<open>None\<close>, the link of buffer \<open>b\<close> is \<open>Some b\<close>.
  \<open>n\<close> bounds the number of links followed.
\<close>

fun ide_last :: "nat \<Rightarrow> nat option \<Rightarrow> 'h ata \<Rightarrow> nat option outcome" where
  "ide_last n pp s =
     (case (case pp of None \<Rightarrow> idequeue s | Some b \<Rightarrow> qnext s b) of None \<Rightarrow> Ok pp
      | Some b \<Rightarrow> (case n of 0 \<Rightarrow> NoFuel | Suc n \<Rightarrow> ide_last n (Some b) s))"

declare ide_last.simps [simp del]

definition iderw_submit :: "'h ports \<Rightarrow> nat \<Rightarrow> nat \<Rightarrow> nat \<Rightarrow> 'h ata \<Rightarrow> 'h ata outcome" where
  "iderw_submit io fuel n b s =
     (if \<not> b_busy (ibuf s b) then Panic ''iderw: buf not busy''
      else if b_valid (ibuf s b) \<and> \<not> b_dirty (ibuf s b) then Panic ''iderw: nothing to do''
      else if b_dev (ibuf s b) \<noteq> 0 \<and> \<not> havedisk1 s then Panic ''iderw: ide disk 1 not present''
      else let s = s\<lparr>qnext := (qnext s)(b := None)\<rparr> in
        andthen (ide_last n None s) (\<lambda>pp.
          let s = (case pp of None \<Rightarrow> s\<lparr>idequeue := Some b\<rparr> | Some c \<Rightarrow> s\<lparr>qnext := (qnext s)(c := Some b)\<rparr>) in
          if idequeue s = Some b then idestart io fuel (Some b) s else Ok s))"

text \<open>The condition under which \<^verbatim>\<open>iderw\<close> stops sleeping and returns.\<close>

definition iderw_done :: "nat \<Rightarrow> 'h ata \<Rightarrow> bool" where
  "iderw_done b s \<longleftrightarrow> b_valid (ibuf s b) \<and> \<not> b_dirty (ibuf s b)"

end
