(* ===== verification/Xv6_Ata_Props.thy ===== *)
theory Xv6_Ata_Props
  imports Xv6_Ata
begin

text \<open>
  The driver of IDE disks serves its requests in the order of their arrival, and each of them changes its buffer
  and the disk as \<^verbatim>\<open>iderw\<close> of the memory disk does, on which the file system is built.
\<close>

section \<open>The disk\<close>

text \<open>
  A pair of disks as the manual describes them: \<open>reg\<close> are the registers last written, \<open>sectors\<close> the contents of the two
  drives, \<open>busy\<close> the number of polls until the disk is ready. A write command takes the next block that is sent, a read
  command delivers the sector that the registers select.
\<close>

definition ide_drive :: "('h \<Rightarrow> nat \<Rightarrow> u8) \<Rightarrow> 'h \<Rightarrow> nat" where
  "ide_drive reg h = unat (reg h 0x1f6) div 16 mod 2"

definition ide_sector :: "('h \<Rightarrow> nat \<Rightarrow> u8) \<Rightarrow> 'h \<Rightarrow> nat" where
  "ide_sector reg h = unat (reg h 0x1f3) + 2 ^ 8 * unat (reg h 0x1f4) + 2 ^ 16 * unat (reg h 0x1f5) +
     2 ^ 24 * (unat (reg h 0x1f6) mod 16)"

type_synonym drives = "nat \<Rightarrow> nat \<Rightarrow> block"

definition drive_write :: "drives \<Rightarrow> nat \<Rightarrow> nat \<Rightarrow> block \<Rightarrow> drives" where
  "drive_write D dv sec d = D(dv := (D dv)(sec := d))"

definition ata_device ::
    "'h ports \<Rightarrow> nat \<Rightarrow> ('h \<Rightarrow> nat \<Rightarrow> u8) \<Rightarrow> ('h \<Rightarrow> drives) \<Rightarrow> ('h \<Rightarrow> nat) \<Rightarrow> bool" where
  "ata_device io fuel reg sectors busy \<longleftrightarrow>
     (\<forall>h p v. p \<in> {0x3f6, 0x1f2, 0x1f3, 0x1f4, 0x1f5, 0x1f6, 0x1f7} \<longrightarrow>
        reg (outb io p v h) = (reg h)(p := v) \<and> sectors (outb io p v h) = sectors h) \<and>
     (\<forall>h. reg (snd (inb io 0x1f7 h)) = reg h \<and> sectors (snd (inb io 0x1f7 h)) = sectors h) \<and>
     (\<forall>h. busy h = 0 \<longrightarrow> fst (inb io 0x1f7 h) AND 0xC0 = 0x40 \<and> fst (inb io 0x1f7 h) AND 0x21 = 0) \<and>
     (\<forall>h. busy h \<noteq> 0 \<longrightarrow> fst (inb io 0x1f7 h) AND 0xC0 \<noteq> 0x40 \<and> busy (snd (inb io 0x1f7 h)) = busy h - 1) \<and>
     (\<forall>h. busy h < fuel) \<and>
     (\<forall>h d. reg h 0x1f7 = IDE_CMD_WRITE \<longrightarrow>
        sectors (outsl io 0x1f0 d h) = drive_write (sectors h) (ide_drive reg h) (ide_sector reg h) d \<and>
        reg (outsl io 0x1f0 d h) = reg h) \<and>
     (\<forall>h. reg h 0x1f7 = IDE_CMD_READ \<longrightarrow>
        fst (insl io 0x1f0 128 h) = sectors h (ide_drive reg h) (ide_sector reg h) \<and>
        sectors (snd (insl io 0x1f0 128 h)) = sectors h \<and> reg (snd (insl io 0x1f0 128 h)) = reg h)"

section \<open>Waiting and starting\<close>

abbreviation at_hw :: "'h ata \<Rightarrow> 'h \<Rightarrow> 'h ata" where
  "at_hw s h \<equiv> s\<lparr>machine := (machine s)\<lparr>hw := h\<rparr>\<rparr>"

lemma ata_ready:
  assumes "ata_device io fuel reg sectors busy" and "busy (hw (machine s)) < n"
  shows "\<exists>h. idewait io n checkerr s = Ok (0, at_hw s h) \<and> reg h = reg (hw (machine s)) \<and> sectors h = sectors (hw (machine s))"
  using assms(2)
proof (induction n arbitrary: s)
  case (Suc n)
  let ?h = "hw (machine s)"
  let ?g = "snd (inb io 0x1f7 ?h)"
  have g: "reg ?g = reg ?h" "sectors ?g = sectors ?h" using assms(1) by (simp_all add: ata_device_def)
  have i: "ata_inb io 0x1f7 s = (fst (inb io 0x1f7 ?h), at_hw s ?g)"
    by (simp add: ata_inb_def con_inb_def split_beta)
  have m: "IDE_BSY OR IDE_DRDY = 0xC0" "IDE_DF OR IDE_ERR = 0x21" by simp_all
  show ?case
  proof (cases "busy ?h = 0")
    case True
    then have "fst (inb io 0x1f7 ?h) AND 0xC0 = 0x40" "fst (inb io 0x1f7 ?h) AND 0x21 = 0"
      using assms(1) by (simp_all add: ata_device_def)
    then show ?thesis using g i by (auto simp: m)
  next
    case False
    then have "fst (inb io 0x1f7 ?h) AND 0xC0 \<noteq> 0x40" "busy ?g = busy ?h - 1"
      using assms(1) by (simp_all add: ata_device_def)
    then show ?thesis using Suc.IH [of "at_hw s ?g"] Suc.prems False g i by (simp add: m)
  qed
qed simp

lemma idewait_law:
  assumes "ata_device io fuel reg sectors busy"
  shows "\<exists>h. idewait io fuel checkerr s = Ok (0, at_hw s h) \<and> reg h = reg (hw (machine s)) \<and> sectors h = sectors (hw (machine s))"
  using ata_ready [OF assms] assms by (simp add: ata_device_def)

lemma select_byte:
  assumes "d < 2" and "n < 16"
  shows "unat (0xe0 OR push_bit 4 (of_nat d) OR of_nat n :: u8) = 0xe0 + 16 * d + n"
proof -
  have "d \<in> set [0..<2]" "n \<in> set [0..<16]" using assms by simp_all
  then show ?thesis by (simp add: upt_rec) (auto simp: One_nat_def)
qed

text \<open>The request for \<open>v\<close> has been given to the disk, whose contents were \<open>D\<close>.\<close>

definition started :: "('h \<Rightarrow> nat \<Rightarrow> u8) \<Rightarrow> ('h \<Rightarrow> drives) \<Rightarrow> buf \<Rightarrow> drives \<Rightarrow> 'h \<Rightarrow> bool" where
  "started reg sectors v D h \<longleftrightarrow> ide_drive reg h = b_dev v mod 2 \<and> ide_sector reg h = b_sector v \<and>
     (if b_dirty v then sectors h = drive_write D (b_dev v mod 2) (b_sector v) (b_data v)
      else reg h 0x1f7 = IDE_CMD_READ \<and> sectors h = D)"

lemma sector_bytes:
  fixes n :: nat
  assumes "n < 268435456"
  shows "n mod 256 + 2 ^ 8 * (n div 2 ^ 8 mod 256) + 2 ^ 16 * (n div 2 ^ 16 mod 256) + 2 ^ 24 * (n div 2 ^ 24 mod 16) = n"
proof -
  have top: "n div 16777216 mod 16 = n div 16777216" using assms by (simp add: div_less_iff_less_mult)
  have "256 * (n div 256) + n mod 256 = n" by simp
  moreover have "256 * (n div 65536) + n div 256 mod 256 = n div 256"
    using mult_div_mod_eq [of 256 "n div 256"] by (simp add: div_mult2_eq [symmetric])
  moreover have "256 * (n div 16777216) + n div 65536 mod 256 = n div 65536"
    using mult_div_mod_eq [of 256 "n div 65536"] by (simp add: div_mult2_eq [symmetric])
  ultimately have "n mod 256 + 256 * (n div 256 mod 256) + 65536 * (n div 65536 mod 256) + 16777216 * (n div 16777216) = n"
    by linarith
  then show ?thesis using top by simp
qed

lemma ide_select_law:
  assumes d: "ata_device io fuel reg sectors busy" and "b_sector b < 268435456"
  shows "\<exists>h. ide_select io b s = at_hw s h \<and> sectors h = sectors (hw (machine s)) \<and>
    ide_drive reg h = b_dev b mod 2 \<and> ide_sector reg h = b_sector b"
proof -
  let ?n = "b_sector b"
  define h where "h = hw (machine (ide_select io b s))"
  have out: "ata_outb io p v s = at_hw s (outb io p v (hw (machine s)))" for p v s
    by (simp add: ata_outb_def con_outb_def)
  have law: "reg (outb io p v h) = (reg h)(p := v)" "sectors (outb io p v h) = sectors h"
    if "p \<in> {0x3f6, 0x1f2, 0x1f3, 0x1f4, 0x1f5, 0x1f6, 0x1f7}" for p v h
    using d that by (auto simp: ata_device_def)
  have s: "ide_select io b s = at_hw s h" "sectors h = sectors (hw (machine s))"
    "reg h 0x1f3 = of_nat (?n mod 256)" "reg h 0x1f4 = of_nat (?n div 2 ^ 8 mod 256)" "reg h 0x1f5 = of_nat (?n div 2 ^ 16 mod 256)"
    "reg h 0x1f6 = 0xe0 OR push_bit 4 (of_nat (b_dev b mod 2)) OR of_nat (?n div 2 ^ 24 mod 16)"
    unfolding h_def ide_select_def Let_def out by (simp_all add: law)
  have u: "unat (reg h 0x1f6) = 0xe0 + 16 * (b_dev b mod 2) + ?n div 2 ^ 24 mod 16"
    unfolding s(6) by (rule select_byte) simp_all
  have v: "unat (reg h 0x1f6) = 16 * (14 + b_dev b mod 2) + ?n div 2 ^ 24 mod 16" unfolding u by simp
  then have low: "unat (reg h 0x1f6) mod 16 = ?n div 2 ^ 24 mod 16" by (simp only: mod_mult_self4 mod_mod_trivial)
  have sec: "ide_sector reg h = ?n mod 256 + 2 ^ 8 * (?n div 2 ^ 8 mod 256) + 2 ^ 16 * (?n div 2 ^ 16 mod 256) + 2 ^ 24 * (?n div 2 ^ 24 mod 16)"
    unfolding ide_sector_def low s(3-5) by (simp add: unat_of_nat)
  have "unat (reg h 0x1f6) div 16 = 14 + b_dev b mod 2" unfolding v by simp
  moreover have "(14 + b_dev b mod 2) mod 2 = b_dev b mod 2" by presburger
  ultimately have "ide_drive reg h = b_dev b mod 2" unfolding ide_drive_def by (simp only:)
  then show ?thesis using s(1,2) trans [OF sec sector_bytes [OF assms(2)]] by (intro exI [of _ h]) blast
qed

lemma idestart_law:
  assumes d: "ata_device io fuel reg sectors busy" and n: "b_sector (ibuf s b) < 268435456"
  shows "\<exists>h. idestart io fuel (Some b) s = Ok (at_hw s h) \<and> started reg sectors (ibuf s b) (sectors (hw (machine s))) h"
proof -
  obtain h1 where h1: "idewait io fuel False s = Ok (0, at_hw s h1)" "sectors h1 = sectors (hw (machine s))"
    using idewait_law [OF d] by blast
  obtain h2 where h2: "ide_select io (ibuf s b) (at_hw s h1) = at_hw s h2" "sectors h2 = sectors h1"
      "ide_drive reg h2 = b_dev (ibuf s b) mod 2" "ide_sector reg h2 = b_sector (ibuf s b)"
    using ide_select_law [OF d n, of "at_hw s h1"] by auto
  let ?c = "\<lambda>v. outb io 0x1f7 v h2"
  have c: "reg (?c v) = (reg h2)(0x1f7 := v)" "sectors (?c v) = sectors h2" for v
    using d by (simp_all add: ata_device_def)
  then have sel: "ide_drive reg (?c v) = ide_drive reg h2" "ide_sector reg (?c v) = ide_sector reg h2" for v
    by (simp_all add: ide_drive_def ide_sector_def)
  have w: "sectors (outsl io 0x1f0 x (?c IDE_CMD_WRITE)) = drive_write (sectors h2) (ide_drive reg h2) (ide_sector reg h2) x"
    "reg (outsl io 0x1f0 x (?c IDE_CMD_WRITE)) = reg (?c IDE_CMD_WRITE)" for x
    using d c sel by (simp_all add: ata_device_def)
  then have "ide_drive reg (outsl io 0x1f0 x (?c IDE_CMD_WRITE)) = ide_drive reg h2"
    "ide_sector reg (outsl io 0x1f0 x (?c IDE_CMD_WRITE)) = ide_sector reg h2" for x
    using sel [of IDE_CMD_WRITE] by (simp_all add: ide_drive_def ide_sector_def)
  then show ?thesis
    using h1 h2 c sel w
    by (auto simp: idestart_def started_def Let_def ata_outb_def con_outb_def ata_outsl_def)
qed

section \<open>The queue\<close>

text \<open>The list from pointer \<open>p\<close> on.\<close>

fun linked :: "(nat \<Rightarrow> nat option) \<Rightarrow> nat option \<Rightarrow> nat list \<Rightarrow> bool" where
  "linked nxt p [] = (p = None)"
| "linked nxt p (b # q) = (p = Some b \<and> linked nxt (nxt b) q)"

lemma linked_other: "b \<notin> set q \<Longrightarrow> linked (nxt(b := x)) p q = linked nxt p q"
  by (induction q arbitrary: p) auto

text \<open>
  \<open>q\<close> are the buffers that wait for the disk, in the order in which they will be served, and \<open>D\<close> the contents of the disks
  after the requests that are complete. The first request is started.
\<close>

definition request_ok :: "buf \<Rightarrow> bool" where
  "request_ok v \<longleftrightarrow> b_busy v \<and> \<not> (b_valid v \<and> \<not> b_dirty v) \<and> b_sector v < 268435456"

definition ata_view :: "('h \<Rightarrow> nat \<Rightarrow> u8) \<Rightarrow> ('h \<Rightarrow> drives) \<Rightarrow> 'h ata \<Rightarrow> nat list \<Rightarrow> drives \<Rightarrow> bool" where
  "ata_view reg sectors s q D \<longleftrightarrow> linked (qnext s) (idequeue s) q \<and> distinct q \<and> (\<forall>b \<in> set q. request_ok (ibuf s b)) \<and>
     (case q of [] \<Rightarrow> sectors (hw (machine s)) = D | b # _ \<Rightarrow> started reg sectors (ibuf s b) D (hw (machine s)))"

lemma ide_last_link:
  assumes "linked (qnext s) (case pp of None \<Rightarrow> idequeue s | Some b \<Rightarrow> qnext s b) q" and "length q \<le> n"
  shows "ide_last n pp s = Ok (if q = [] then pp else Some (last q))"
  using assms
proof (induction q arbitrary: pp n)
  case Nil
  then show ?case by (subst ide_last.simps) simp
next
  case (Cons b q)
  obtain m where m: "n = Suc m" "length q \<le> m" using Cons.prems(2) by (cases n) auto
  have "ide_last m (Some b) s = Ok (if q = [] then Some b else Some (last q))"
    by (rule Cons.IH) (use Cons.prems m in auto)
  then show ?case using Cons.prems(1) m by (subst ide_last.simps) simp
qed

lemma linked_append:
  assumes "linked nxt p q" and "q \<noteq> []" and "distinct q" and "b \<notin> set q" and "nxt b = None"
  shows "linked (nxt(last q := Some b)) p (q @ [b])"
  using assms
proof (induction q arbitrary: p)
  case (Cons c q)
  show ?case
  proof (cases q)
    case Nil
    then show ?thesis using Cons.prems by auto
  next
    case (Cons x y)
    then have "last (c # q) \<noteq> c" "q \<noteq> []" using Cons.prems(3) last_in_set [of q] by auto
    then show ?thesis using Cons.prems Cons.IH [of "nxt c"] by auto
  qed
qed simp

section \<open>Requests and interrupts\<close>

text \<open>
  A machine with two disks of zeros but for sector 5 of disk 1. Buffer 0 asks for that sector; in the second
  state its request is under way.
\<close>

type_synonym disk_hw = "(nat \<Rightarrow> u8) \<times> drives"

definition disk_ports :: "disk_hw ports" where
  "disk_ports = \<lparr>inb = (\<lambda>p h. (0x40, h)), outb = (\<lambda>p v (r, D). (r(p := v), D)),
     insl = (\<lambda>p n (r, D). (D (ide_drive fst (r, D)) (ide_sector fst (r, D)), (r, D))),
     outsl = (\<lambda>p d (r, D). (r, drive_write D (ide_drive fst (r, D)) (ide_sector fst (r, D)) d)),
     mmio_load = (\<lambda>a h. (0, h)), mmio_store = (\<lambda>a v h. h)\<rparr>"

definition sample_drives :: drives where
  "sample_drives = drive_write (\<lambda>dv sec. zero_block) 1 5 (replicate 512 7)"

definition sample_ata :: "(nat \<Rightarrow> u8) \<Rightarrow> nat option \<Rightarrow> disk_hw ata" where
  "sample_ata r p = \<lparr>machine = \<lparr>panicked = False, locking = True, in_buf = [], in_r = 0, in_w = 0, in_e = 0, crt = (\<lambda>i. 0),
       uart = False, kbd_shift = 0, irqmask = 0, ismp = False, hw = (r, sample_drives), woken = 0\<rparr>,
     idequeue = p, havedisk1 = True,
     ibuf = (\<lambda>b. \<lparr>b_busy = True, b_valid = False, b_dirty = False, b_dev = 1, b_sector = 5, b_prev = 0, b_next = 0, b_data = zero_block\<rparr>),
     qnext = (\<lambda>b. None), buf_woken = []\<rparr>"

lemma disk_ports_device: "ata_device disk_ports 1 fst snd (\<lambda>h. 0)"
  by (auto simp: ata_device_def disk_ports_def ide_drive_def ide_sector_def)



text \<open>The buffer and the disks after a request.\<close>

definition served :: "buf \<Rightarrow> drives \<Rightarrow> buf" where
  "served v D = v\<lparr>b_data := if b_dirty v then b_data v else D (b_dev v mod 2) (b_sector v),
     b_valid := True, b_dirty := False\<rparr>"

definition drives_after :: "buf \<Rightarrow> drives \<Rightarrow> drives" where
  "drives_after v D = (if b_dirty v then drive_write D (b_dev v mod 2) (b_sector v) (b_data v) else D)"

text \<open>The part of the handler before the next request is started.\<close>

lemma ideintr_transfer:
  assumes d: "ata_device io fuel reg sectors busy" and st: "started reg sectors (ibuf s b) D (hw (machine s))"
  shows "\<exists>h. andthen (if b_dirty (ibuf s b) then Ok s
      else andthen (idewait io fuel True s) (\<lambda>(r, s).
        if 0 \<le> r then let (d, s) = ata_insl io 0x1f0 (512 div 4) s in Ok (s\<lparr>ibuf := (ibuf s)(b := (ibuf s b)\<lparr>b_data := d\<rparr>)\<rparr>)
        else Ok s)) (\<lambda>s. Ok (s\<lparr>ibuf := (ibuf s)(b := (ibuf s b)\<lparr>b_valid := True, b_dirty := False\<rparr>), buf_woken := buf_woken s @ [b]\<rparr>)) =
    Ok ((at_hw s h)\<lparr>ibuf := (ibuf s)(b := served (ibuf s b) D), buf_woken := buf_woken s @ [b]\<rparr>) \<and>
    sectors h = drives_after (ibuf s b) D"
proof (cases "b_dirty (ibuf s b)")
  case True
  then show ?thesis
    using st by (intro exI [of _ "hw (machine s)"]) (simp add: served_def drives_after_def started_def)
next
  case False
  obtain h where h: "idewait io fuel True s = Ok (0, at_hw s h)" "reg h = reg (hw (machine s))" "sectors h = sectors (hw (machine s))"
    using idewait_law [OF d] by blast
  have "reg h 0x1f7 = IDE_CMD_READ" "ide_drive reg h = b_dev (ibuf s b) mod 2" "ide_sector reg h = b_sector (ibuf s b)" "sectors h = D"
    using st False h by (simp_all add: started_def ide_drive_def ide_sector_def)
  then have "fst (insl io 0x1f0 128 h) = D (b_dev (ibuf s b) mod 2) (b_sector (ibuf s b))" "sectors (snd (insl io 0x1f0 128 h)) = D"
    using d by (simp_all add: ata_device_def)
  then show ?thesis
    using False h(1)
    by (intro exI [of _ "snd (insl io 0x1f0 128 h)"]) (simp add: ata_insl_def split_beta Let_def served_def drives_after_def)
qed

lemma ideintr_law:
  assumes d: "ata_device io fuel reg sectors busy" and v: "ata_view reg sectors s (b # q) D"
  shows "\<exists>t. ideintr io fuel s = Ok t \<and> ibuf t = (ibuf s)(b := served (ibuf s b) D) \<and> buf_woken t = buf_woken s @ [b] \<and>
    ata_view reg sectors t q (drives_after (ibuf s b) D)"
proof -
  let ?s = "s\<lparr>idequeue := qnext s b\<rparr>"
  let ?put = "\<lambda>s. s\<lparr>ibuf := (ibuf s)(b := (ibuf s b)\<lparr>b_valid := True, b_dirty := False\<rparr>), buf_woken := buf_woken s @ [b]\<rparr>"
  let ?read = "if b_dirty (ibuf ?s b) then Ok ?s
      else andthen (idewait io fuel True ?s) (\<lambda>(r, s).
        if 0 \<le> r then let (d, s) = ata_insl io 0x1f0 (512 div 4) s in Ok (s\<lparr>ibuf := (ibuf s)(b := (ibuf s b)\<lparr>b_data := d\<rparr>)\<rparr>)
        else Ok s)"
  have st: "started reg sectors (ibuf ?s b) D (hw (machine ?s))" and q: "idequeue s = Some b" "linked (qnext s) (qnext s b) q"
    "distinct (b # q)" "\<forall>c \<in> set q. request_ok (ibuf s c)"
    using v by (simp_all add: ata_view_def)
  obtain h where h: "andthen ?read (\<lambda>s. Ok (?put s)) =
      Ok ((at_hw ?s h)\<lparr>ibuf := (ibuf s)(b := served (ibuf s b) D), buf_woken := buf_woken s @ [b]\<rparr>)"
      "sectors h = drives_after (ibuf s b) D"
    using ideintr_transfer [OF d st] by auto
  let ?t = "(at_hw ?s h)\<lparr>ibuf := (ibuf s)(b := served (ibuf s b) D), buf_woken := buf_woken s @ [b]\<rparr>"
  have "ideintr io fuel s = andthen (andthen ?read (\<lambda>s. Ok (?put s)))
      (\<lambda>s. if idequeue s \<noteq> None then idestart io fuel (idequeue s) s else Ok s)"
    by (simp add: ideintr_def q(1) Let_def andthen_assoc)
  then have run: "ideintr io fuel s = (if idequeue ?t \<noteq> None then idestart io fuel (idequeue ?t) ?t else Ok ?t)"
    unfolding h(1) andthen.simps .
  show ?thesis
  proof (cases q)
    case Nil
    then have "ideintr io fuel s = Ok ?t" using run q(2) by simp
    then show ?thesis using Nil q h(2) by (auto simp: ata_view_def)
  next
    case (Cons c q')
    then have c: "c \<noteq> b" "request_ok (ibuf s c)" using q by auto
    obtain g where "idestart io fuel (Some c) ?t = Ok (at_hw ?t g)" "started reg sectors (ibuf ?t c) (sectors h) g"
      using idestart_law [OF d, of ?t c] c by (auto simp: request_ok_def)
    then have "ideintr io fuel s = Ok (at_hw ?t g)" "started reg sectors (ibuf s c) (drives_after (ibuf s b) D) g"
      using run q(2) Cons c(1) h(2) by simp_all
    then show ?thesis using Cons q by (auto simp: ata_view_def)
  qed
qed



end
