(* ===== verification/Xv6_Shell.thy ===== *)
theory Xv6_Shell
  imports Xv6_User
begin

text \<open>
  The parser of the shell (sh.c). The command line is the list of its bytes before the terminating zero, and pointers
  into it are positions. The panic of the shell, which prints a message and exits, is the outcome of that name.
  Memory for commands is always found.
\<close>

section \<open>Commands\<close>

text \<open>Words of the line are pairs of the position of their first byte and the position behind their last one.\<close>

type_synonym span = "nat \<times> nat"

datatype cmd =
    EXEC "span list"
  | REDIR cmd span nat nat
  | PIPE cmd cmd
  | LIST cmd cmd
  | BACK cmd

abbreviation MAXARGS :: nat where "MAXARGS \<equiv> 10"
abbreviation O_RDONLY :: nat where "O_RDONLY \<equiv> 0"
abbreviation O_WRONLY :: nat where "O_WRONLY \<equiv> 1"
abbreviation O_CREATE :: nat where "O_CREATE \<equiv> 0x200"

section \<open>Tokens\<close>

definition whitespace :: "u8 list" where
  "whitespace = [32, 9, 13, 10, 11]"

definition symbols :: "u8 list" where
  "symbols = [60, 124, 62, 38, 59, 40, 41]"

definition char_at :: "u8 list \<Rightarrow> nat \<Rightarrow> u8" where
  "char_at line i = (if i < length line then line ! i else 0)"

function skip_space :: "u8 list \<Rightarrow> nat \<Rightarrow> nat" where
  "skip_space line s =
     (if s < length line \<and> strchr whitespace (char_at line s) \<noteq> None then skip_space line (s + 1) else s)"
  by pat_completeness auto

termination
  by (relation "measure (\<lambda>(line, s). length line - s)") auto

function word_end :: "u8 list \<Rightarrow> nat \<Rightarrow> nat" where
  "word_end line s =
     (if s < length line \<and> strchr whitespace (char_at line s) = None \<and> strchr symbols (char_at line s) = None
      then word_end line (s + 1) else s)"
  by pat_completeness auto

termination
  by (relation "measure (\<lambda>(line, s). length line - s)") auto

declare skip_space.simps [simp del]
declare word_end.simps [simp del]

text \<open>\<^verbatim>\<open>gettoken\<close> returns the kind of the token, where it begins and ends, and where the next one begins.\<close>

definition gettoken :: "u8 list \<Rightarrow> nat \<Rightarrow> u8 \<times> nat \<times> nat \<times> nat" where
  "gettoken line ps =
     (let s = skip_space line ps; q = s; c = char_at line s;
          (ret, s) =
            (if c = 0 then (c, s)
             else if c \<in> {124, 40, 41, 59, 38, 60} then (c, s + 1)
             else if c = 62 then if char_at line (s + 1) = 62 then (43, s + 2) else (c, s + 1)
             else (97, word_end line s))
      in (ret, q, s, skip_space line s))"

definition peek :: "u8 list \<Rightarrow> nat \<Rightarrow> u8 list \<Rightarrow> bool \<times> nat" where
  "peek line ps toks =
     (let s = skip_space line ps in (char_at line s \<noteq> 0 \<and> strchr toks (char_at line s) \<noteq> None, s))"

section \<open>Parsing\<close>

text \<open>
  The redirections found around a command wrap it from the inside out; the arguments of a command are entered in its
  structure while redirections already point to it. Each function takes the bound \<open>n\<close> on the nesting of calls
  and the rounds of loops.
\<close>

type_synonym redir = "span \<times> nat \<times> nat"

definition redircmd :: "cmd \<Rightarrow> redir \<Rightarrow> cmd" where
  "redircmd c = (\<lambda>(sp, mode, fd). REDIR c sp mode fd)"

primrec parseredirs :: "nat \<Rightarrow> u8 list \<Rightarrow> redir list \<Rightarrow> nat \<Rightarrow> (redir list \<times> nat) outcome" where
  "parseredirs 0 line rs ps = NoFuel"
| "parseredirs (Suc n) line rs ps =
     (let (more, ps) = peek line ps [60, 62] in
      if \<not> more then Ok (rs, ps)
      else let (tok, _, _, ps) = gettoken line ps; (tok2, q, eq, ps) = gettoken line ps in
        if tok2 \<noteq> 97 then Panic ''missing file for redirection''
        else parseredirs n line (rs @ (if tok = 60 then [((q, eq), O_RDONLY, 0)]
               else if tok = 62 then [((q, eq), O_WRONLY + O_CREATE, 1)]
               else if tok = 43 then [((q, eq), O_WRONLY + O_CREATE, 1)] else [])) ps)"

primrec parseargs :: "nat \<Rightarrow> u8 list \<Rightarrow> span list \<Rightarrow> redir list \<Rightarrow> nat \<Rightarrow> (cmd \<times> nat) outcome" where
  "parseargs 0 line argv rs ps = NoFuel"
| "parseargs (Suc n) line argv rs ps =
     (let (stop, ps) = peek line ps [124, 41, 38, 59] in
      if stop then Ok (foldl redircmd (EXEC argv) rs, ps)
      else let (tok, q, eq, ps) = gettoken line ps in
        if tok = 0 then Ok (foldl redircmd (EXEC argv) rs, ps)
        else if tok \<noteq> 97 then Panic ''syntax''
        else let argv = argv @ [(q, eq)] in
          if MAXARGS \<le> length argv then Panic ''too many args''
          else andthen (parseredirs n line rs ps) (\<lambda>(rs, ps). parseargs n line argv rs ps))"

primrec parsebacks :: "nat \<Rightarrow> u8 list \<Rightarrow> cmd \<Rightarrow> nat \<Rightarrow> (cmd \<times> nat) outcome" where
  "parsebacks 0 line c ps = NoFuel"
| "parsebacks (Suc n) line c ps =
     (let (amp, ps) = peek line ps [38] in
      if amp then let (_, _, _, ps) = gettoken line ps in parsebacks n line (BACK c) ps else Ok (c, ps))"

fun parseline :: "nat \<Rightarrow> u8 list \<Rightarrow> nat \<Rightarrow> (cmd \<times> nat) outcome"
  and parsepipe :: "nat \<Rightarrow> u8 list \<Rightarrow> nat \<Rightarrow> (cmd \<times> nat) outcome"
  and parseexec :: "nat \<Rightarrow> u8 list \<Rightarrow> nat \<Rightarrow> (cmd \<times> nat) outcome"
  and parseblock :: "nat \<Rightarrow> u8 list \<Rightarrow> nat \<Rightarrow> (cmd \<times> nat) outcome"
where
  "parseline 0 line ps = NoFuel"
| "parseline (Suc n) line ps =
     andthen (parsepipe n line ps) (\<lambda>(c, ps).
     andthen (parsebacks n line c ps) (\<lambda>(c, ps).
       let (semi, ps) = peek line ps [59] in
       if semi then let (_, _, _, ps) = gettoken line ps in andthen (parseline n line ps) (\<lambda>(d, ps). Ok (LIST c d, ps))
       else Ok (c, ps)))"
| "parsepipe 0 line ps = NoFuel"
| "parsepipe (Suc n) line ps =
     andthen (parseexec n line ps) (\<lambda>(c, ps).
       let (bar, ps) = peek line ps [124] in
       if bar then let (_, _, _, ps) = gettoken line ps in andthen (parsepipe n line ps) (\<lambda>(d, ps). Ok (PIPE c d, ps))
       else Ok (c, ps))"
| "parseexec 0 line ps = NoFuel"
| "parseexec (Suc n) line ps =
     (let (par, ps) = peek line ps [40] in
      if par then parseblock n line ps
      else andthen (parseredirs n line [] ps) (\<lambda>(rs, ps). parseargs n line [] rs ps))"
| "parseblock 0 line ps = NoFuel"
| "parseblock (Suc n) line ps =
     (let (par, ps) = peek line ps [40] in
      if \<not> par then Panic ''parseblock''
      else let (_, _, _, ps) = gettoken line ps in
        andthen (parseline n line ps) (\<lambda>(c, ps).
          let (par, ps) = peek line ps [41] in
          if \<not> par then Panic ''syntax - missing )''
          else let (_, _, _, ps) = gettoken line ps in
            andthen (parseredirs n line [] ps) (\<lambda>(rs, ps). Ok (foldl redircmd c rs, ps))))"

text \<open>\<^verbatim>\<open>nulterminate\<close> stores a zero behind each word, in the buffer that holds the line and its terminating zero.\<close>

primrec nulterminate :: "cmd \<Rightarrow> u8 list \<Rightarrow> u8 list" where
  "nulterminate (EXEC argv) buf = fold (\<lambda>(q, eq) buf. buf[eq := 0]) argv buf"
| "nulterminate (REDIR c sp mode fd) buf = (nulterminate c buf)[snd sp := 0]"
| "nulterminate (PIPE c d) buf = nulterminate d (nulterminate c buf)"
| "nulterminate (LIST c d) buf = nulterminate d (nulterminate c buf)"
| "nulterminate (BACK c) buf = nulterminate c buf"

definition parsecmd :: "u8 list \<Rightarrow> (cmd \<times> u8 list) outcome" where
  "parsecmd line =
     andthen (parseline (4 * length line + 8) line 0) (\<lambda>(c, s).
       let (_, s) = peek line s [] in
       if s \<noteq> length line then Panic ''syntax'' else Ok (c, nulterminate c (line @ [0])))"

end
