(* ===== verification/Xv6_Shell_Grammar.thy ===== *)
theory Xv6_Shell_Grammar
  imports Xv6_Shell
begin

text \<open>
  The tokens of a command line, as \<^verbatim>\<open>gettoken\<close> of sh.c delivers them, and the grammar of command lines.
\<close>

section \<open>Tokens of a line\<close>

lemma strchr_None: "strchr s c = None \<longleftrightarrow> c \<notin> set s"
  by (induction s) auto

definition word_char :: "u8 \<Rightarrow> bool" where
  "word_char c \<longleftrightarrow> c \<notin> set whitespace \<and> c \<notin> set symbols"

lemma skip_space_takeWhile: "skip_space line s = s + length (takeWhile (\<lambda>c. c \<in> set whitespace) (drop s line))"
proof (induction line s rule: skip_space.induct)
  case (1 line s)
  show ?case
  proof (cases "s < length line \<and> line ! s \<in> set whitespace")
    case True
    then have "drop s line = line ! s # drop (s + 1) line" by (metis Cons_nth_drop_Suc Suc_eq_plus1)
    then show ?thesis using True 1 by (subst skip_space.simps) (simp add: strchr_None char_at_def)
  next
    case False
    then have "takeWhile (\<lambda>c. c \<in> set whitespace) (drop s line) = []"
      by (cases "s < length line") (simp_all add: Cons_nth_drop_Suc [symmetric])
    then show ?thesis using False by (subst skip_space.simps) (simp add: strchr_None char_at_def)
  qed
qed

lemma word_end_takeWhile: "word_end line s = s + length (takeWhile word_char (drop s line))"
proof (induction line s rule: word_end.induct)
  case (1 line s)
  have c: "(s < length line \<and> strchr whitespace (char_at line s) = None \<and> strchr symbols (char_at line s) = None) \<longleftrightarrow>
      s < length line \<and> word_char (line ! s)"
    by (auto simp: strchr_None char_at_def word_char_def)
  show ?case
  proof (cases "s < length line \<and> word_char (line ! s)")
    case True
    then have "drop s line = line ! s # drop (s + 1) line" by (metis Cons_nth_drop_Suc Suc_eq_plus1)
    then show ?thesis using True 1 c by (subst word_end.simps) auto
  next
    case False
    then have "takeWhile word_char (drop s line) = []"
      by (cases "s < length line") (simp_all add: Cons_nth_drop_Suc [symmetric])
    then show ?thesis using False c by (subst word_end.simps) auto
  qed
qed

text \<open>Where a scan over characters that satisfy \<open>P\<close> ends.\<close>

lemma scan_stop:
  assumes "s + length (takeWhile P (drop s line)) < length line"
  shows "\<not> P (line ! (s + length (takeWhile P (drop s line))))"
  using assms nth_length_takeWhile [of P "drop s line"] by (simp add: less_diff_conv add.commute)

lemma scan_inside:
  assumes "s \<le> i" and "i < s + length (takeWhile P (drop s line))"
  shows "P (line ! i)"
proof -
  let ?w = "takeWhile P (drop s line)"
  have i: "i - s < length ?w" using assms by simp
  moreover have "s < length line" using i length_takeWhile_le [of P "drop s line"] by (cases "s < length line") auto
  ultimately have "?w ! (i - s) = line ! i" using assms by (simp add: takeWhile_nth)
  then show ?thesis using i set_takeWhileD [of "?w ! (i - s)" P "drop s line"] nth_mem [OF i] by simp
qed

lemma scan_le: "s \<le> length line \<Longrightarrow> s + length (takeWhile P (drop s line)) \<le> length line"
  using length_takeWhile_le [of P "drop s line"] by simp

lemma skip_space_ge: "s \<le> skip_space line s"
  by (simp add: skip_space_takeWhile)

lemma skip_space_stop: "skip_space line s < length line \<Longrightarrow> char_at line (skip_space line s) \<notin> set whitespace"
  using scan_stop [of s "\<lambda>c. c \<in> set whitespace" line] by (simp add: skip_space_takeWhile char_at_def)

lemma skip_space_idem [simp]: "skip_space line (skip_space line s) = skip_space line s"
  using skip_space_stop [of line s] by (subst skip_space.simps) (auto simp: strchr_None)

text \<open>A word of the line: word characters only, as many as there are.\<close>

definition word_span :: "u8 list \<Rightarrow> span \<Rightarrow> bool" where
  "word_span line = (\<lambda>(q, e). q < e \<and> e \<le> length line \<and> (\<forall>i. q \<le> i \<and> i < e \<longrightarrow> word_char (line ! i)) \<and>
     (e < length line \<longrightarrow> \<not> word_char (line ! e)))"

lemma word_end_span:
  assumes "s < length line" and "word_char (line ! s)"
  shows "word_span line (s, word_end line s)"
proof -
  have "word_end line s = word_end line (s + 1)"
    using assms by (subst word_end.simps) (simp add: strchr_None word_char_def char_at_def)
  then have "s < word_end line s" by (simp add: word_end_takeWhile)
  then show ?thesis
    using scan_inside [of s _ word_char line] scan_stop [of s word_char line] scan_le [of s line word_char] assms(1)
    by (simp add: word_span_def word_end_takeWhile)
qed

datatype tok = Sym u8 | Append | Word span

text \<open>A token ends behind its beginning; a word is a word of the line.\<close>

lemma gettoken_token:
  assumes "gettoken line i = (ret, q, e, j)" and "ret \<noteq> 0"
  shows "i \<le> q \<and> q < length line \<and> q < e \<and> j = skip_space line e \<and> (ret = 97 \<longrightarrow> word_span line (q, e))"
proof -
  let ?s = "skip_space line i"
  have c: "char_at line ?s \<noteq> 0" and q: "q = ?s" and j: "j = skip_space line e"
    using assms by (auto simp: gettoken_def Let_def split: if_splits)
  then have s: "?s < length line" by (auto simp: char_at_def split: if_splits)
  show ?thesis
  proof (cases "char_at line ?s \<in> {124, 40, 41, 59, 38, 60, 62}")
    case True
    then show ?thesis using assms c q j s skip_space_ge [of i line] by (auto simp: gettoken_def Let_def split: if_splits)
  next
    case False
    then have "word_char (line ! ?s)"
      using skip_space_stop [OF s] s by (simp add: word_char_def symbols_def char_at_def)
    then have "word_span line (?s, word_end line ?s)" by (rule word_end_span [OF s])
    moreover have "e = word_end line ?s" using assms False c by (auto simp: gettoken_def Let_def split: if_splits)
    ultimately show ?thesis using q j s skip_space_ge [of i line] by (simp add: word_span_def)
  qed
qed

lemma gettoken_advance:
  assumes "gettoken line i = (ret, q, e, j)" and "ret \<noteq> 0"
  shows "length line - j < length line - i"
  using gettoken_token [OF assms] skip_space_ge [of e line] by linarith

function tokens :: "u8 list \<Rightarrow> nat \<Rightarrow> tok list" where
  "tokens line i = (let (ret, q, e, j) = gettoken line i in
     if ret = 0 then [] else (if ret = 97 then Word (q, e) else if ret = 43 then Append else Sym ret) # tokens line j)"
  by pat_completeness auto

termination
  by (relation "measure (\<lambda>(line, i). length line - i)") (auto dest: gettoken_advance [OF sym])

declare tokens.simps [simp del]

definition first_char :: "tok \<Rightarrow> u8" where
  "first_char t = (case t of Sym c \<Rightarrow> c | Append \<Rightarrow> 62 | Word sp \<Rightarrow> 0)"

definition starts :: "u8 list \<Rightarrow> tok list \<Rightarrow> bool" where
  "starts cs ts \<longleftrightarrow> (case ts of [] \<Rightarrow> False | t # _ \<Rightarrow> first_char t \<in> set cs)"

definition kind :: "tok \<Rightarrow> u8" where
  "kind t = (case t of Sym c \<Rightarrow> c | Append \<Rightarrow> 43 | Word sp \<Rightarrow> 97)"

lemma tok_simps [simp]:
  "kind (Sym c) = c" "kind Append = 43" "kind (Word sp) = 97"
  "first_char (Sym c) = c" "first_char Append = 62" "first_char (Word sp) = 0"
  by (simp_all add: kind_def first_char_def)

lemma gettoken_skip [simp]: "gettoken line (skip_space line i) = gettoken line i"
  by (simp add: gettoken_def)

lemma tokens_skip [simp]: "tokens line (skip_space line i) = tokens line i"
  by (subst (1 2) tokens.simps) simp

lemma peek_tokens:
  assumes "set cs \<subseteq> set symbols"
  shows "peek line i cs = (starts cs (tokens line i), skip_space line i)"
proof -
  let ?c = "char_at line (skip_space line i)"
  have "(?c \<noteq> 0 \<and> ?c \<in> set cs) \<longleftrightarrow> starts cs (tokens line i)"
    using assms unfolding symbols_def
    by (subst tokens.simps) (auto simp: starts_def first_char_def gettoken_def Let_def split: if_splits)
  then show ?thesis by (simp add: peek_def Let_def strchr_None)
qed

lemma gettoken_end:
  assumes "tokens line i = []"
  obtains q e j where "gettoken line i = (0, q, e, j)" "tokens line j = []"
proof -
  obtain ret q e j where g: "gettoken line i = (ret, q, e, j)" by (metis prod_cases4)
  then have "ret = 0" using assms by (subst (asm) tokens.simps) (simp split: if_splits)
  moreover have "j = skip_space line i"
    using g calculation by (auto simp: gettoken_def Let_def split: if_splits)
  ultimately show ?thesis using that g assms by simp
qed

lemma gettoken_next:
  assumes "tokens line i = t # ts"
  obtains q e j where "gettoken line i = (kind t, q, e, j)" "tokens line j = ts" "kind t \<noteq> 0"
    "\<And>sp. t = Word sp \<Longrightarrow> sp = (q, e) \<and> word_span line sp" "kind t = 97 \<longleftrightarrow> t = Word (q, e)"
proof -
  obtain ret q e j where g: "gettoken line i = (ret, q, e, j)" by (metis prod_cases4)
  have r: "ret \<noteq> 0" "t = (if ret = 97 then Word (q, e) else if ret = 43 then Append else Sym ret)" "tokens line j = ts"
    using assms g by (subst (asm) tokens.simps, simp split: if_splits)+
  then have k: "kind t = ret" by (simp add: kind_def)
  show ?thesis
  proof (rule that)
    show "gettoken line i = (kind t, q, e, j)" using g k by simp
    show "sp = (q, e) \<and> word_span line sp" if "t = Word sp" for sp
      using that r(1,2) gettoken_token [OF g r(1)] by (simp split: if_splits)
    show "kind t = 97 \<longleftrightarrow> t = Word (q, e)" using r(2) by (simp add: kind_def)
    show "kind t \<noteq> 0" using k r(1) by simp
    show "tokens line j = ts" by (rule r(3))
  qed
qed

lemma tokens_length: "length (tokens line i) \<le> length line - i"
proof (induction line i rule: tokens.induct)
  case (1 line i)
  obtain ret q e j where g: "gettoken line i = (ret, q, e, j)" by (metis prod_cases4)
  show ?case
  proof (cases "ret = 0")
    case True
    then show ?thesis using g by (subst tokens.simps) simp
  next
    case False
    then show ?thesis using 1 g gettoken_advance [OF g False] by (subst tokens.simps) fastforce
  qed
qed

lemma tokens_word: "Word sp \<in> set (tokens line i) \<Longrightarrow> word_span line sp"
proof (induction line i rule: tokens.induct)
  case (1 line i)
  obtain ret q e j where g: "gettoken line i = (ret, q, e, j)" by (metis prod_cases4)
  then have "ret \<noteq> 0" "Word sp = (if ret = 97 then Word (q, e) else if ret = 43 then Append else Sym ret) \<or> Word sp \<in> set (tokens line j)"
    using "1.prems" by (subst (asm) tokens.simps, simp split: if_splits)+
  then show ?case using 1 g gettoken_token [OF g] by (fastforce split: if_splits)
qed

section \<open>The grammar\<close>

text \<open>Words and redirections in any order, with the words and the redirections that they contain.\<close>

definition redir_mode :: "tok \<Rightarrow> (nat \<times> nat) option" where
  "redir_mode t = (if t = Sym 60 then Some (O_RDONLY, 0) else if t = Sym 62 \<or> t = Append then Some (O_WRONLY + O_CREATE, 1) else None)"

inductive items :: "tok list \<Rightarrow> span list \<Rightarrow> redir list \<Rightarrow> bool" where
  items_none: "items [] [] []"
| items_word: "items us ws rs \<Longrightarrow> items (Word sp # us) (sp # ws) rs"
| items_redir: "items us ws rs \<Longrightarrow> redir_mode t = Some m \<Longrightarrow> items (t # Word sp # us) ws ((sp, m) # rs)"

inductive line_of :: "tok list \<Rightarrow> cmd \<Rightarrow> bool"
  and pipe_of :: "tok list \<Rightarrow> cmd \<Rightarrow> bool"
  and exec_of :: "tok list \<Rightarrow> cmd \<Rightarrow> bool"
where
  line_one: "pipe_of us c \<Longrightarrow> line_of (us @ replicate k (Sym 38)) ((BACK ^^ k) c)"
| line_more: "pipe_of us c \<Longrightarrow> line_of vs d \<Longrightarrow> line_of (us @ replicate k (Sym 38) @ Sym 59 # vs) (LIST ((BACK ^^ k) c) d)"
| pipe_one: "exec_of us c \<Longrightarrow> pipe_of us c"
| pipe_more: "exec_of us c \<Longrightarrow> pipe_of vs d \<Longrightarrow> pipe_of (us @ Sym 124 # vs) (PIPE c d)"
| exec_simple: "items us ws rs \<Longrightarrow> length ws < MAXARGS \<Longrightarrow> exec_of us (foldl redircmd (EXEC ws) rs)"
| exec_block: "line_of us c \<Longrightarrow> items vs [] rs \<Longrightarrow> exec_of (Sym 40 # us @ Sym 41 # vs) (foldl redircmd c rs)"

lemma items_append: "items us ws rs \<Longrightarrow> items vs xs ts \<Longrightarrow> items (us @ vs) (ws @ xs) (rs @ ts)"
  by (induction rule: items.induct) (auto intro: items.intros)

lemma starts_simps [simp]:
  "\<not> starts cs []" "starts cs (t # ts) \<longleftrightarrow> first_char t \<in> set cs"
  by (simp_all add: starts_def)

lemma redir_first: "redir_mode t = Some m \<Longrightarrow> first_char t \<in> {60, 62} \<and> t \<noteq> Word sp"
  by (auto simp: redir_mode_def first_char_def split: if_splits)

text \<open>The redirections in front of the first word.\<close>

definition words_next :: "tok list \<Rightarrow> span list \<Rightarrow> redir list \<Rightarrow> bool" where
  "words_next us ws rs \<longleftrightarrow> us = [] \<and> ws = [] \<and> rs = [] \<or> (\<exists>sp vs xs. us = Word sp # vs \<and> ws = sp # xs \<and> items vs xs rs)"

lemma items_split:
  "items us ws rs \<Longrightarrow> \<exists>us1 rs1 us2 rs2. us = us1 @ us2 \<and> rs = rs1 @ rs2 \<and> items us1 [] rs1 \<and> words_next us2 ws rs2"
proof (induction rule: items.induct)
  case items_none
  show ?case
    by (intro exI [of _ "[]"] conjI) (simp_all add: items.items_none words_next_def)
next
  case (items_word us ws rs sp)
  show ?case
    by (rule exI [of _ "[]"], rule exI [of _ "[]"]) (auto intro: items.items_none simp: words_next_def items_word.hyps)
next
  case (items_redir us ws rs t m sp)
  then obtain us1 rs1 us2 rs2 where u: "us = us1 @ us2" "rs = rs1 @ rs2" "items us1 [] rs1" "words_next us2 ws rs2" by blast
  show ?case
    by (rule exI [of _ "t # Word sp # us1"], rule exI [of _ "(sp, m) # rs1"], rule exI [of _ us2], rule exI [of _ rs2])
      (simp add: u items.items_redir items_redir.hyps(2))
qed

end
