(* ===== verification/Xv6_Shell_Props.thy ===== *)
theory Xv6_Shell_Props
  imports Xv6_Shell_Grammar
begin

text \<open>
  The shell accepts the command lines that its grammar describes, and builds the commands they stand for.
\<close>

section \<open>What is parsed belongs to the grammar\<close>

lemma peek_symbols [simp]:
  "peek line i [60, 62] = (starts [60, 62] (tokens line i), skip_space line i)"
  "peek line i [124, 41, 38, 59] = (starts [124, 41, 38, 59] (tokens line i), skip_space line i)"
  "peek line i [38] = (starts [38] (tokens line i), skip_space line i)"
  "peek line i [59] = (starts [59] (tokens line i), skip_space line i)"
  "peek line i [124] = (starts [124] (tokens line i), skip_space line i)"
  "peek line i [40] = (starts [40] (tokens line i), skip_space line i)"
  "peek line i [41] = (starts [41] (tokens line i), skip_space line i)"
  by (rule peek_tokens, simp add: symbols_def)+

text \<open>A symbol that was seen is taken by the next call.\<close>

lemma starts_one: "starts [c] ts \<longleftrightarrow> (\<exists>us. ts = Sym c # us)" if "c \<noteq> 0" "c \<noteq> 62"
  using that by (cases ts; cases "hd ts") (auto simp: first_char_def)

lemma take_symbol:
  assumes "tokens line i = Sym c # ts"
  obtains q e j where "gettoken line i = (c, q, e, j)" "tokens line j = ts"
  using gettoken_next [OF assms] by (metis tok_simps(1))

lemma redir_kind:
  assumes "starts [60, 62] (t # ts)"
  shows "\<exists>m. redir_mode t = Some m \<and> (if kind t = 60 then [(sp, O_RDONLY, 0)] else if kind t = 62 then [(sp, O_WRONLY + O_CREATE, 1)]
    else if kind t = 43 then [(sp, O_WRONLY + O_CREATE, 1)] else []) = [(sp, m)]"
  using assms by (cases t) (auto simp: first_char_def kind_def redir_mode_def)

lemma parseredirs_sound:
  "parseredirs n line rs i = Ok (rs', j) \<Longrightarrow>
    \<exists>us xs. tokens line i = us @ tokens line j \<and> items us [] xs \<and> rs' = rs @ xs"
proof (induction n arbitrary: rs i)
  case (Suc n)
  show ?case
  proof (cases "starts [60, 62] (tokens line i)")
    case False
    then have "rs' = rs" "tokens line j = tokens line i" using Suc.prems by auto
    then show ?thesis using items_none by force
  next
    case True
    then obtain t ts where t: "tokens line i = t # ts" by (cases "tokens line i") auto
    obtain q1 e1 j1 where g1: "gettoken line i = (kind t, q1, e1, j1)" "tokens line j1 = ts" using gettoken_next [OF t] by metis
    have "ts \<noteq> []"
    proof
      assume "ts = []"
      then obtain q e k where "gettoken line j1 = (0, q, e, k)" using gettoken_end g1(2) by metis
      then show False using Suc.prems True g1(1) by simp
    qed
    then obtain u vs where u: "ts = u # vs" by (cases ts) auto
    obtain q e k where g2: "gettoken line j1 = (kind u, q, e, k)" "tokens line k = vs" "kind u = 97 \<longleftrightarrow> u = Word (q, e)"
      using gettoken_next [of line j1 u vs] g1(2) u by metis
    have w: "u = Word (q, e)" using Suc.prems True g1(1) g2(1,3) by (auto split: if_splits)
    obtain m where m: "redir_mode t = Some m" "(if kind t = 60 then [((q, e), O_RDONLY, 0)] else if kind t = 62 then [((q, e), O_WRONLY + O_CREATE, 1)]
        else if kind t = 43 then [((q, e), O_WRONLY + O_CREATE, 1)] else []) = [((q, e), m)]"
      using redir_kind True t by metis
    have "parseredirs n line (rs @ [((q, e), m)]) k = Ok (rs', j)"
      using Suc.prems True g1(1) g2(1,3) w m(2) by simp
    then obtain us xs where "tokens line k = us @ tokens line j" "items us [] xs" "rs' = (rs @ [((q, e), m)]) @ xs"
      using Suc.IH by blast
    then show ?thesis
      using t u w g2(2) items_redir [OF _ m(1), of us "[]" xs "(q, e)"]
      by (intro exI [of _ "t # Word (q, e) # us"] exI [of _ "((q, e), m) # xs"]) simp
  qed
qed simp

lemma parseargs_sound:
  "parseargs n line argv rs i = Ok (c, j) \<Longrightarrow> length argv < MAXARGS \<Longrightarrow>
    \<exists>us ws xs. tokens line i = us @ tokens line j \<and> items us ws xs \<and> length (argv @ ws) < MAXARGS \<and>
      c = foldl redircmd (EXEC (argv @ ws)) (rs @ xs)"
proof (induction n arbitrary: argv rs i)
  case (Suc n)
  have stop: ?case if "tokens line j = tokens line i" "c = foldl redircmd (EXEC argv) rs"
    using that Suc.prems(2) items_none by (intro exI [of _ "[]"]) simp
  consider "starts [124, 41, 38, 59] (tokens line i)" | "tokens line i = []"
    | t ts where "\<not> starts [124, 41, 38, 59] (tokens line i)" "tokens line i = t # ts"
    by (cases "tokens line i") auto
  then show ?case
  proof cases
    case 1
    then show ?thesis using Suc.prems(1) stop by auto
  next
    case 2
    then obtain q e k where "gettoken line i = (0, q, e, k)" "tokens line k = []" using gettoken_end by metis
    then show ?thesis using Suc.prems(1) stop 2 by simp
  next
    case 3
    obtain q e k where g: "gettoken line i = (kind t, q, e, k)" "tokens line k = ts" "kind t \<noteq> 0" "kind t = 97 \<longleftrightarrow> t = Word (q, e)"
      using gettoken_next [OF 3(2)] by metis
    have w: "t = Word (q, e)" and m: "length (argv @ [(q, e)]) < MAXARGS"
      using Suc.prems(1) 3(1) g by (auto split: if_splits)
    obtain rs1 k1 where r: "parseredirs n line rs k = Ok (rs1, k1)" "parseargs n line (argv @ [(q, e)]) rs1 k1 = Ok (c, j)"
      using Suc.prems(1) 3(1) g w m by (auto simp: andthen_eq_Ok)
    obtain us1 xs1 where 1: "ts = us1 @ tokens line k1" "items us1 [] xs1" "rs1 = rs @ xs1"
      using parseredirs_sound [OF r(1)] g(2) by auto
    obtain us2 ws xs2 where 2: "tokens line k1 = us2 @ tokens line j" "items us2 ws xs2" "length (argv @ [(q, e)] @ ws) < MAXARGS"
        "c = foldl redircmd (EXEC (argv @ [(q, e)] @ ws)) (rs1 @ xs2)"
      using Suc.IH [OF r(2) m] by auto
    have "items (t # us1 @ us2) ((q, e) # ws) (xs1 @ xs2)"
      using items_word [OF items_append [OF 1(2) 2(2)], of "(q, e)"] w by simp
    then show ?thesis using 1 2 3(2) by (intro exI [of _ "t # us1 @ us2"] exI [of _ "(q, e) # ws"] exI [of _ "xs1 @ xs2"]) simp
  qed
qed simp

lemma parsebacks_sound:
  "parsebacks n line c i = Ok (c', j) \<Longrightarrow> \<exists>k. tokens line i = replicate k (Sym 38) @ tokens line j \<and> c' = (BACK ^^ k) c"
proof (induction n arbitrary: c i)
  case (Suc n)
  show ?case
  proof (cases "starts [38] (tokens line i)")
    case True
    then obtain ts where ts: "tokens line i = Sym 38 # ts" by (auto simp: starts_one)
    obtain q e k where g: "gettoken line i = (38, q, e, k)" "tokens line k = ts" using take_symbol [OF ts] .
    then obtain m where "ts = replicate m (Sym 38) @ tokens line j" "c' = (BACK ^^ m) (BACK c)"
      using Suc True by force
    then show ?thesis using ts by (intro exI [of _ "Suc m"]) (simp add: funpow_swap1)
  next
    case False
    then show ?thesis using Suc.prems by (intro exI [of _ 0]) auto
  qed
qed simp

text \<open>Taking a symbol and going on.\<close>

lemma symbol_taken:
  assumes "starts [c] (tokens line i)" and "c \<noteq> 0" and "c \<noteq> 62"
  obtains q e j where "gettoken line i = (c, q, e, j)" "tokens line i = Sym c # tokens line j"
  using assms starts_one [OF assms(2,3)] take_symbol by metis

definition parse_sound :: "u8 list \<Rightarrow> (tok list \<Rightarrow> cmd \<Rightarrow> bool) \<Rightarrow> nat \<Rightarrow> (cmd \<times> nat) outcome \<Rightarrow> bool" where
  "parse_sound line lang i r \<longleftrightarrow> (\<forall>c j. r = Ok (c, j) \<longrightarrow> (\<exists>us. tokens line i = us @ tokens line j \<and> lang us c))"

lemma parse_soundI: "(\<And>c j. r = Ok (c, j) \<Longrightarrow> \<exists>us. tokens line i = us @ tokens line j \<and> lang us c) \<Longrightarrow> parse_sound line lang i r"
  by (simp add: parse_sound_def)

lemma parse_soundE:
  assumes "parse_sound line lang i (Ok (c, j))"
  obtains us where "tokens line i = us @ tokens line j" "lang us c"
  using assms by (auto simp: parse_sound_def)

lemma parseline_sound_step:
  assumes "\<And>i. parse_sound line pipe_of i (parsepipe n line i)" and "\<And>i. parse_sound line line_of i (parseline n line i)"
  shows "parse_sound line line_of i (parseline (Suc n) line i)"
proof (rule parse_soundI)
  fix c j
  assume "parseline (Suc n) line i = Ok (c, j)"
  then obtain c1 i1 c2 i2 where p: "parsepipe n line i = Ok (c1, i1)" and b: "parsebacks n line c1 i1 = Ok (c2, i2)"
    and r: "(let (semi, ps) = peek line i2 [59] in
       if semi then let (_, _, _, ps) = gettoken line ps in andthen (parseline n line ps) (\<lambda>(d, ps). Ok (LIST c2 d, ps))
       else Ok (c2, ps)) = Ok (c, j)"
    by (auto simp: andthen_eq_Ok)
  obtain us where us: "tokens line i = us @ tokens line i1" "pipe_of us c1"
    using assms(1) [of i] p by (metis parse_soundE)
  obtain k where k: "tokens line i1 = replicate k (Sym 38) @ tokens line i2" "c2 = (BACK ^^ k) c1"
    using parsebacks_sound [OF b] by blast
  show "\<exists>us. tokens line i = us @ tokens line j \<and> line_of us c"
  proof (cases "starts [59] (tokens line i2)")
    case True
    then obtain q e i3 where g: "gettoken line i2 = (59, q, e, i3)" "tokens line i2 = Sym 59 # tokens line i3"
      by (rule symbol_taken) simp_all
    then obtain d where d: "parseline n line i3 = Ok (d, j)" "c = LIST c2 d"
      using r True by (auto simp: andthen_eq_Ok)
    then obtain vs where "tokens line i3 = vs @ tokens line j" "line_of vs d"
      using assms(2) [of i3] by (metis parse_soundE)
    then show ?thesis using us k g(2) d(2) line_more [OF us(2), of vs d k] by force
  next
    case False
    then have "c = c2" "tokens line j = tokens line i2" using r by auto
    then show ?thesis using us k line_one [OF us(2), of k] by force
  qed
qed

lemma parsepipe_sound_step:
  assumes "\<And>i. parse_sound line exec_of i (parseexec n line i)" and "\<And>i. parse_sound line pipe_of i (parsepipe n line i)"
  shows "parse_sound line pipe_of i (parsepipe (Suc n) line i)"
proof (rule parse_soundI)
  fix c j
  assume "parsepipe (Suc n) line i = Ok (c, j)"
  then obtain c1 i1 where p: "parseexec n line i = Ok (c1, i1)"
    and r: "(let (bar, ps) = peek line i1 [124] in
       if bar then let (_, _, _, ps) = gettoken line ps in andthen (parsepipe n line ps) (\<lambda>(d, ps). Ok (PIPE c1 d, ps))
       else Ok (c1, ps)) = Ok (c, j)"
    by (auto simp: andthen_eq_Ok)
  obtain us where us: "tokens line i = us @ tokens line i1" "exec_of us c1"
    using assms(1) [of i] p by (metis parse_soundE)
  show "\<exists>us. tokens line i = us @ tokens line j \<and> pipe_of us c"
  proof (cases "starts [124] (tokens line i1)")
    case True
    then obtain q e i2 where g: "gettoken line i1 = (124, q, e, i2)" "tokens line i1 = Sym 124 # tokens line i2"
      by (rule symbol_taken) simp_all
    then obtain d where d: "parsepipe n line i2 = Ok (d, j)" "c = PIPE c1 d"
      using r True by (auto simp: andthen_eq_Ok)
    then obtain vs where "tokens line i2 = vs @ tokens line j" "pipe_of vs d"
      using assms(2) [of i2] by (metis parse_soundE)
    then show ?thesis using us g(2) d(2) pipe_more [OF us(2), of vs d] by force
  next
    case False
    then have "c = c1" "tokens line j = tokens line i1" using r by auto
    then show ?thesis using us pipe_one [OF us(2)] by force
  qed
qed

lemma parseexec_sound_step:
  assumes "\<And>i. parse_sound line exec_of i (parseblock n line i)"
  shows "parse_sound line exec_of i (parseexec (Suc n) line i)"
proof (rule parse_soundI)
  fix c j
  assume p: "parseexec (Suc n) line i = Ok (c, j)"
  show "\<exists>us. tokens line i = us @ tokens line j \<and> exec_of us c"
  proof (cases "starts [40] (tokens line i)")
    case True
    then have "parseblock n line (skip_space line i) = Ok (c, j)" using p by simp
    then show ?thesis using assms [of "skip_space line i"] by (metis parse_soundE tokens_skip)
  next
    case False
    then obtain rs k where r: "parseredirs n line [] (skip_space line i) = Ok (rs, k)" "parseargs n line [] rs k = Ok (c, j)"
      using p by (auto simp: andthen_eq_Ok)
    obtain us1 where 1: "tokens line i = us1 @ tokens line k" "items us1 [] rs" using parseredirs_sound [OF r(1)] by auto
    obtain us2 ws xs where 2: "tokens line k = us2 @ tokens line j" "items us2 ws xs" "length ws < MAXARGS" "c = foldl redircmd (EXEC ws) (rs @ xs)"
      using parseargs_sound [OF r(2)] by auto
    show ?thesis
      using 1 2 exec_simple [OF items_append [OF 1(2) 2(2)]] by (intro exI [of _ "us1 @ us2"]) simp
  qed
qed

lemma parseblock_sound_step:
  assumes "\<And>i. parse_sound line line_of i (parseline n line i)"
  shows "parse_sound line exec_of i (parseblock (Suc n) line i)"
proof (rule parse_soundI)
  fix c j
  assume p: "parseblock (Suc n) line i = Ok (c, j)"
  then have s: "starts [40] (tokens line i)" by (auto split: if_splits)
  then obtain q e i1 where g: "gettoken line i = (40, q, e, i1)" "tokens line i = Sym 40 # tokens line i1"
    by (rule symbol_taken) simp_all
  obtain d i2 where d: "parseline n line i1 = Ok (d, i2)" and r: "(let (par, ps) = peek line i2 [41] in
          if \<not> par then Panic ''syntax - missing )''
          else let (_, _, _, ps) = gettoken line ps in
            andthen (parseredirs n line [] ps) (\<lambda>(rs, ps). Ok (foldl redircmd d rs, ps))) = Ok (c, j)"
    using p s g(1) by (auto simp: andthen_eq_Ok)
  obtain us where us: "tokens line i1 = us @ tokens line i2" "line_of us d"
    using assms [of i1] d by (metis parse_soundE)
  have s2: "starts [41] (tokens line i2)" using r by (auto split: if_splits)
  then obtain q2 e2 i3 where g2: "gettoken line i2 = (41, q2, e2, i3)" "tokens line i2 = Sym 41 # tokens line i3"
    by (rule symbol_taken) simp_all
  obtain rs where rs: "parseredirs n line [] i3 = Ok (rs, j)" "c = foldl redircmd d rs"
    using r s2 g2(1) by (auto simp: andthen_eq_Ok)
  obtain vs where "tokens line i3 = vs @ tokens line j" "items vs [] rs" using parseredirs_sound [OF rs(1)] by auto
  then show "\<exists>us. tokens line i = us @ tokens line j \<and> exec_of us c"
    using g(2) g2(2) us rs(2) exec_block [OF us(2), of vs rs] by force
qed

lemma parse_sound_all:
  "parse_sound line line_of i (parseline n line i) \<and> parse_sound line pipe_of i (parsepipe n line i) \<and>
   parse_sound line exec_of i (parseexec n line i) \<and> parse_sound line exec_of i (parseblock n line i)"
proof (induction n arbitrary: i)
  case 0
  show ?case by (simp add: parse_sound_def)
next
  case (Suc n)
  then show ?case
    by (intro conjI parseline_sound_step parsepipe_sound_step parseexec_sound_step parseblock_sound_step) blast+
qed

section \<open>What belongs to the grammar is parsed\<close>

text \<open>The tokens that may follow.\<close>

definition follows :: "u8 list \<Rightarrow> tok list \<Rightarrow> bool" where
  "follows cs ts \<longleftrightarrow> ts = [] \<or> starts cs ts"

lemma follows_disjoint: "follows cs ts \<Longrightarrow> set cs \<inter> set ds = {} \<Longrightarrow> \<not> starts ds ts"
  by (cases ts) (auto simp: follows_def)

lemma follows_mono: "follows cs ts \<Longrightarrow> set cs \<subseteq> set ds \<Longrightarrow> follows ds ts"
  by (cases ts) (auto simp: follows_def)

lemma parseredirs_complete:
  "items us ws xs \<Longrightarrow> ws = [] \<Longrightarrow> tokens line i = us @ rest \<Longrightarrow> \<not> starts [60, 62] rest \<Longrightarrow> length us < n \<Longrightarrow>
    \<exists>j. parseredirs n line rs i = Ok (rs @ xs, j) \<and> tokens line j = rest"
proof (induction arbitrary: i n rs rule: items.induct)
  case items_none
  then show ?case by (cases n) auto
next
  case (items_redir us ws xs t m sp)
  obtain k where n: "n = Suc k" "length us < k" using items_redir.prems(4) by (cases n) auto
  obtain q1 e1 j1 where g1: "gettoken line i = (kind t, q1, e1, j1)" "tokens line j1 = Word sp # us @ rest"
    using gettoken_next [of line i t] items_redir.prems(2) by (metis append_Cons)
  obtain q e j2 where g2: "gettoken line j1 = (97, q, e, j2)" "tokens line j2 = us @ rest" "sp = (q, e)"
    using gettoken_next [OF g1(2)] by (metis tok_simps(3))
  have s: "starts [60, 62] (t # Word sp # us @ rest)" using redir_first [OF items_redir.hyps(2)] by auto
  have "(if kind t = 60 then [((q, e), O_RDONLY, 0)] else if kind t = 62 then [((q, e), O_WRONLY + O_CREATE, 1)]
      else if kind t = 43 then [((q, e), O_WRONLY + O_CREATE, 1)] else []) = [((q, e), m)]"
    using redir_kind [OF s, of "(q, e)"] items_redir.hyps(2) by auto
  then have "parseredirs n line rs i = parseredirs k line (rs @ [((q, e), m)]) j2"
    using n(1) s g1(1) g2(1) items_redir.prems(2) by simp
  then show ?case
    using items_redir.IH [OF items_redir.prems(1) g2(2) items_redir.prems(3) n(2), of "rs @ [((q, e), m)]"] g2(3) by simp
qed simp

lemma parseargs_complete:
  "words_next us ws xs \<Longrightarrow> tokens line i = us @ rest \<Longrightarrow> follows [124, 41, 38, 59] rest \<Longrightarrow> length (argv @ ws) < MAXARGS \<Longrightarrow>
    length us < n \<Longrightarrow> \<exists>j. parseargs n line argv rs i = Ok (foldl redircmd (EXEC (argv @ ws)) (rs @ xs), j) \<and> tokens line j = rest"
proof (induction n arbitrary: us ws xs argv rs i)
  case (Suc n)
  show ?case
  proof (cases us)
    case Nil
    then have e: "ws = []" "xs = []" "tokens line i = rest" using Suc.prems(1,2) by (auto simp: words_next_def)
    show ?thesis
    proof (cases rest)
      case Nil
      then obtain q e k where "gettoken line i = (0, q, e, k)" "tokens line k = []" using gettoken_end [of line i] e(3) by metis
      then show ?thesis using Nil e by simp
    next
      case (Cons t ts)
      then show ?thesis using Suc.prems(3) e by (simp add: follows_def)
    qed
  next
    case (Cons t vs)
    then obtain sp xs' where w: "t = Word sp" "ws = sp # xs'" "items vs xs' xs" using Suc.prems(1) by (auto simp: words_next_def)
    obtain us1 rs1 us2 rs2 where u: "vs = us1 @ us2" "xs = rs1 @ rs2" "items us1 [] rs1" "words_next us2 xs' rs2"
      using items_split [OF w(3)] by blast
    have tk: "tokens line i = Word sp # vs @ rest" using Suc.prems(2) Cons w(1) by simp
    obtain q e k where g: "gettoken line i = (97, q, e, k)" "tokens line k = vs @ rest" "sp = (q, e)"
      using gettoken_next [OF tk] by (metis tok_simps(3))
    have "\<not> starts [60, 62] (us2 @ rest)"
      using u(4) follows_disjoint [OF Suc.prems(3), of "[60, 62]"] by (auto simp: words_next_def)
    then obtain j1 where r: "parseredirs n line rs k = Ok (rs @ rs1, j1)" "tokens line j1 = us2 @ rest"
      using parseredirs_complete [OF u(3) refl, of line k "us2 @ rest" n rs] g(2) u(1) Suc.prems(5) Cons by auto
    obtain j where "parseargs n line (argv @ [sp]) (rs @ rs1) j1 = Ok (foldl redircmd (EXEC ((argv @ [sp]) @ xs')) ((rs @ rs1) @ rs2), j)"
        "tokens line j = rest"
      using Suc.IH [OF u(4) r(2) Suc.prems(3), of "argv @ [sp]" "rs @ rs1"] Suc.prems(4,5) w(2) u(1) Cons by auto
    then show ?thesis using Suc.prems(4) tk g w(2) r(1) u(2) by simp
  qed
qed simp

lemma parsebacks_complete:
  "tokens line i = replicate k (Sym 38) @ rest \<Longrightarrow> \<not> starts [38] rest \<Longrightarrow> k < n \<Longrightarrow>
    \<exists>j. parsebacks n line c i = Ok ((BACK ^^ k) c, j) \<and> tokens line j = rest"
proof (induction k arbitrary: i n c)
  case 0
  then show ?case by (cases n) auto
next
  case (Suc k)
  obtain m where m: "n = Suc m" "k < m" using Suc.prems(3) by (cases n) auto
  obtain q e j1 where "gettoken line i = (38, q, e, j1)" "tokens line j1 = replicate k (Sym 38) @ rest"
    using take_symbol [of line i 38] Suc.prems(1) by (metis append_Cons replicate_Suc)
  then show ?case using Suc.IH [OF _ Suc.prems(2) m(2), of j1 "BACK c"] Suc.prems(1) m(1) by (simp add: funpow_swap1)
qed

definition parse_complete ::
    "(nat \<Rightarrow> u8 list \<Rightarrow> nat \<Rightarrow> (cmd \<times> nat) outcome) \<Rightarrow> u8 list \<Rightarrow> nat \<Rightarrow> tok list \<Rightarrow> cmd \<Rightarrow> bool" where
  "parse_complete f after m us c \<longleftrightarrow> (\<forall>line i n rest. tokens line i = us @ rest \<longrightarrow> follows after rest \<longrightarrow> 4 * length us + m \<le> n \<longrightarrow>
     (\<exists>j. f n line i = Ok (c, j) \<and> tokens line j = rest))"

lemma parse_completeD:
  assumes "parse_complete f after m us c" and "tokens line i = us @ rest" and "follows after rest" and "4 * length us + m \<le> n"
  obtains j where "f n line i = Ok (c, j)" "tokens line j = rest"
  using assms unfolding parse_complete_def by blast

lemma follows_backs:
  "follows [38, 59, 41] (replicate k (Sym 38) @ rest)" if "follows [59, 41] rest"
  using that by (cases k) (auto simp: follows_def starts_def split: list.splits)

text \<open>The first part of \<^verbatim>\<open>parseline\<close>, in front of a semicolon or at the end.\<close>

lemma parseline_first:
  assumes "parse_complete parsepipe [38, 59, 41] 3 us c" and "tokens line i = us @ replicate k (Sym 38) @ rest"
    and "follows [59, 41] rest" and "4 * (length us + k) + 4 \<le> Suc n"
  obtains i1 i2 where "parsepipe n line i = Ok (c, i1)" "parsebacks n line c i1 = Ok ((BACK ^^ k) c, i2)" "tokens line i2 = rest"
proof -
  have "4 * length us + 3 \<le> n" using assms(4) by simp
  then obtain i1 where 1: "parsepipe n line i = Ok (c, i1)" "tokens line i1 = replicate k (Sym 38) @ rest"
    using parse_completeD [OF assms(1,2) follows_backs [OF assms(3)]] by blast
  have "\<not> starts [38] rest" by (rule follows_disjoint [OF assms(3)]) simp
  moreover have "k < n" using assms(4) by simp
  ultimately obtain i2 where "parsebacks n line c i1 = Ok ((BACK ^^ k) c, i2)" "tokens line i2 = rest"
    using parsebacks_complete [OF 1(2)] by blast
  then show ?thesis using that 1(1) by blast
qed

lemma line_one_complete:
  assumes "parse_complete parsepipe [38, 59, 41] 3 us c"
  shows "parse_complete parseline [41] 4 (us @ replicate k (Sym 38)) ((BACK ^^ k) c)"
  unfolding parse_complete_def
proof (intro allI impI)
  fix line i n rest
  assume a: "tokens line i = (us @ replicate k (Sym 38)) @ rest" "follows [41] rest" "4 * length (us @ replicate k (Sym 38)) + 4 \<le> n"
  then obtain m where m: "n = Suc m" by (cases n) auto
  obtain i1 i2 where "parsepipe m line i = Ok (c, i1)" "parsebacks m line c i1 = Ok ((BACK ^^ k) c, i2)" "tokens line i2 = rest"
    by (rule parseline_first [OF assms, of line i k rest m]) (use a m follows_mono [OF a(2)] in auto)
  moreover have "\<not> starts [59] rest" by (rule follows_disjoint [OF a(2)]) simp
  ultimately show "\<exists>j. parseline n line i = Ok ((BACK ^^ k) c, j) \<and> tokens line j = rest" using m by simp
qed

lemma line_more_complete:
  assumes "parse_complete parsepipe [38, 59, 41] 3 us c" and "parse_complete parseline [41] 4 vs d"
  shows "parse_complete parseline [41] 4 (us @ replicate k (Sym 38) @ Sym 59 # vs) (LIST ((BACK ^^ k) c) d)"
  unfolding parse_complete_def
proof (intro allI impI)
  fix line i n rest
  assume a: "tokens line i = (us @ replicate k (Sym 38) @ Sym 59 # vs) @ rest" "follows [41] rest"
    "4 * length (us @ replicate k (Sym 38) @ Sym 59 # vs) + 4 \<le> n"
  then obtain m where m: "n = Suc m" by (cases n) auto
  obtain i1 i2 where 1: "parsepipe m line i = Ok (c, i1)" "parsebacks m line c i1 = Ok ((BACK ^^ k) c, i2)"
      "tokens line i2 = Sym 59 # vs @ rest"
    by (rule parseline_first [OF assms(1), of line i k "Sym 59 # vs @ rest" m]) (use a m in \<open>auto simp: follows_def\<close>)
  obtain q e i3 where g: "gettoken line i2 = (59, q, e, i3)" "tokens line i3 = vs @ rest" using take_symbol [OF 1(3)] .
  have "4 * length vs + 4 \<le> m" using a(3) m by simp
  then obtain j where "parseline m line i3 = Ok (d, j)" "tokens line j = rest" using parse_completeD [OF assms(2) g(2) a(2)] by blast
  then show "\<exists>j. parseline n line i = Ok (LIST ((BACK ^^ k) c) d, j) \<and> tokens line j = rest" using m 1 g(1) by simp
qed

lemma pipe_one_complete:
  assumes "parse_complete parseexec [124, 38, 59, 41] 2 us c"
  shows "parse_complete parsepipe [38, 59, 41] 3 us c"
  unfolding parse_complete_def
proof (intro allI impI)
  fix line i n rest
  assume a: "tokens line i = us @ rest" "follows [38, 59, 41] rest" "4 * length us + 3 \<le> n"
  then obtain m where m: "n = Suc m" "4 * length us + 2 \<le> m" by (cases n) auto
  have "follows [124, 38, 59, 41] rest" by (rule follows_mono [OF a(2)]) simp
  then obtain j where "parseexec m line i = Ok (c, j)" "tokens line j = rest" using parse_completeD [OF assms a(1) _ m(2)] by blast
  moreover have "\<not> starts [124] rest" by (rule follows_disjoint [OF a(2)]) simp
  ultimately show "\<exists>j. parsepipe n line i = Ok (c, j) \<and> tokens line j = rest" using m(1) by simp
qed

lemma pipe_more_complete:
  assumes "parse_complete parseexec [124, 38, 59, 41] 2 us c" and "parse_complete parsepipe [38, 59, 41] 3 vs d"
  shows "parse_complete parsepipe [38, 59, 41] 3 (us @ Sym 124 # vs) (PIPE c d)"
  unfolding parse_complete_def
proof (intro allI impI)
  fix line i n rest
  assume a: "tokens line i = (us @ Sym 124 # vs) @ rest" "follows [38, 59, 41] rest" "4 * length (us @ Sym 124 # vs) + 3 \<le> n"
  then obtain m where m: "n = Suc m" "4 * length us + 2 \<le> m" "4 * length vs + 3 \<le> m" by (cases n) auto
  obtain i1 where 1: "parseexec m line i = Ok (c, i1)" "tokens line i1 = Sym 124 # vs @ rest"
    by (rule parse_completeD [OF assms(1), of line i "Sym 124 # vs @ rest" m]) (use a m in \<open>auto simp: follows_def\<close>)
  obtain q e i2 where g: "gettoken line i1 = (124, q, e, i2)" "tokens line i2 = vs @ rest" using take_symbol [OF 1(2)] .
  obtain j where "parsepipe m line i2 = Ok (d, j)" "tokens line j = rest" using parse_completeD [OF assms(2) g(2) a(2) m(3)] .
  then show "\<exists>j. parsepipe n line i = Ok (PIPE c d, j) \<and> tokens line j = rest" using m(1) 1 g(1) by simp
qed

lemma items_first: "items us ws rs \<Longrightarrow> \<not> starts [40] us"
  by (induction rule: items.induct) (auto dest: redir_first)

lemma exec_simple_complete:
  assumes "items us ws rs" and "length ws < MAXARGS"
  shows "parse_complete parseexec [124, 38, 59, 41] 2 us (foldl redircmd (EXEC ws) rs)"
  unfolding parse_complete_def
proof (intro allI impI)
  fix line i n rest
  assume a: "tokens line i = us @ rest" "follows [124, 38, 59, 41] rest" "4 * length us + 2 \<le> n"
  then obtain m where m: "n = Suc m" "length us < m" by (cases n) auto
  obtain us1 rs1 us2 rs2 where u: "us = us1 @ us2" "rs = rs1 @ rs2" "items us1 [] rs1" "words_next us2 ws rs2"
    using items_split [OF assms(1)] by blast
  have f: "follows [124, 41, 38, 59] rest" by (rule follows_mono [OF a(2)]) auto
  have "\<not> starts [60, 62] (us2 @ rest)"
    using u(4) follows_disjoint [OF f, of "[60, 62]"] by (auto simp: words_next_def)
  then obtain k where k: "parseredirs m line [] (skip_space line i) = Ok (rs1, k)" "tokens line k = us2 @ rest"
    using parseredirs_complete [OF u(3) refl, of line "skip_space line i" "us2 @ rest" m "[]"] a(1) u(1) m(2) by auto
  obtain j where "parseargs m line [] rs1 k = Ok (foldl redircmd (EXEC ws) rs, j)" "tokens line j = rest"
    using parseargs_complete [OF u(4) k(2) f, of "[]" m rs1] assms(2) u(1,2) m(2) by auto
  moreover have "\<not> starts [40] (us @ rest)"
    using items_first [OF assms(1)] follows_disjoint [OF a(2), of "[40]"] by (cases us) auto
  ultimately show "\<exists>j. parseexec n line i = Ok (foldl redircmd (EXEC ws) rs, j) \<and> tokens line j = rest"
    using m(1) a(1) k(1) by simp
qed

lemma exec_block_complete:
  assumes "parse_complete parseline [41] 4 us c" and "items vs [] rs"
  shows "parse_complete parseexec [124, 38, 59, 41] 2 (Sym 40 # us @ Sym 41 # vs) (foldl redircmd c rs)"
  unfolding parse_complete_def
proof (intro allI impI)
  fix line i n rest
  assume a: "tokens line i = (Sym 40 # us @ Sym 41 # vs) @ rest" "follows [124, 38, 59, 41] rest"
    "4 * length (Sym 40 # us @ Sym 41 # vs) + 2 \<le> n"
  define m where "m = n - 2"
  have m: "n = Suc (Suc m)" "4 * length us + 4 \<le> m" "length vs < m" using a(3) by (simp_all add: m_def)
  obtain q e i1 where g: "gettoken line i = (40, q, e, i1)" "tokens line i1 = us @ Sym 41 # vs @ rest"
    using take_symbol [of line i 40 "us @ Sym 41 # vs @ rest"] a(1) by auto
  obtain i2 where 2: "parseline m line i1 = Ok (c, i2)" "tokens line i2 = Sym 41 # vs @ rest"
    by (rule parse_completeD [OF assms(1) g(2) _ m(2)]) (auto simp: follows_def)
  obtain q2 e2 i3 where g2: "gettoken line i2 = (41, q2, e2, i3)" "tokens line i3 = vs @ rest" using take_symbol [OF 2(2)] .
  have "\<not> starts [60, 62] rest" by (rule follows_disjoint [OF a(2)]) simp
  then obtain j where "parseredirs m line [] i3 = Ok (rs, j)" "tokens line j = rest"
    using parseredirs_complete [OF assms(2) refl g2(2) _ m(3), of "[]"] by auto
  then show "\<exists>j. parseexec n line i = Ok (foldl redircmd c rs, j) \<and> tokens line j = rest"
    using m(1) a(1) g(1) 2 g2(1) by simp
qed

lemma parse_complete_all:
  "line_of us c \<Longrightarrow> parse_complete parseline [41] 4 us c"
  "pipe_of us c \<Longrightarrow> parse_complete parsepipe [38, 59, 41] 3 us c"
  "exec_of us c \<Longrightarrow> parse_complete parseexec [124, 38, 59, 41] 2 us c"
  by (induction rule: line_of_pipe_of_exec_of.inducts)
    (blast intro: line_one_complete line_more_complete pipe_one_complete pipe_more_complete exec_simple_complete exec_block_complete)+

section \<open>Every line gets an answer\<close>

text \<open>
  The parser stays inside the line, and with enough fuel for the \<open>k\<close> tokens that are left it does not run out of it.
\<close>

definition answers :: "u8 list \<Rightarrow> ('a \<times> nat) outcome \<Rightarrow> bool" where
  "answers line r \<longleftrightarrow> (\<exists>x j. r = Ok (x, j) \<and> j \<le> length line) \<or> (\<exists>m. r = Panic m)"

lemma answers_simps [simp]: "answers line (Ok (x, j)) \<longleftrightarrow> j \<le> length line" "answers line (Panic m)"
  by (auto simp: answers_def)

lemma answers_andthen:
  assumes "answers line m" and "\<And>x j. m = Ok (x, j) \<Longrightarrow> j \<le> length line \<Longrightarrow> answers line (f (x, j))"
  shows "answers line (andthen m f)"
  using assms by (auto simp: answers_def)

lemma skip_space_le [simp]: "i \<le> length line \<Longrightarrow> skip_space line i \<le> length line"
  by (simp add: skip_space_takeWhile scan_le)

lemma gettoken_le:
  assumes "gettoken line i = (ret, q, e, j)" and "i \<le> length line"
  shows "j \<le> length line"
proof -
  let ?s = "skip_space line i"
  have j: "j = skip_space line e" using assms(1) by (auto simp: gettoken_def Let_def split: if_splits)
  have "char_at line k \<noteq> 0 \<Longrightarrow> k < length line" for k by (auto simp: char_at_def split: if_splits)
  from this [of ?s] this [of "?s + 1"] have "e \<le> length line"
    using assms scan_le [of ?s line word_char] by (auto simp: gettoken_def Let_def word_end_takeWhile split: if_splits)
  then show ?thesis using j by simp
qed

lemma gettoken_shorter:
  assumes "gettoken line i = (ret, q, e, j)" and "i \<le> length line"
  shows "j \<le> length line" and "length (tokens line j) \<le> length (tokens line i)"
    and "tokens line i \<noteq> [] \<Longrightarrow> length (tokens line j) < length (tokens line i)"
proof -
  show "j \<le> length line" by (rule gettoken_le [OF assms])
  have e: "tokens line j = []" if "tokens line i = []" using gettoken_end [OF that] assms(1) by auto
  have n: "tokens line j = ts" if "tokens line i = t # ts" for t ts using gettoken_next [OF that] assms(1) by auto
  show "length (tokens line j) \<le> length (tokens line i)" using e n by (cases "tokens line i") auto
  show "tokens line i \<noteq> [] \<Longrightarrow> length (tokens line j) < length (tokens line i)" using n by (cases "tokens line i") auto
qed

lemma parseredirs_answers:
  "i \<le> length line \<Longrightarrow> length (tokens line i) < n \<Longrightarrow> answers line (parseredirs n line rs i)"
proof (induction n arbitrary: rs i)
  case (Suc n)
  obtain t1 q1 e1 i1 where g1: "gettoken line i = (t1, q1, e1, i1)" by (metis prod_cases4)
  obtain t2 q2 e2 i2 where g2: "gettoken line i1 = (t2, q2, e2, i2)" by (metis prod_cases4)
  show ?case
  proof (cases "starts [60, 62] (tokens line i)")
    case True
    then have "tokens line i \<noteq> []" by auto
    then have "i2 \<le> length line" "length (tokens line i2) < n"
      using gettoken_shorter [OF g1 Suc.prems(1)] gettoken_shorter [OF g2] Suc.prems(2) by force+
    then show ?thesis using True g1 g2 Suc.IH by simp
  next
    case False
    then show ?thesis using Suc.prems(1) by simp
  qed
qed simp

lemma parseargs_answers:
  "i \<le> length line \<Longrightarrow> length (tokens line i) < n \<Longrightarrow> answers line (parseargs n line argv rs i)"
proof (induction n arbitrary: argv rs i)
  case (Suc n)
  obtain t q e i1 where g: "gettoken line i = (t, q, e, i1)" by (metis prod_cases4)
  note le = gettoken_shorter(1) [OF g Suc.prems(1)]
  show ?case
  proof (cases "starts [124, 41, 38, 59] (tokens line i) \<or> t = 0 \<or> t \<noteq> 97 \<or> MAXARGS \<le> length (argv @ [(q, e)])")
    case True
    then show ?thesis using g le Suc.prems(1) by auto
  next
    case False
    have "tokens line i \<noteq> []" using False g gettoken_end [of line i] by auto
    then have l: "length (tokens line i1) < n" using gettoken_shorter(3) [OF g Suc.prems(1)] Suc.prems(2) by simp
    have "answers line (andthen (parseredirs n line rs i1) (\<lambda>(rs, ps). parseargs n line (argv @ [(q, e)]) rs ps))"
    proof (rule answers_andthen [OF parseredirs_answers [OF le l]])
      fix rs1 j
      assume r: "parseredirs n line rs i1 = Ok (rs1, j)" "j \<le> length line"
      then have "length (tokens line j) < n" using parseredirs_sound [OF r(1)] l by auto
      then show "answers line (case (rs1, j) of (rs, ps) \<Rightarrow> parseargs n line (argv @ [(q, e)]) rs ps)"
        using Suc.IH [OF r(2)] by simp
    qed
    then show ?thesis using False g by simp
  qed
qed simp

lemma parsebacks_answers:
  "i \<le> length line \<Longrightarrow> length (tokens line i) < n \<Longrightarrow> answers line (parsebacks n line c i)"
proof (induction n arbitrary: c i)
  case (Suc n)
  obtain t q e i1 where g: "gettoken line i = (t, q, e, i1)" by (metis prod_cases4)
  show ?case
  proof (cases "starts [38] (tokens line i)")
    case True
    then have "tokens line i \<noteq> []" by auto
    then show ?thesis using True g Suc.IH gettoken_shorter [OF g Suc.prems(1)] Suc.prems(2) by simp
  next
    case False
    then show ?thesis using Suc.prems(1) by simp
  qed
qed simp

lemma symbol_shorter:
  assumes "starts cs (tokens line i)" and "i \<le> length line"
  obtains ret q e j where "gettoken line i = (ret, q, e, j)" "j \<le> length line" "length (tokens line j) < length (tokens line i)"
proof -
  obtain ret q e j where g: "gettoken line i = (ret, q, e, j)" by (metis prod_cases4)
  have "tokens line i \<noteq> []" using assms(1) by auto
  then show ?thesis using that g gettoken_shorter [OF g assms(2)] by blast
qed

lemma parse_shorter: "parse_sound line lang i (Ok (c, j)) \<Longrightarrow> length (tokens line j) \<le> length (tokens line i)"
  by (auto simp: parse_sound_def)

lemma parseline_answers_step:
  assumes p: "\<And>i. i \<le> length line \<Longrightarrow> 4 * length (tokens line i) + 3 \<le> n \<Longrightarrow> answers line (parsepipe n line i)"
    and l: "\<And>i. i \<le> length line \<Longrightarrow> 4 * length (tokens line i) + 4 \<le> n \<Longrightarrow> answers line (parseline n line i)"
    and i: "i \<le> length line" "4 * length (tokens line i) + 4 \<le> Suc n"
  shows "answers line (parseline (Suc n) line i)"
  unfolding parseline.simps
proof (rule answers_andthen)
  show "answers line (parsepipe n line i)" using i by (intro p) simp_all
next
  fix c i1
  assume 1: "parsepipe n line i = Ok (c, i1)" "i1 \<le> length line"
  have t1: "length (tokens line i1) \<le> length (tokens line i)" using parse_shorter parse_sound_all 1(1) by metis
  have "answers line (andthen (parsebacks n line c i1) (\<lambda>(c, ps).
       let (semi, ps) = peek line ps [59] in
       if semi then let (_, _, _, ps) = gettoken line ps in andthen (parseline n line ps) (\<lambda>(d, ps). Ok (LIST c d, ps))
       else Ok (c, ps)))"
  proof (rule answers_andthen [OF parsebacks_answers [OF 1(2)]])
    show "length (tokens line i1) < n" using t1 i(2) by simp
  next
    fix c2 i2
    assume 2: "parsebacks n line c i1 = Ok (c2, i2)" "i2 \<le> length line"
    have t2: "length (tokens line i2) \<le> length (tokens line i1)" using parsebacks_sound [OF 2(1)] by auto
    show "answers line (case (c2, i2) of (c, ps) \<Rightarrow>
       let (semi, ps) = peek line ps [59] in
       if semi then let (_, _, _, ps) = gettoken line ps in andthen (parseline n line ps) (\<lambda>(d, ps). Ok (LIST c d, ps))
       else Ok (c, ps))"
    proof (cases "starts [59] (tokens line i2)")
      case True
      obtain ret q e i3 where g: "gettoken line i2 = (ret, q, e, i3)" "i3 \<le> length line" "length (tokens line i3) < length (tokens line i2)"
        using symbol_shorter [OF True 2(2)] .
      have "answers line (parseline n line i3)" using g(2,3) t1 t2 i(2) by (intro l) simp_all
      then have "answers line (andthen (parseline n line i3) (\<lambda>(d, ps). Ok (LIST c2 d, ps)))" by (rule answers_andthen) simp
      then show ?thesis using True g(1) by simp
    qed (use 2(2) in simp)
  qed
  then show "answers line (case (c, i1) of (c, ps) \<Rightarrow> andthen (parsebacks n line c ps) (\<lambda>(c, ps).
       let (semi, ps) = peek line ps [59] in
       if semi then let (_, _, _, ps) = gettoken line ps in andthen (parseline n line ps) (\<lambda>(d, ps). Ok (LIST c d, ps))
       else Ok (c, ps)))" by simp
qed

lemma parsepipe_answers_step:
  assumes x: "\<And>i. i \<le> length line \<Longrightarrow> 4 * length (tokens line i) + 2 \<le> n \<Longrightarrow> answers line (parseexec n line i)"
    and p: "\<And>i. i \<le> length line \<Longrightarrow> 4 * length (tokens line i) + 3 \<le> n \<Longrightarrow> answers line (parsepipe n line i)"
    and i: "i \<le> length line" "4 * length (tokens line i) + 3 \<le> Suc n"
  shows "answers line (parsepipe (Suc n) line i)"
  unfolding parsepipe.simps
proof (rule answers_andthen)
  show "answers line (parseexec n line i)" using i by (intro x) simp_all
next
  fix c i1
  assume 1: "parseexec n line i = Ok (c, i1)" "i1 \<le> length line"
  have t1: "length (tokens line i1) \<le> length (tokens line i)" using parse_shorter parse_sound_all 1(1) by metis
  show "answers line (case (c, i1) of (c, ps) \<Rightarrow>
       let (bar, ps) = peek line ps [124] in
       if bar then let (_, _, _, ps) = gettoken line ps in andthen (parsepipe n line ps) (\<lambda>(d, ps). Ok (PIPE c d, ps))
       else Ok (c, ps))"
  proof (cases "starts [124] (tokens line i1)")
    case True
    obtain ret q e i2 where g: "gettoken line i1 = (ret, q, e, i2)" "i2 \<le> length line" "length (tokens line i2) < length (tokens line i1)"
      using symbol_shorter [OF True 1(2)] .
    have "answers line (parsepipe n line i2)" using g(2,3) t1 i(2) by (intro p) simp_all
    then have "answers line (andthen (parsepipe n line i2) (\<lambda>(d, ps). Ok (PIPE c d, ps)))" by (rule answers_andthen) simp
    then show ?thesis using True g(1) by simp
  qed (use 1(2) in simp)
qed

lemma parseexec_answers_step:
  assumes b: "\<And>i. i \<le> length line \<Longrightarrow> 4 * length (tokens line i) + 1 \<le> n \<Longrightarrow> answers line (parseblock n line i)"
    and i: "i \<le> length line" "4 * length (tokens line i) + 2 \<le> Suc n"
  shows "answers line (parseexec (Suc n) line i)"
proof (cases "starts [40] (tokens line i)")
  case True
  then show ?thesis using b [of "skip_space line i"] i by simp
next
  case False
  let ?i = "skip_space line i"
  have "answers line (andthen (parseredirs n line [] ?i) (\<lambda>(rs, ps). parseargs n line [] rs ps))"
  proof (rule answers_andthen)
    show "answers line (parseredirs n line [] ?i)" using i by (intro parseredirs_answers) simp_all
  next
    fix rs j
    assume r: "parseredirs n line [] ?i = Ok (rs, j)" "j \<le> length line"
    then have "length (tokens line j) < n" using parseredirs_sound [OF r(1)] i(2) by auto
    then show "answers line (case (rs, j) of (rs, ps) \<Rightarrow> parseargs n line [] rs ps)" using parseargs_answers [OF r(2)] by simp
  qed
  then show ?thesis using False by simp
qed

lemma parseblock_answers_step:
  assumes l: "\<And>i. i \<le> length line \<Longrightarrow> 4 * length (tokens line i) + 4 \<le> n \<Longrightarrow> answers line (parseline n line i)"
    and i: "i \<le> length line" "4 * length (tokens line i) + 1 \<le> Suc n"
  shows "answers line (parseblock (Suc n) line i)"
proof (cases "starts [40] (tokens line i)")
  case True
  obtain ret q e i1 where g: "gettoken line i = (ret, q, e, i1)" "i1 \<le> length line" "length (tokens line i1) < length (tokens line i)"
    using symbol_shorter [OF True i(1)] .
  have "answers line (andthen (parseline n line i1) (\<lambda>(c, ps).
          let (par, ps) = peek line ps [41] in
          if \<not> par then Panic ''syntax - missing )''
          else let (_, _, _, ps) = gettoken line ps in
            andthen (parseredirs n line [] ps) (\<lambda>(rs, ps). Ok (foldl redircmd c rs, ps))))"
  proof (rule answers_andthen)
    show "answers line (parseline n line i1)" using g(2,3) i(2) by (intro l) simp_all
  next
    fix c i2
    assume 2: "parseline n line i1 = Ok (c, i2)" "i2 \<le> length line"
    have t2: "length (tokens line i2) \<le> length (tokens line i1)" using parse_shorter parse_sound_all 2(1) by metis
    show "answers line (case (c, i2) of (c, ps) \<Rightarrow>
          let (par, ps) = peek line ps [41] in
          if \<not> par then Panic ''syntax - missing )''
          else let (_, _, _, ps) = gettoken line ps in
            andthen (parseredirs n line [] ps) (\<lambda>(rs, ps). Ok (foldl redircmd c rs, ps)))"
    proof (cases "starts [41] (tokens line i2)")
      case True
      obtain ret q e i3 where g3: "gettoken line i2 = (ret, q, e, i3)" "i3 \<le> length line" "length (tokens line i3) < length (tokens line i2)"
        using symbol_shorter [OF True 2(2)] .
      have "answers line (parseredirs n line [] i3)" using g(3) g3(2,3) t2 i(2) by (intro parseredirs_answers) simp_all
      then have "answers line (andthen (parseredirs n line [] i3) (\<lambda>(rs, ps). Ok (foldl redircmd c rs, ps)))" by (rule answers_andthen) simp
      then show ?thesis using True g3(1) by simp
    qed simp
  qed
  then show ?thesis using True g(1) by simp
qed simp

lemma parse_answers_all:
  "i \<le> length line \<Longrightarrow>
    (4 * length (tokens line i) + 4 \<le> n \<longrightarrow> answers line (parseline n line i)) \<and>
    (4 * length (tokens line i) + 3 \<le> n \<longrightarrow> answers line (parsepipe n line i)) \<and>
    (4 * length (tokens line i) + 2 \<le> n \<longrightarrow> answers line (parseexec n line i)) \<and>
    (4 * length (tokens line i) + 1 \<le> n \<longrightarrow> answers line (parseblock n line i))"
proof (induction n arbitrary: i)
  case (Suc n)
  show ?case
    by (intro conjI impI parseline_answers_step parsepipe_answers_step parseexec_answers_step parseblock_answers_step)
      (use Suc in blast)+
qed simp

section \<open>The whole line\<close>

lemma line_nonzero: "0 \<notin> set line \<Longrightarrow> i < length line \<Longrightarrow> line ! i \<noteq> 0"
  by (metis nth_mem)

lemma tokens_none:
  assumes "0 \<notin> set line" and "i \<le> length line"
  shows "tokens line i = [] \<longleftrightarrow> skip_space line i = length line"
proof -
  let ?s = "skip_space line i"
  have "?s \<le> length line" using assms(2) by simp
  then have "?s = length line \<longleftrightarrow> char_at line ?s = 0"
    using line_nonzero [OF assms(1), of ?s] by (auto simp: char_at_def)
  moreover have "tokens line i = [] \<longleftrightarrow> char_at line ?s = 0"
    by (subst tokens.simps) (auto simp: gettoken_def Let_def split: if_splits)
  ultimately show ?thesis by simp
qed

lemma parsecmd_end:
  assumes z: "0 \<notin> set line" and p: "parseline (4 * length line + 8) line 0 = Ok (c, j)"
  shows "parsecmd line = (if tokens line j = [] then Ok (c, nulterminate c (line @ [0])) else Panic ''syntax'')"
proof -
  have "4 * length (tokens line 0) + 4 \<le> 4 * length line + 8" using tokens_length [of line 0] by simp
  then have "answers line (parseline (4 * length line + 8) line 0)" using parse_answers_all [of 0 line] by blast
  then have "j \<le> length line" using p by simp
  then show ?thesis using p tokens_none [OF z] by (simp add: parsecmd_def peek_def Let_def)
qed

lemma parsecmd_complete:
  assumes z: "0 \<notin> set line" and d: "line_of (tokens line 0) d"
  shows "parsecmd line = Ok (d, nulterminate d (line @ [0]))"
proof -
  have n: "4 * length (tokens line 0) + 4 \<le> 4 * length line + 8" using tokens_length [of line 0] by simp
  obtain j where "parseline (4 * length line + 8) line 0 = Ok (d, j)" "tokens line j = []"
    by (rule parse_completeD [OF parse_complete_all(1) [OF d], of line 0 "[]" "4 * length line + 8"]) (use n in \<open>simp_all add: follows_def\<close>)
  then show ?thesis using parsecmd_end [OF z] by simp
qed

text \<open>
  C37: The parser of the shell answers every line, and accepts it exactly when its tokens form a command line of the grammar:
  pipelines of commands and parenthesised lines with redirections in any place, followed by ampersands and separated by
  semicolons, with fewer than ten arguments to a command. It then returns the command that the line stands for, with the
  strings terminated; every other line ends in an error message.
\<close>

theorem parsecmd_correct:
  assumes z: "0 \<notin> set line"
  shows "(parsecmd line = Ok (c, buf) \<longleftrightarrow> line_of (tokens line 0) c \<and> buf = nulterminate c (line @ [0])) \<and>
    ((\<exists>d. line_of (tokens line 0) d) \<or> (\<exists>m. parsecmd line = Panic m))"
proof -
  let ?n = "4 * length line + 8"
  have n: "4 * length (tokens line 0) + 4 \<le> ?n" using tokens_length [of line 0] by simp
  note complete = parsecmd_complete [OF z]
  consider (ok) d j where "parseline ?n line 0 = Ok (d, j)" "tokens line j = []"
    | (rest) d j where "parseline ?n line 0 = Ok (d, j)" "tokens line j \<noteq> []" | (panic) m where "parseline ?n line 0 = Panic m"
    using parse_answers_all [of 0 line] n unfolding answers_def by blast
  then show ?thesis
  proof cases
    case ok
    then have "line_of (tokens line 0) d" using parse_sound_all [of line 0 ?n] by (auto simp: parse_sound_def)
    moreover have "parsecmd line = Ok (d, nulterminate d (line @ [0]))" using parsecmd_end [OF z ok(1)] ok(2) by simp
    ultimately show ?thesis using complete [of c] by auto
  next
    case rest
    then have "parsecmd line = Panic ''syntax''" using parsecmd_end [OF z] by simp
    then show ?thesis using complete [of c] by auto
  next
    case panic
    then have "parsecmd line = Panic m" by (simp add: parsecmd_def)
    then show ?thesis using complete [of c] by auto
  qed
qed

text \<open>The line \<^verbatim>\<open>a|b\<close>.\<close>

lemma example_gettoken:
  "gettoken [97, 124, 98] 0 = (97, 0, 1, 1)" "gettoken [97, 124, 98] 1 = (124, 1, 2, 2)"
  "gettoken [97, 124, 98] 2 = (97, 2, 3, 3)" "gettoken [97, 124, 98] 3 = (0, 3, 3, 3)"
  by (simp_all add: gettoken_def skip_space_takeWhile word_end_takeWhile char_at_def word_char_def whitespace_def symbols_def One_nat_def)

lemma example_tokens: "tokens [97, 124, 98] 0 = [Word (0, 1), Sym 124, Word (2, 3)]"
proof -
  have 3: "tokens [97, 124, 98] 3 = []" by (subst tokens.simps) (simp add: example_gettoken)
  have 2: "tokens [97, 124, 98] 2 = [Word (2, 3)]" by (subst tokens.simps) (simp add: example_gettoken 3)
  have 1: "tokens [97, 124, 98] 1 = [Sym 124, Word (2, 3)]" by (subst tokens.simps) (simp add: example_gettoken 2)
  show ?thesis by (subst tokens.simps) (simp add: example_gettoken 1)
qed

lemma example_line: "line_of [Word (0, 1), Sym 124, Word (2, 3)] (PIPE (EXEC [(0, 1)]) (EXEC [(2, 3)]))"
proof -
  have x: "exec_of [Word sp] (EXEC [sp])" for sp
    using exec_simple [OF items_word [OF items_none, of sp]] by simp
  show ?thesis using line_one [OF pipe_more [OF x [of "(0, 1)"] pipe_one [OF x [of "(2, 3)"]]], of 0] by simp
qed

theorem parsecmd_correct_witness:
  "parsecmd [97, 124, 98] = Ok (PIPE (EXEC [(0, 1)]) (EXEC [(2, 3)]), [97, 0, 98, 0])"
  using parsecmd_correct [of "[97, 124, 98]" "PIPE (EXEC [(0, 1)]) (EXEC [(2, 3)])" "[97, 0, 98, 0]"] example_line
  by (simp add: example_tokens One_nat_def)

section \<open>Words\<close>

primrec spans :: "cmd \<Rightarrow> span list" where
  "spans (EXEC argv) = argv"
| "spans (REDIR c sp mode fd) = sp # spans c"
| "spans (PIPE c d) = spans c @ spans d"
| "spans (LIST c d) = spans c @ spans d"
| "spans (BACK c) = spans c"

lemma spans_redirs: "set (spans (foldl redircmd c rs)) = set (spans c) \<union> fst ` set rs"
  by (induction rs arbitrary: c) (auto simp: redircmd_def split: prod.splits)

lemma spans_backs [simp]: "spans ((BACK ^^ k) c) = spans c"
  by (induction k) simp_all

lemma items_words: "items us ws rs \<Longrightarrow> set ws \<union> fst ` set rs = {sp. Word sp \<in> set us}"
  by (induction rule: items.induct) (auto dest: redir_first)

lemma grammar_words:
  "line_of us c \<Longrightarrow> set (spans c) = {sp. Word sp \<in> set us}"
  "pipe_of us c \<Longrightarrow> set (spans c) = {sp. Word sp \<in> set us}"
  "exec_of us c \<Longrightarrow> set (spans c) = {sp. Word sp \<in> set us}"
proof (induction rule: line_of_pipe_of_exec_of.inducts)
  case (exec_simple us ws rs)
  then show ?case using items_words [of us ws rs] by (simp add: spans_redirs)
next
  case (exec_block us c vs rs)
  then show ?case using items_words [of vs "[]" rs] by (auto simp: spans_redirs)
qed auto

lemma zeros_nth:
  "length (fold (\<lambda>(q, e) buf. buf[e := 0]) argv buf) = length buf \<and>
    (\<forall>i < length buf. fold (\<lambda>(q, e) buf. buf[e := 0]) argv buf ! i = (if \<exists>q. (q, i) \<in> set argv then 0 else buf ! i))"
proof (induction argv arbitrary: buf)
  case (Cons sp argv)
  obtain q e where sp: "sp = (q, e)" by fastforce
  show ?case using Cons [of "buf[e := 0]"] by (auto simp: sp nth_list_update)
qed simp

lemma nulterminate_nth:
  "length (nulterminate c buf) = length buf \<and>
    (\<forall>i < length buf. nulterminate c buf ! i = (if \<exists>q. (q, i) \<in> set (spans c) then 0 else buf ! i))"
proof (induction c arbitrary: buf)
  case (REDIR c sp mode fd)
  obtain q e where sp: "sp = (q, e)" by fastforce
  have "(nulterminate c buf)[e := 0] ! i = (if \<exists>r. (r, i) \<in> set (sp # spans c) then 0 else buf ! i)" if "i < length buf" for i
    using REDIR [of buf] that by (cases "i = e") (auto simp: sp)
  then show ?case using REDIR [of buf] by (simp add: sp)
next
  case (EXEC argv)
  show ?case using zeros_nth [of argv buf] by simp
qed auto

lemma word_ends_apart:
  assumes "word_span line (q, e)" and "word_span line sp" and "q \<le> i" and "i < e"
  shows "i \<noteq> snd sp"
  using assms by (cases sp) (auto simp: word_span_def)

text \<open>
  C38: After parsing, the string at the beginning of every word of the command, argument or file name, is exactly that word of
  the line: the zeros that end the words do not cut a word short or leave a part of the line behind it.
\<close>

theorem parsecmd_strings:
  assumes z: "0 \<notin> set line" and p: "parsecmd line = Ok (c, buf)" and s: "(q, e) \<in> set (spans c)"
  shows "takeWhile (\<lambda>b. b \<noteq> 0) (drop q buf) = take (e - q) (drop q line) \<and> word_span line (q, e)"
proof -
  obtain j where l: "parseline (4 * length line + 8) line 0 = Ok (c, j)" and b: "buf = nulterminate c (line @ [0])"
    using p by (auto simp: parsecmd_def andthen_eq_Ok peek_def Let_def split: if_splits)
  obtain us where us: "tokens line 0 = us @ tokens line j" "line_of us c"
    using parse_sound_all [of line 0 "4 * length line + 8"] l by (auto elim: parse_soundE)
  have w: "word_span line sp" if "sp \<in> set (spans c)" for sp
    using that grammar_words(1) [OF us(2)] tokens_word [of sp line 0] us(1) by auto
  note qe = w [OF s]
  then have le: "q < e" "e \<le> length line" by (simp_all add: word_span_def)
  have len: "length buf = length line + 1" using nulterminate_nth [of c "line @ [0]"] b by simp
  have ends: "buf ! e = 0" using nulterminate_nth [of c "line @ [0]"] b le(2) s by force
  have inside: "buf ! i = line ! i" if "q \<le> i" "i < e" for i
  proof -
    have "\<not> (\<exists>r. (r, i) \<in> set (spans c))" using word_ends_apart [OF qe _ that] w by fastforce
    then show ?thesis using nulterminate_nth [of c "line @ [0]"] b le(2) that by (simp add: nth_append)
  qed
  have "takeWhile (\<lambda>b. b \<noteq> 0) (drop q buf) = take (e - q) (drop q buf)"
  proof (rule takeWhile_eq_take_P_nth)
    fix i
    assume "i < e - q" "i < length (drop q buf)"
    then show "drop q buf ! i \<noteq> 0" using inside [of "q + i"] le len line_nonzero [OF z, of "q + i"] by auto
  next
    show "\<not> drop q buf ! (e - q) \<noteq> 0" using ends le len by simp
  qed
  also have "\<dots> = take (e - q) (drop q line)"
    by (rule nth_equalityI) (use le len inside in auto)
  finally show ?thesis using qe by simp
qed

theorem parsecmd_strings_witness:
  "takeWhile (\<lambda>b. b \<noteq> 0) (drop 2 [97, 0, 98, 0 :: u8]) = take 1 (drop 2 [97, 124, 98]) \<and> word_span [97, 124, 98] (2, 3)"
proof -
  let ?c = "PIPE (EXEC [(0, 1)]) (EXEC [(2, 3)])"
  have "parsecmd [97, 124, 98] = Ok (?c, [97, 0, 98, 0])"
    using parsecmd_complete [of "[97, 124, 98]" ?c] example_line by (simp add: example_tokens One_nat_def)
  from parsecmd_strings [OF _ this, of 2 3] show ?thesis by simp
qed

end
