(* ===== verification/Spec2Isabelle.thy ===== *)
theory Spec2Isabelle
  imports Xv6_Vm_Correct Xv6_Dedup_Props Xv6_Trap_Props Xv6_User_Props Xv6_Console_Props Xv6_Ata_Props
    Xv6_Shell_Props
begin

text \<open>
  A model of the kernel of this repository, an xv6 for x86 whose file system can share equal
  blocks between files (de-duplication), with proofs of its main properties. File names below
  are relative to \<^verbatim>\<open>src/\<close>.

  \<^bold>\<open>The program.\<close> User processes enter the kernel through \<^verbatim>\<open>trap\<close> (trap.c), which calls \<^verbatim>\<open>syscall\<close>
  (syscall.c) and through it the functions of sysproc.c and sysfile.c. These use the process table
  (proc.c), the page tables (vm.c) over the page allocator (kalloc.c), and open files (file.c), which are
  pipes (pipe.c) or inodes. The file system (fs.c) is built on the log (log.c), the buffer cache (bio.c)
  and the disk driver: ide.c, or memide.c in a kernel that carries its disk in memory. Users type at the console (console.c, kbd.c,
  uart.c); the shell and the other programs are linked with ulib.c, printf.c and umalloc.c. The fork's own parts are the reference counts of blocks and copy-on-write in fs.c,
  and \<^verbatim>\<open>dedup\<close> with its reports in file.c.

  \<^bold>\<open>Conventions.\<close> A C function that may panic, sleep or touch memory it must not touch returns an
  \<^typ>\<open>'a outcome\<close> (Xv6\_Prelude): \<^term>\<open>Ok\<close>, \<^term>\<open>Panic\<close> with the kernel's message, \<^term>\<open>Blocked\<close>
  where a lone process would wait for ever, \<^term>\<open>Undef\<close> for undefined behaviour of C, and \<^term>\<open>NoFuel\<close> for
  a loop that exceeds its bound. State is passed explicitly, in extensible records that grow with the layers: disk, cache,
  log, block allocator, inodes, de-duplication on one side, memory and page tables on the other, both joined with the
  file table and the pipes in \<^verbatim>\<open>kern\<close>, then processes in \<^verbatim>\<open>kproc\<close> and the clock in \<^verbatim>\<open>ksys\<close>. Unsigned integers are
  naturals reduced modulo \<open>2 ^ 32\<close> where the code can wrap around, \<^verbatim>\<open>int\<close> and \<^verbatim>\<open>short\<close> are integers in
  range, bytes are 8-bit words. A pointer to a table entry is its index. A kernel operation under a lock that covers
  all of it is one step.

  \<^bold>\<open>Theories.\<close>
  \<^item> Xv6\_Prelude: outcomes, loops over lists, bytes and integers inside blocks.
  \<^item> Xv6\_Ide (memide.c, buf.h), Xv6\_Ring and Xv6\_Bio (bio.c): the disk and the cache, whose ring of buffers is
    a doubly linked list of indices. Xv6\_Cache\_Spec is the interface \<^verbatim>\<open>block_cache\<close> that later layers use.
  \<^item> Xv6\_Super (super block, also of mkfs.c), Xv6\_Log (log.c) with the interface \<^verbatim>\<open>txn_store\<close> of Xv6\_Txn\_Spec.
  \<^item> Xv6\_Blocks, Xv6\_Block\_Props: \<^verbatim>\<open>balloc\<close>, \<^verbatim>\<open>bfree\<close>, reference counts, \<^verbatim>\<open>getFreeBlocks\<close>.
  \<^item> Xv6\_Inode, Xv6\_Inode\_Props, Xv6\_Dir: inodes, their cache, reading and writing, directories, paths.
  \<^item> Xv6\_Dedup: \<^verbatim>\<open>dedup\<close>, \<^verbatim>\<open>deletedups\<close>, \<^verbatim>\<open>getSharedBlocksRate\<close> of file.c.
  \<^item> Xv6\_Content: the contents of files, what \<^verbatim>\<open>readi\<close> returns and what \<^verbatim>\<open>writei\<close> does to shared blocks;
    Xv6\_Dedup\_Props: what merging two blocks does to them.
  \<^item> Xv6\_Console, Xv6\_Console\_Props: console.c, kbd.c, uart.c, with picirq.c, ioapic.c and timer.c.
    Xv6\_Ata, Xv6\_Ata\_Props: the queue and the registers of ide.c.
  \<^item> Xv6\_User, Xv6\_User\_Props: strings, \<^verbatim>\<open>atoi\<close> and \<^verbatim>\<open>printf\<close> of user programs, the matcher of grep.c, the counts of wc.c.
    Xv6\_Shell, Xv6\_Shell\_Grammar, Xv6\_Shell\_Props: the parser of sh.c and the grammar of command lines.
  \<^item> Xv6\_Fifo\_Spec, Xv6\_Pipe: pipes as bounded queues. Xv6\_String: string.c on byte memory.
  \<^item> Xv6\_Page\_Spec, Xv6\_Kalloc, Xv6\_Vm, Xv6\_Vm\_Props, Xv6\_Vm\_Correct: pages and page tables.
  \<^item> Xv6\_Spinlock: locks, as calls and as steps of interleaved processors.
  \<^item> Xv6\_File: the file table. Xv6\_Proc, Xv6\_Proc\_Props: processes.
  \<^item> Xv6\_Syscall (syscall.c, sysproc.c), Xv6\_Sysfile and Xv6\_Calls (sysfile.c), Xv6\_Exec (exec.c), Xv6\_Trap (trap.c),
    with the properties in Xv6\_Calls\_Props and Xv6\_Trap\_Props; Xv6\_Example has the state of their examples.

  \<^bold>\<open>What is shown.\<close>
  \<^item> Crash safety: a commit is atomic whatever prefix of its disk writes survives, an open transaction is invisible
    after a crash, recovery is correct and can be interrupted.
  \<^item> The cache returns current contents and recycles the least recently used buffer; \<^verbatim>\<open>log_write\<close> absorbs
    blocks that are already logged.
  \<^item> The block allocator, the free count and the reference counts; the on-disk form of inodes; the inode cache.
  \<^item> File contents: \<^verbatim>\<open>readi\<close> returns the bytes of the file, a write into a block that is shared copies it first and leaves every
    other file as it was, and merging two equal blocks in \<^verbatim>\<open>dedup\<close> keeps the contents of all files.
  \<^item> Devices: the IDE driver serves requests in order and each of them has the effect of \<^verbatim>\<open>iderw\<close> of the memory disk,
    for disks that report no errors (the two drivers are compared request by request; the file system is not stacked on this one);
    console input is a line editor, and a reader gets one line.
  \<^item> User programs: the parser of the shell accepts exactly the lines of its grammar and keeps their words intact, the matcher of grep decides membership in the language of its pattern, printed numbers read back,
    and the counts of wc do not depend on how the input is cut into reads.
  \<^item> \<^verbatim>\<open>memset\<close>, \<^verbatim>\<open>memmove\<close> and path splitting agree with their plain definitions.
  \<^item> Pipes deliver every byte in order. Pages are never handed out twice. \<^verbatim>\<open>mappages\<close> and \<^verbatim>\<open>copyout\<close> change what they
    should and nothing else. Spin locks exclude each other.
  \<^item> Processes: no lost wake-up, what \<^verbatim>\<open>exit\<close> leaves behind, unique numbers, the length of \<^verbatim>\<open>sleep\<close>.
  \<^item> The user boundary: which arguments are accepted, dispatch of system calls, faults, killed processes do not
    return to user mode, descriptors are counted.
  \<^item> Errors in the code: \<^verbatim>\<open>kill(0)\<close>, negative sizes in \<^verbatim>\<open>argptr\<close>, the file \<^verbatim>\<open>getFileBlocks\<close> never closes, blocks of
    the log that \<^verbatim>\<open>balloc\<close> hands out, counts that wrap around, a copied block that \<^verbatim>\<open>replaceBlk\<close> enters in the place of another,
    and one that \<^verbatim>\<open>writei\<close> forgets to record on disk.

  The theorem on writing is about one block that the file has already, the one on merging about one pair of blocks. \<^verbatim>\<open>dedup\<close> and
  \<^verbatim>\<open>writei\<close> as a whole, \<^verbatim>\<open>exec\<close> and \<^verbatim>\<open>fork\<close> are modelled; theorems cover parts of them.

  \<^bold>\<open>Bounds.\<close> The scans of the cache ring have fuel for all its buffers; \<^verbatim>\<open>mappages\<close> has fuel for the number of pages
  it maps; the loop over the line in \<^verbatim>\<open>consoleintr\<close> has fuel for a full buffer, the loops that wait for a device have a bound that is
  a parameter, and the theorems say which bound is enough; the parser of the shell
  has fuel for four calls per byte of the line, which is shown to be enough. Other loops end by a measure. \<^verbatim>\<open>loaduvm\<close> yields \<^term>\<open>NoFuel\<close> where the counter of the C loop
  would wrap around.

  \<^bold>\<open>Parameters.\<close> The ports and registers of the hardware, with the documented behaviour of the display, the serial line and the disks
  as hypotheses (\<^verbatim>\<open>cga_device\<close>, \<^verbatim>\<open>serial_device\<close>, \<^verbatim>\<open>ata_device\<close>), the device table of \<^verbatim>\<open>readi\<close> and \<^verbatim>\<open>writei\<close>, the device interrupt handlers, the addresses of the
  kernel image and of process structures, and the words that \<^verbatim>\<open>dedup\<close> reads outside an array.

  \<^bold>\<open>Not modelled.\<close> lapic.c, mp.c, main.c, bootmain.c and the assembly files start the machine; segment and gate
  descriptors likewise (\<^verbatim>\<open>seginit\<close>, \<^verbatim>\<open>tvinit\<close>). The context switch itself is outside the model: an operation is cut at \<^verbatim>\<open>swtch\<close>
  and continued by another one. The wake-ups that pipes, the console and the disk send are recorded and not applied to the
  process table, and messages that other parts of the kernel print are left out. The file system is stacked on the memory disk, not on the
  interrupt-driven one, and the console is not entered in the device table. Of the user programs, umalloc.c, the part of sh.c that runs
  commands and the programs that are plain sequences of system calls are left out; usertests.c and forktest.c are tests.
\<close>

end
